(* ===== verification/Prelude.thy ===== *)
theory Prelude
  imports Main "HOL-Library.Word"
begin

text \<open>
  What every component shares: the fixed-width types of the C++ sources, the integer
  conversions the code performs with \<open>static_cast\<close>, C strings as views of byte strings,
  and generic lemmas on lists and words.

  A \<open>std::string\<close> is a HOL \<open>string\<close> (a list of 8-bit characters, embedded NULs
  allowed); a \<open>uint8_t\<close> buffer is a list of 8-bit words.
  \<open>size_t\<close> counts are \<open>nat\<close>: the containers of the model never reach
  \<open>2^64\<close> elements; the narrowing casts from \<open>size_t\<close> are written out.
\<close>

section \<open>Types\<close>

type_synonym u8 = "8 word"
type_synonym u16 = "16 word"
type_synonym u32 = "32 word"
type_synonym u64 = "64 word"
type_synonym bytes = "8 word list"

section \<open>Integer conversions\<close>

text \<open>\<open>static_cast<int>(n)\<close> of a \<open>size_t\<close>: the low 32 bits, read as two's complement.\<close>

definition int_of_size :: "nat \<Rightarrow> int" where
  "int_of_size n = sint (word_of_nat n :: 32 word)"

text \<open>\<open>static_cast<int>(w)\<close> of a 64-bit \<open>unsigned long\<close>.\<close>

definition int_of_ulong :: "u64 \<Rightarrow> int" where
  "int_of_ulong w = sint (ucast w :: 32 word)"

text \<open>\<open>static_cast<unsigned int>(n)\<close> of a \<open>size_t\<close>.\<close>

definition uint_of_size :: "nat \<Rightarrow> nat" where
  "uint_of_size n = unat (word_of_nat n :: 32 word)"

lemma sint_word_small:
  fixes w :: "32 word"
  assumes "uint w < 2147483648"
  shows "sint w = uint w"
proof -
  have "sint w = signed_take_bit 31 (uint w)"
    by (simp add: sint_uint)
  also have "\<dots> = uint w"
  proof (rule signed_take_bit_int_eq_self)
    show "- (2 ^ 31) \<le> uint w"
      by (rule order_trans [OF _ uint_ge_0]) simp
    show "uint w < 2 ^ 31"
      using assms by simp
  qed
  finally show ?thesis .
qed

lemma int_of_size_small: "n < 2147483648 \<Longrightarrow> int_of_size n = int n"
  unfolding int_of_size_def
  by (subst sint_word_small) (simp_all add: uint_nat take_bit_eq_mod unsigned_of_nat)

lemma int_of_size_bounds: "- 2147483648 \<le> int_of_size n \<and> int_of_size n < 2147483648"
  unfolding int_of_size_def
  using sint_greater_eq [of "word_of_nat n :: 32 word"] sint_less [of "word_of_nat n :: 32 word"]
  by simp

lemma uint_of_size_small: "n < 4294967296 \<Longrightarrow> uint_of_size n = n"
  by (simp add: uint_of_size_def unsigned_of_nat take_bit_eq_mod)

section \<open>Bytes and C strings\<close>

text \<open>
  The \<open>int\<close> a byte-reading function of the code returns: the first byte, widened, or
  \<open>-1\<close> where there is none.
\<close>

definition head_or_neg1 :: "bytes \<Rightarrow> int" where
  "head_or_neg1 bs = (case bs of [] \<Rightarrow> - 1 | b # _ \<Rightarrow> uint b)"

lemma head_or_neg1_simps [simp]:
  "head_or_neg1 [] = - 1"
  "head_or_neg1 (b # bs) = uint b"
  by (simp_all add: head_or_neg1_def)

lemma uint_not_neg1 [simp]: "uint (b :: 'a::len word) \<noteq> - 1"
  using uint_ge_0 [of b] by linarith

lemma head_or_neg1_eq_neg1 [simp]: "head_or_neg1 bs = - 1 \<longleftrightarrow> bs = []"
  by (cases bs) simp_all

text \<open>The bytes of a string: \<open>reinterpret_cast<const uint8_t*>\<close>.\<close>

definition bytes_of :: "string \<Rightarrow> bytes" where
  "bytes_of s = map of_char s"

lemma bytes_of_simps [simp]:
  "bytes_of [] = []"
  "bytes_of (c # cs) = of_char c # bytes_of cs"
  "bytes_of (s @ t) = bytes_of s @ bytes_of t"
  "length (bytes_of s) = length s"
  by (simp_all add: bytes_of_def)

text \<open>
  What a callee reads through the \<open>const char*\<close> of \<open>std::string::c_str()\<close>: the
  characters before the first NUL.
\<close>

definition c_view :: "string \<Rightarrow> string" where
  "c_view s = takeWhile (\<lambda>c. c \<noteq> CHR 0x00) s"

text \<open>A \<open>const char*\<close> argument: \<open>None\<close> is the null pointer.\<close>

type_synonym c_string = "string option"

definition cstr_or_empty :: "c_string \<Rightarrow> string" where
  "cstr_or_empty p = (case p of None \<Rightarrow> [] | Some s \<Rightarrow> c_view s)"

definition nul_free :: "string \<Rightarrow> bool" where
  "nul_free s \<longleftrightarrow> list_all (\<lambda>c. c \<noteq> CHR 0x00) s"

lemma nul_free_simps [simp]:
  "nul_free []"
  "nul_free (c # s) \<longleftrightarrow> c \<noteq> CHR 0x00 \<and> nul_free s"
  "nul_free (s @ t) \<longleftrightarrow> nul_free s \<and> nul_free t"
  by (simp_all add: nul_free_def)

lemma c_view_id [simp]: "nul_free s \<Longrightarrow> c_view s = s"
  by (induction s) (simp_all add: c_view_def)

lemma nul_free_c_view [simp]: "nul_free (c_view s)"
  by (induction s) (simp_all add: c_view_def)

lemma length_c_view: "length (c_view s) \<le> length s"
  by (simp add: c_view_def length_takeWhile_le)

section \<open>Maps\<close>

lemma map_upd_neq: "m k \<noteq> Some v \<Longrightarrow> m(k \<mapsto> v) \<noteq> m"
  by (metis fun_upd_same)

lemma dom_singleton_upd_None: "dom m = {k} \<Longrightarrow> m(k := None) = Map.empty"
  by (auto simp: fun_eq_iff dom_def)

section \<open>Formatted output\<close>

text \<open>
  \<open>vsnprintf(buf, cap, format, args)\<close>: the text that \<open>format\<close> and \<open>args\<close> denote is a
  parameter (\<open>None\<close> where formatting fails); the call stores at most \<open>cap - 1\<close> characters of
  it and a NUL, and returns the length of the whole text, or a negative value on failure or
  where the length does not fit an \<open>int\<close>.
\<close>

definition vsnprintf_ret :: "string option \<Rightarrow> int" where
  "vsnprintf_ret f =
     (case f of
        None \<Rightarrow> - 1
      | Some t \<Rightarrow> if length t < 2147483648 then int (length t) else - 1)"

definition vsnprintf_buf :: "nat \<Rightarrow> string option \<Rightarrow> string" where
  "vsnprintf_buf cap f =
     (case f of
        None \<Rightarrow> []
      | Some t \<Rightarrow> if cap = 0 then [] else take (cap - 1) t @ [CHR 0x00])"

section \<open>Decimal numbers\<close>

definition digit_char :: "nat \<Rightarrow> char" where
  "digit_char d = char_of (48 + d)"

text \<open>What \<open>%u\<close> and \<open>std::to_string\<close> print.\<close>

fun dec_of_nat :: "nat \<Rightarrow> string" where
  "dec_of_nat n = (if n < 10 then [digit_char n] else dec_of_nat (n div 10) @ [digit_char (n mod 10)])"

declare dec_of_nat.simps [simp del]

definition dec_of_int :: "int \<Rightarrow> string" where
  "dec_of_int i = (if i < 0 then CHR ''-'' # dec_of_nat (nat (- i)) else dec_of_nat (nat i))"

definition dec_value :: "string \<Rightarrow> nat" where
  "dec_value s = foldl (\<lambda>acc c. acc * 10 + (of_char c - 48)) 0 s"

lemma of_char_digit: "d < 10 \<Longrightarrow> of_char (digit_char d) = (48 + d :: nat)"
  by (simp add: digit_char_def)

lemma digit_char_range: "d < 10 \<Longrightarrow> c = digit_char d \<Longrightarrow> 48 \<le> (of_char c :: nat) \<and> (of_char c :: nat) \<le> 57"
  by (simp add: of_char_digit)

lemma dec_value_append: "dec_value (s @ [c]) = dec_value s * 10 + (of_char c - 48)"
  by (simp add: dec_value_def)

lemma dec_value_inverse: "dec_value (dec_of_nat n) = n"
proof (induction n rule: dec_of_nat.induct)
  case (1 n)
  show ?case
  proof (cases "n < 10")
    case True
    then show ?thesis
      by (simp add: dec_of_nat.simps [of n] dec_value_def of_char_digit)
  next
    case False
    have "dec_of_nat n = dec_of_nat (n div 10) @ [digit_char (n mod 10)]"
      using False by (simp add: dec_of_nat.simps [of n])
    with "1.IH" [OF False] show ?thesis
      by (simp add: dec_value_append of_char_digit)
  qed
qed

lemma dec_of_nat_digits:
  "c \<in> set (dec_of_nat n) \<Longrightarrow> 48 \<le> (of_char c :: nat) \<and> (of_char c :: nat) \<le> 57"
proof (induction n rule: dec_of_nat.induct)
  case (1 n)
  then show ?case
    by (cases "n < 10") (auto simp: dec_of_nat.simps [of n] of_char_digit)
qed

lemma dec_of_nat_length: "0 < k \<Longrightarrow> n < 10 ^ k \<Longrightarrow> length (dec_of_nat n) \<le> k"
proof (induction n arbitrary: k rule: dec_of_nat.induct)
  case (1 n)
  show ?case
  proof (cases "n < 10")
    case True
    with "1.prems" show ?thesis
      by (simp add: dec_of_nat.simps [of n])
  next
    case False
    then obtain j where k: "k = Suc j" "0 < j"
      using "1.prems" by (cases k; cases "k - 1") auto
    have "n div 10 < 10 ^ j"
      using "1.prems"(2) k by (simp add: less_mult_imp_div_less mult.commute)
    from "1.IH" [OF False k(2) this] False k show ?thesis
      by (simp add: dec_of_nat.simps [of n])
  qed
qed

lemma dec_of_nat_nul_free [simp]: "nul_free (dec_of_nat n)"
proof -
  have "c \<noteq> CHR 0x00" if "c \<in> set (dec_of_nat n)" for c
    using dec_of_nat_digits [OF that] by auto
  then show ?thesis
    by (simp add: nul_free_def list_all_iff)
qed

section \<open>Splitting at a separator\<close>

fun split_on :: "char \<Rightarrow> string \<Rightarrow> string list" where
  "split_on sep [] = [[]]"
| "split_on sep (c # s) =
     (if c = sep then [] # split_on sep s
      else case split_on sep s of [] \<Rightarrow> [[c]] | p # ps \<Rightarrow> (c # p) # ps)"

lemma split_on_not_Nil [simp]: "split_on sep s \<noteq> []"
  by (cases s) (auto split: list.split)

lemma split_on_append: "split_on sep (a @ sep # b) = split_on sep a @ split_on sep b"
proof (induction a)
  case Nil
  then show ?case by simp
next
  case (Cons c a)
  then show ?case
    by (cases "split_on sep a") simp_all
qed

lemma split_on_plain: "sep \<notin> set a \<Longrightarrow> split_on sep a = [a]"
  by (induction a) auto

end
