(* ===== verification/Interfaces.thy ===== *)
theory Interfaces
  imports Prelude
begin

text \<open>
  The contracts several components of the HAL share, as locales. \<open>byte_queue\<close> is a FIFO
  of bytes between two parties (a virtual UART direction) and \<open>peek_queue\<close> adds the polled
  read side of an Arduino \<open>Stream\<close> (\<open>available\<close>, \<open>peek\<close>); \<open>change_notifier\<close> is state
  that reports its changes to a listener; \<open>byte_source\<close> is the reading side of a connection
  and \<open>byte_sink\<close> what a \<open>Print\<close> writes to. Each is interpreted, in the theory of the component that provides it, on that component's own
  operations.
\<close>

section \<open>A FIFO of bytes\<close>

text \<open>
  A history of one queue: bursts of bytes pushed by the producer, single polls by the
  consumer, in any order. \<open>q_run\<close> collects what the polls return.
\<close>

datatype queue_op = Push bytes | Poll

primrec q_run ::
  "(bytes \<Rightarrow> 's \<Rightarrow> 's) \<Rightarrow> ('s \<Rightarrow> int \<times> 's) \<Rightarrow> queue_op list \<Rightarrow> 's \<Rightarrow> int list \<times> 's" where
  "q_run push poll [] s = ([], s)"
| "q_run push poll (opr # oprs) s =
     (case opr of
        Push xs \<Rightarrow> q_run push poll oprs (push xs s)
      | Poll \<Rightarrow>
          let (v, s') = poll s; (vs, s'') = q_run push poll oprs s' in (v # vs, s''))"

primrec pushed :: "queue_op list \<Rightarrow> bytes" where
  "pushed [] = []"
| "pushed (opr # oprs) = (case opr of Push xs \<Rightarrow> xs @ pushed oprs | Poll \<Rightarrow> pushed oprs)"

text \<open>The values polled that are bytes: \<open>-1\<close> means that nothing was there.\<close>

definition delivered :: "int list \<Rightarrow> int list" where
  "delivered vs = filter (\<lambda>v. v \<noteq> - 1) vs"

lemma delivered_simps [simp]:
  "delivered [] = []"
  "delivered (v # vs) = (if v = - 1 then delivered vs else v # delivered vs)"
  by (simp_all add: delivered_def)

locale byte_queue =
  fixes contents :: "'s \<Rightarrow> bytes"
    and push :: "bytes \<Rightarrow> 's \<Rightarrow> 's"
    and poll :: "'s \<Rightarrow> int \<times> 's"
  assumes contents_push: "contents (push xs s) = contents s @ xs"
    and poll_value: "fst (poll s) = head_or_neg1 (contents s)"
    and poll_rest: "contents (snd (poll s)) = tl (contents s)"
begin

lemma no_loss_in_order:
  "q_run push poll oprs s = (vs, s') \<Longrightarrow>
     delivered vs @ map uint (contents s') = map uint (contents s @ pushed oprs)"
proof (induction oprs arbitrary: s vs)
  case Nil
  then show ?case by simp
next
  case (Cons opr oprs)
  show ?case
  proof (cases opr)
    case (Push xs)
    with Cons.prems have "q_run push poll oprs (push xs s) = (vs, s')" by simp
    then show ?thesis
      using Cons.IH Push by (simp add: contents_push)
  next
    case Poll
    obtain vs' where run: "q_run push poll oprs (snd (poll s)) = (vs', s')"
      and vs: "vs = fst (poll s) # vs'"
      using Cons.prems Poll by (auto simp: Let_def split: prod.splits)
    show ?thesis
      using Cons.IH [OF run] Poll vs
      by (cases "contents s") (simp_all add: poll_value poll_rest)
  qed
qed

lemma polls_drain:
  "length (contents s) \<le> n \<Longrightarrow>
     fst (q_run push poll (replicate n Poll) s)
       = map uint (contents s) @ replicate (n - length (contents s)) (- 1)
     \<and> contents (snd (q_run push poll (replicate n Poll) s)) = []"
proof (induction n arbitrary: s)
  case 0
  then show ?case by simp
next
  case (Suc n)
  have "length (contents (snd (poll s))) \<le> n"
    using Suc.prems by (simp add: poll_rest)
  from Suc.IH [OF this] Suc.prems show ?case
    by (cases "contents s")
      (simp_all add: poll_value poll_rest Let_def split_def)
qed

end

text \<open>A queue whose consumer can also look before it takes.\<close>

locale peek_queue = byte_queue contents push poll
  for contents :: "'s \<Rightarrow> bytes" and push and poll +
  fixes peek_front :: "'s \<Rightarrow> int"
    and size_of :: "'s \<Rightarrow> int"
  assumes peek_value: "peek_front s = head_or_neg1 (contents s)"
    and size_value: "size_of s = int_of_size (length (contents s))"
begin

lemma peek_predicts_poll: "peek_front s = fst (poll s)"
  by (simp add: peek_value poll_value)

lemma available_iff_poll:
  "length (contents s) < 2147483648 \<Longrightarrow> 0 < size_of s \<longleftrightarrow> fst (poll s) \<noteq> - 1"
  by (simp add: size_value poll_value int_of_size_small)

end

section \<open>State that reports its changes\<close>

text \<open>
  Some operations of the HAL record a value and call a listener when, and only when, the
  value changed. \<open>notify_run\<close> performs a sequence of them and collects the calls;
  \<open>all_effective\<close> says that each call of a sequence tells a listener, who applies the calls
  to his own copy, something new.
\<close>

primrec notify_run :: "('o \<Rightarrow> 's \<Rightarrow> 'e list \<times> 's) \<Rightarrow> 'o list \<Rightarrow> 's \<Rightarrow> 'e list \<times> 's" where
  "notify_run step [] s = ([], s)"
| "notify_run step (opr # oprs) s =
     (let (es, s') = step opr s; (es', s'') = notify_run step oprs s' in (es @ es', s''))"

primrec all_effective :: "('e \<Rightarrow> 'v \<Rightarrow> 'v) \<Rightarrow> 'e list \<Rightarrow> 'v \<Rightarrow> bool" where
  "all_effective absorb [] v \<longleftrightarrow> True"
| "all_effective absorb (e # es) v \<longleftrightarrow> absorb e v \<noteq> v \<and> all_effective absorb es (absorb e v)"

lemma all_effective_append [simp]:
  "all_effective absorb (es @ es') v \<longleftrightarrow>
     all_effective absorb es v \<and> all_effective absorb es' (fold absorb es v)"
  by (induction es arbitrary: v) simp_all

locale change_notifier =
  fixes view :: "'s \<Rightarrow> 'v"
    and listening :: "'s \<Rightarrow> bool"
    and step :: "'o \<Rightarrow> 's \<Rightarrow> 'e list \<times> 's"
    and absorb :: "'e \<Rightarrow> 'v \<Rightarrow> 'v"
  assumes step_mirrored: "listening s \<Longrightarrow> step opr s = (es, s') \<Longrightarrow> view s' = fold absorb es (view s)"
    and step_effective: "listening s \<Longrightarrow> step opr s = (es, s') \<Longrightarrow> all_effective absorb es (view s)"
    and step_listening: "step opr s = (es, s') \<Longrightarrow> listening s' = listening s"
    and step_quiet: "\<not> listening s \<Longrightarrow> step opr s = (es, s') \<Longrightarrow> es = []"
begin

lemma run_mirrored:
  "listening s \<Longrightarrow> notify_run step oprs s = (es, s') \<Longrightarrow>
     view s' = fold absorb es (view s) \<and> all_effective absorb es (view s)"
proof (induction oprs arbitrary: s es)
  case Nil
  then show ?case by simp
next
  case (Cons opr oprs)
  obtain es1 s1 where one: "step opr s = (es1, s1)"
    by (cases "step opr s")
  obtain es2 where rest: "notify_run step oprs s1 = (es2, s')" and es: "es = es1 @ es2"
    using Cons.prems(2) one by (auto simp: Let_def split: prod.splits)
  have "listening s1"
    using step_listening [OF one] Cons.prems(1) by simp
  from Cons.IH [OF this rest] show ?case
    using step_mirrored [OF Cons.prems(1) one] step_effective [OF Cons.prems(1) one] es
    by simp
qed

lemma run_quiet:
  "\<not> listening s \<Longrightarrow> notify_run step oprs s = (es, s') \<Longrightarrow> es = []"
proof (induction oprs arbitrary: s es)
  case Nil
  then show ?case by simp
next
  case (Cons opr oprs)
  obtain es1 s1 where one: "step opr s = (es1, s1)"
    by (cases "step opr s")
  obtain es2 where rest: "notify_run step oprs s1 = (es2, s')" and es: "es = es1 @ es2"
    using Cons.prems(2) one by (auto simp: Let_def split: prod.splits)
  have "\<not> listening s1"
    using step_listening [OF one] Cons.prems(1) by simp
  from Cons.IH [OF this rest] show ?case
    using step_quiet [OF Cons.prems(1) one] es by simp
qed

end

section \<open>A source read piece by piece\<close>

text \<open>
  The reading side of a connection. A step answers a number and the bytes it stored;
  \<open>obtained\<close> is what the caller of a sequence of steps takes for data: of each buffer as many
  bytes as the number says.
\<close>

datatype source_op = Available | PeekByte | ReadInto nat

primrec source_run :: "('o \<Rightarrow> 's \<Rightarrow> (int \<times> bytes) \<times> 's) \<Rightarrow> 'o list \<Rightarrow> 's \<Rightarrow> (int \<times> bytes) list \<times> 's" where
  "source_run step [] s = ([], s)"
| "source_run step (opr # oprs) s =
     (let (out, s1) = step opr s; (outs, s2) = source_run step oprs s1 in (out # outs, s2))"

definition obtained :: "(int \<times> bytes) list \<Rightarrow> bytes" where
  "obtained outs = concat (map (\<lambda>(r, buf). take (nat r) buf) outs)"

lemma obtained_simps [simp]:
  "obtained [] = []"
  "obtained ((r, buf) # outs) = take (nat r) buf @ obtained outs"
  by (simp_all add: obtained_def)

lemma obtained_Cons: "obtained (out # outs) = obtained [out] @ obtained outs"
  by (simp add: obtained_def)

text \<open>
  \<open>usable\<close> operations in a \<open>valid\<close> state hand out the stream, unless their answer is not \<open>honest\<close>.
\<close>

locale byte_source =
  fixes stream :: "'s \<Rightarrow> bytes"
    and valid :: "'s \<Rightarrow> bool"
    and usable :: "'o \<Rightarrow> bool"
    and honest :: "int \<times> bytes \<Rightarrow> bool"
    and step :: "'o \<Rightarrow> 's \<Rightarrow> (int \<times> bytes) \<times> 's"
  assumes step_valid: "valid s \<Longrightarrow> usable opr \<Longrightarrow> step opr s = (out, s') \<Longrightarrow> valid s'"
    and step_delivers: "valid s \<Longrightarrow> usable opr \<Longrightarrow> step opr s = (out, s') \<Longrightarrow> honest out \<Longrightarrow>
      stream s = obtained [out] @ stream s'"
begin

lemma run_delivers:
  "source_run step oprs s = (outs, s') \<Longrightarrow> valid s \<Longrightarrow> list_all usable oprs \<Longrightarrow> list_all honest outs \<Longrightarrow>
     stream s = obtained outs @ stream s' \<and> valid s'"
proof (induction oprs arbitrary: s outs)
  case Nil
  then show ?case by simp
next
  case (Cons opr oprs)
  obtain out s1 where one: "step opr s = (out, s1)"
    by (cases "step opr s")
  obtain outs1 where rest: "source_run step oprs s1 = (outs1, s')" and outs: "outs = out # outs1"
    using Cons.prems(1) one by (auto simp: Let_def split: prod.splits)
  have "valid s1"
    using step_valid [OF Cons.prems(2) _ one] Cons.prems(3) by simp
  from Cons.IH [OF rest this] Cons.prems(3,4) outs
  show ?case
    using step_delivers [OF Cons.prems(2) _ one] by (simp add: obtained_Cons [of out outs1])
qed

end

section \<open>A sink that takes every byte\<close>

text \<open>
  \<open>put bs s\<close> writes a buffer and returns how many bytes were taken; this sink takes them all.
  \<open>puts\<close> writes several buffers and adds up the counts.
\<close>

primrec puts :: "(bytes \<Rightarrow> 's \<Rightarrow> nat \<times> 's) \<Rightarrow> bytes list \<Rightarrow> 's \<Rightarrow> nat \<times> 's" where
  "puts put [] s = (0, s)"
| "puts put (bs # bss) s =
     (let (n, s1) = put bs s; (m, s2) = puts put bss s1 in (n + m, s2))"

locale byte_sink =
  fixes taken :: "'s \<Rightarrow> bytes"
    and put :: "bytes \<Rightarrow> 's \<Rightarrow> nat \<times> 's"
  assumes put_count: "fst (put bs s) = length bs"
    and put_takes: "taken (snd (put bs s)) = taken s @ bs"
begin

lemma puts_take_all:
  "fst (puts put bss s) = length (concat bss)
     \<and> taken (snd (puts put bss s)) = taken s @ concat bss"
  by (induction bss arbitrary: s) (simp_all add: Let_def split_def put_count put_takes)

end

end
