(* ===== verification/SerialPort.thy ===== *)
theory SerialPort
  imports Interfaces
begin

text \<open>
  The virtual UART, \<open>native/hal/src/serial_port.cpp\<close>: two unbounded byte queues, the
  recorded line settings and two callbacks. Every function of the file holds \<open>g_mutex\<close>
  while it touches this state, so each is one atomic step; callbacks are copied under the
  lock and called after it is released, which the model shows as a list of calls returned
  beside the new state. A callback is known here by a token of type \<open>'cb\<close> only; what it
  does is the business of the component that registered it.
\<close>

section \<open>State and operations\<close>

record 'cb serial_port =
  g_input :: bytes
  g_rx_queue :: bytes
  g_data_ready_callback :: "'cb option"
  g_line_baud :: u64
  g_line_config :: u32
  g_line_config_callback :: "'cb option"

datatype 'cb serial_call =
    DataReadyCall 'cb
  | LineConfigCall 'cb u64 u32

definition serial_init :: "'cb serial_port" where
  "serial_init =
     \<lparr>g_input = [], g_rx_queue = [], g_data_ready_callback = None,
      g_line_baud = 0, g_line_config = 0, g_line_config_callback = None\<rparr>"

definition kPlentyOfRoom :: int where
  "kPlentyOfRoom = 4096"

text \<open>The loops that push \<open>data[0..len)\<close> one byte at a time.\<close>

primrec push_back_all :: "bytes \<Rightarrow> bytes \<Rightarrow> bytes" where
  "push_back_all [] q = q"
| "push_back_all (b # bs) q = push_back_all bs (q @ [b])"

lemma push_back_all_append [simp]: "push_back_all bs q = q @ bs"
  by (induction bs arbitrary: q) simp_all

definition set_data_ready_callback :: "'cb option \<Rightarrow> 'cb serial_port \<Rightarrow> 'cb serial_port" where
  "set_data_ready_callback cb s = s\<lparr>g_data_ready_callback := cb\<rparr>"

definition feed_input :: "bytes \<Rightarrow> 'cb serial_port \<Rightarrow> 'cb serial_port" where
  "feed_input bs s = s\<lparr>g_input := push_back_all bs (g_input s)\<rparr>"

definition serial_available :: "'cb serial_port \<Rightarrow> int" where
  "serial_available s = int_of_size (length (g_input s))"

definition serial_read :: "'cb serial_port \<Rightarrow> int \<times> 'cb serial_port" where
  "serial_read s =
     (case g_input s of
        [] \<Rightarrow> (- 1, s)
      | b # rest \<Rightarrow> (uint b, s\<lparr>g_input := rest\<rparr>))"

definition serial_peek :: "'cb serial_port \<Rightarrow> int" where
  "serial_peek s = (case g_input s of [] \<Rightarrow> - 1 | b # rest \<Rightarrow> uint b)"

definition serial_write ::
  "bytes \<Rightarrow> 'cb serial_port \<Rightarrow> nat \<times> 'cb serial_call list \<times> 'cb serial_port" where
  "serial_write bs s =
     (let s' = s\<lparr>g_rx_queue := push_back_all bs (g_rx_queue s)\<rparr>;
          cb = g_data_ready_callback s;
          calls = (case cb of
                     Some f \<Rightarrow> if 0 < length bs then [DataReadyCall f] else []
                   | None \<Rightarrow> [])
      in (length bs, calls, s'))"

definition rx_available :: "'cb serial_port \<Rightarrow> bool" where
  "rx_available s \<longleftrightarrow> g_rx_queue s \<noteq> []"

definition rx_read :: "'cb serial_port \<Rightarrow> int \<times> 'cb serial_port" where
  "rx_read s =
     (case g_rx_queue s of
        [] \<Rightarrow> (- 1, s)
      | b # rest \<Rightarrow> (uint b, s\<lparr>g_rx_queue := rest\<rparr>))"

definition available_for_write :: "'cb serial_port \<Rightarrow> int" where
  "available_for_write s = kPlentyOfRoom"

definition set_line_config ::
  "u64 \<Rightarrow> u32 \<Rightarrow> 'cb serial_port \<Rightarrow> 'cb serial_call list \<times> 'cb serial_port" where
  "set_line_config baud config s =
     (if g_line_baud s = baud \<and> g_line_config s = config then ([], s)
      else
        (case g_line_config_callback s of
           Some f \<Rightarrow> [LineConfigCall f baud config]
         | None \<Rightarrow> [],
         s\<lparr>g_line_baud := baud, g_line_config := config\<rparr>))"

definition set_line_baud ::
  "u64 \<Rightarrow> 'cb serial_port \<Rightarrow> 'cb serial_call list \<times> 'cb serial_port" where
  "set_line_baud baud s =
     (if g_line_baud s = baud then ([], s)
      else
        (case g_line_config_callback s of
           Some f \<Rightarrow> [LineConfigCall f baud (g_line_config s)]
         | None \<Rightarrow> [],
         s\<lparr>g_line_baud := baud\<rparr>))"

text \<open>
  The out parameters are optional pointers: \<open>None\<close> is the null pointer, \<open>Some x\<close> a
  location that held \<open>x\<close>; the result is what the two locations hold afterwards.
\<close>

definition get_line_config ::
  "u64 option \<Rightarrow> u32 option \<Rightarrow> 'cb serial_port \<Rightarrow> u64 option \<times> u32 option" where
  "get_line_config baud config s =
     (map_option (\<lambda>_. g_line_baud s) baud, map_option (\<lambda>_. g_line_config s) config)"

definition set_line_config_callback :: "'cb option \<Rightarrow> 'cb serial_port \<Rightarrow> 'cb serial_port" where
  "set_line_config_callback cb s = s\<lparr>g_line_config_callback := cb\<rparr>"

definition serial_reset_for_testing :: "'cb serial_port \<Rightarrow> 'cb serial_port" where
  "serial_reset_for_testing s =
     s\<lparr>g_input := [], g_rx_queue := [], g_data_ready_callback := None,
       g_line_baud := 0, g_line_config := 0, g_line_config_callback := None\<rparr>"

text \<open>The producer side of each direction, as a state update.\<close>

definition serial_write_state :: "bytes \<Rightarrow> 'cb serial_port \<Rightarrow> 'cb serial_port" where
  "serial_write_state bs s = snd (snd (serial_write bs s))"

section \<open>Both directions are FIFOs\<close>

interpretation rxq: byte_queue g_rx_queue serial_write_state rx_read
proof
  fix xs and s :: "'cb serial_port"
  show "g_rx_queue (serial_write_state xs s) = g_rx_queue s @ xs"
    by (simp add: serial_write_state_def serial_write_def Let_def)
  show "fst (rx_read s) = head_or_neg1 (g_rx_queue s)"
    by (simp add: rx_read_def split: list.split)
  show "g_rx_queue (snd (rx_read s)) = tl (g_rx_queue s)"
    by (simp add: rx_read_def split: list.split)
qed

interpretation inq: peek_queue g_input feed_input serial_read serial_peek serial_available
proof
  fix xs and s :: "'cb serial_port"
  show "g_input (feed_input xs s) = g_input s @ xs"
    by (simp add: feed_input_def)
  show "fst (serial_read s) = head_or_neg1 (g_input s)"
    by (simp add: serial_read_def split: list.split)
  show "g_input (snd (serial_read s)) = tl (g_input s)"
    by (simp add: serial_read_def split: list.split)
  show "serial_peek s = head_or_neg1 (g_input s)"
    by (simp add: serial_peek_def split: list.split)
  show "serial_available s = int_of_size (length (g_input s))"
    by (simp add: serial_available_def)
qed

section \<open>Frame facts\<close>

lemma rx_read_frame [simp]:
  "g_input (snd (rx_read s)) = g_input s"
  "g_data_ready_callback (snd (rx_read s)) = g_data_ready_callback s"
  "g_line_baud (snd (rx_read s)) = g_line_baud s"
  "g_line_config (snd (rx_read s)) = g_line_config s"
  "g_line_config_callback (snd (rx_read s)) = g_line_config_callback s"
  by (simp_all add: rx_read_def split: list.split)

lemma serial_read_frame [simp]:
  "g_rx_queue (snd (serial_read s)) = g_rx_queue s"
  "g_data_ready_callback (snd (serial_read s)) = g_data_ready_callback s"
  "g_line_baud (snd (serial_read s)) = g_line_baud s"
  "g_line_config (snd (serial_read s)) = g_line_config s"
  "g_line_config_callback (snd (serial_read s)) = g_line_config_callback s"
  by (simp_all add: serial_read_def split: list.split)

lemma feed_input_simps [simp]:
  "g_input (feed_input bs s) = g_input s @ bs"
  "g_rx_queue (feed_input bs s) = g_rx_queue s"
  "g_data_ready_callback (feed_input bs s) = g_data_ready_callback s"
  "g_line_baud (feed_input bs s) = g_line_baud s"
  "g_line_config (feed_input bs s) = g_line_config s"
  "g_line_config_callback (feed_input bs s) = g_line_config_callback s"
  by (simp_all add: feed_input_def)

lemma serial_write_simps [simp]:
  "fst (serial_write bs s) = length bs"
  "g_input (snd (snd (serial_write bs s))) = g_input s"
  "g_rx_queue (snd (snd (serial_write bs s))) = g_rx_queue s @ bs"
  by (simp_all add: serial_write_def Let_def)

lemma rx_available_iff: "rx_available s \<longleftrightarrow> fst (rx_read s) \<noteq> - 1"
  by (simp add: rx_available_def rxq.poll_value)

section \<open>Line settings report their changes\<close>

text \<open>
  \<open>HardwareSerialCompat::begin\<close> (arduino/HardwareSerial.h) has three overloads: the one with
  only a baud rate calls \<open>set_line_baud\<close>, the two with a configuration call
  \<open>set_line_config\<close> and drop the pins.
\<close>

datatype begin_call =
    BeginBaud u64
  | BeginConfig u64 u32
  | BeginPins u64 u32 int int

primrec hw_begin :: "begin_call \<Rightarrow> 'cb serial_port \<Rightarrow> 'cb serial_call list \<times> 'cb serial_port" where
  "hw_begin (BeginBaud baud) s = set_line_baud baud s"
| "hw_begin (BeginConfig baud config) s = set_line_config baud config s"
| "hw_begin (BeginPins baud config rx tx) s = set_line_config baud config s"

text \<open>What a listener of the line settings learns from a call.\<close>

definition absorb_line :: "'cb serial_call \<Rightarrow> u64 \<times> u32 \<Rightarrow> u64 \<times> u32" where
  "absorb_line e v = (case e of LineConfigCall f baud config \<Rightarrow> (baud, config) | DataReadyCall f \<Rightarrow> v)"

lemma hw_begin_line:
  "(g_line_baud (snd (hw_begin b s)), g_line_config (snd (hw_begin b s))) =
     (case b of
        BeginBaud baud \<Rightarrow> (baud, g_line_config s)
      | BeginConfig baud config \<Rightarrow> (baud, config)
      | BeginPins baud config rx tx \<Rightarrow> (baud, config))"
  by (cases b) (simp_all add: set_line_baud_def set_line_config_def)

interpretation line: change_notifier
  "\<lambda>s. (g_line_baud s, g_line_config s)" "\<lambda>s. g_line_config_callback s \<noteq> None" hw_begin absorb_line
proof
  fix s s' :: "'cb serial_port" and b es
  assume step: "hw_begin b s = (es, s')"
  show "(g_line_config_callback s' \<noteq> None) = (g_line_config_callback s \<noteq> None)"
    using step by (cases b) (auto simp: set_line_baud_def set_line_config_def split: if_splits)
  show "es = []" if "\<not> g_line_config_callback s \<noteq> None"
    using that step by (cases b) (auto simp: set_line_baud_def set_line_config_def split: if_splits)
  assume on: "g_line_config_callback s \<noteq> None"
  show "(g_line_baud s', g_line_config s') = fold absorb_line es (g_line_baud s, g_line_config s)"
    using step on
    by (cases b) (auto simp: set_line_baud_def set_line_config_def absorb_line_def split: if_splits)
  show "all_effective absorb_line es (g_line_baud s, g_line_config s)"
    using step on
    by (cases b) (auto simp: set_line_baud_def set_line_config_def absorb_line_def split: if_splits)
qed

section \<open>Properties\<close>

text \<open>
  The modem-to-host queue loses nothing. Whatever way the firmware's bursts of
  \<open>write()\<close> and the host's single \<open>rx_read()\<close> polls interleave, the bytes the polls
  returned followed by those still queued are exactly the bytes queued at the start
  followed by the bytes written, in order; a poll of an empty queue returns \<open>-1\<close>.
\<close>

theorem rx_no_loss_in_order:
  assumes "q_run serial_write_state rx_read oprs s = (vs, s')"
  shows "delivered vs @ map uint (g_rx_queue s') = map uint (g_rx_queue s @ pushed oprs)"
  using assms by (rule rxq.no_loss_in_order)

theorem rx_no_loss_in_order_witness:
  "delivered [65, 66, - 1] @ map uint (g_rx_queue (serial_init :: nat serial_port)) = [65, 66]"
proof -
  have run: "q_run serial_write_state rx_read [Push [65, 66], Poll, Poll, Poll]
               (serial_init :: nat serial_port) = ([65, 66, - 1], serial_init)"
    by (simp add: serial_write_state_def serial_write_def rx_read_def serial_init_def Let_def)
  show ?thesis
    using rx_no_loss_in_order [OF run] by (simp add: serial_init_def)
qed

text \<open>
  C30: a listener registered for line settings never misses a change and never hears a
  redundant one. Over any sequence of \<open>HardwareSerialCompat::begin\<close> calls, in any overload,
  a listener who overwrites his copy of (baud, config) with what each call reports ends with
  exactly the recorded settings, and every call he received changed his copy.
\<close>

theorem line_config_listener_mirrors:
  assumes "g_line_config_callback s \<noteq> None"
    and "notify_run hw_begin begins s = (calls, s')"
  shows "(g_line_baud s', g_line_config s') = fold absorb_line calls (g_line_baud s, g_line_config s)
    \<and> all_effective absorb_line calls (g_line_baud s, g_line_config s)"
  using assms by (rule line.run_mirrored)

theorem line_config_listener_mirrors_witness:
  "fold absorb_line [LineConfigCall (7::nat) 115200 0x800001c, LineConfigCall 7 1200 0x800001c]
     (0, 0) = (1200, 0x800001c)"
proof -
  let ?s = "set_line_config_callback (Some 7) (serial_init :: nat serial_port)"
  have on: "g_line_config_callback ?s \<noteq> None"
    by (simp add: set_line_config_callback_def)
  have run: "notify_run hw_begin
      [BeginConfig 115200 0x800001c, BeginPins 115200 0x800001c 1 3, BeginBaud 1200] ?s
    = ([LineConfigCall 7 115200 0x800001c, LineConfigCall 7 1200 0x800001c],
       ?s\<lparr>g_line_baud := 1200, g_line_config := 0x800001c\<rparr>)"
    by (simp add: set_line_config_callback_def serial_init_def set_line_config_def
        set_line_baud_def Let_def)
  show ?thesis
    using line_config_listener_mirrors [OF on run]
    by (simp add: serial_init_def set_line_config_callback_def)
qed

end
