(* ===== verification/Pins.thy ===== *)
theory Pins
  imports Interfaces
begin

text \<open>
  The virtual GPIO of \<open>native/hal/src/pins.cpp\<close>: two maps from pin number to value and one
  signal callback, each function one atomic step under \<open>g_mutex\<close>. \<open>digital_write\<close> copies
  the callback under the lock and calls it afterwards; the model returns the calls. The
  Arduino wrappers of \<open>arduino/Arduino.h\<close>, which narrow pin and value to \<open>uint8_t\<close>, stand
  at the end.
\<close>

section \<open>State and operations\<close>

record 'cb pins =
  g_mode :: "int \<rightharpoonup> int"
  g_value :: "int \<rightharpoonup> int"
  g_callback :: "'cb option"

datatype 'cb signal_call = SignalCall 'cb int int

definition pins_init :: "'cb pins" where
  "pins_init = \<lparr>g_mode = Map.empty, g_value = Map.empty, g_callback = None\<rparr>"

definition kPinDsr :: int where "kPinDsr = 5"
definition kPinDtr :: int where "kPinDtr = 6"
definition kPinRi :: int where "kPinRi = 7"
definition kPinRts :: int where "kPinRts = 8"
definition kPinCts :: int where "kPinCts = 9"
definition kPinDcd :: int where "kPinDcd = 10"
definition kCtsActive :: int where "kCtsActive = 0"
definition kCtsInactive :: int where "kCtsInactive = 1"

definition pin_mode :: "int \<Rightarrow> int \<Rightarrow> 'cb pins \<Rightarrow> 'cb pins" where
  "pin_mode pin mode s = s\<lparr>g_mode := (g_mode s)(pin \<mapsto> mode)\<rparr>"

definition digital_write :: "int \<Rightarrow> int \<Rightarrow> 'cb pins \<Rightarrow> 'cb signal_call list \<times> 'cb pins" where
  "digital_write pin val s =
     (let changed = (case g_value s pin of None \<Rightarrow> True | Some old \<Rightarrow> old \<noteq> val);
          s' = s\<lparr>g_value := (g_value s)(pin \<mapsto> val)\<rparr>;
          callback_copy = g_callback s
      in (case callback_copy of
            Some f \<Rightarrow> if changed then [SignalCall f pin val] else []
          | None \<Rightarrow> [], s'))"

definition digital_read :: "int \<Rightarrow> 'cb pins \<Rightarrow> int" where
  "digital_read pin s = (case g_value s pin of None \<Rightarrow> 0 | Some v \<Rightarrow> v)"

definition set_signal_callback :: "'cb option \<Rightarrow> 'cb pins \<Rightarrow> 'cb pins" where
  "set_signal_callback cb s = s\<lparr>g_callback := cb\<rparr>"

definition pins_reset_for_testing :: "'cb pins \<Rightarrow> 'cb pins" where
  "pins_reset_for_testing s = s\<lparr>g_mode := Map.empty, g_value := Map.empty, g_callback := None\<rparr>"

text \<open>The Arduino functions take \<open>uint8_t\<close> arguments, which promote back to \<open>int\<close>.\<close>

definition pinMode :: "u8 \<Rightarrow> u8 \<Rightarrow> 'cb pins \<Rightarrow> 'cb pins" where
  "pinMode pin mode s = pin_mode (uint pin) (uint mode) s"

definition digitalWrite :: "u8 \<Rightarrow> u8 \<Rightarrow> 'cb pins \<Rightarrow> 'cb signal_call list \<times> 'cb pins" where
  "digitalWrite pin val s = digital_write (uint pin) (uint val) s"

definition digitalRead :: "u8 \<Rightarrow> 'cb pins \<Rightarrow> int" where
  "digitalRead pin s = digital_read (uint pin) s"

section \<open>The listener's copy of the pin table\<close>

definition absorb_signal :: "'cb signal_call \<Rightarrow> (int \<rightharpoonup> int) \<Rightarrow> (int \<rightharpoonup> int)" where
  "absorb_signal e m = (case e of SignalCall f pin val \<Rightarrow> m(pin \<mapsto> val))"

text \<open>One write, its pin and value as a pair, as a step of the notifier.\<close>

definition write_pin :: "int \<times> int \<Rightarrow> 'cb pins \<Rightarrow> 'cb signal_call list \<times> 'cb pins" where
  "write_pin pv s = digital_write (fst pv) (snd pv) s"

lemma digital_write_simps [simp]:
  "g_value (snd (digital_write pin val s)) = (g_value s)(pin \<mapsto> val)"
  "g_callback (snd (digital_write pin val s)) = g_callback s"
  "g_mode (snd (digital_write pin val s)) = g_mode s"
  by (simp_all add: digital_write_def Let_def)

lemma digital_write_calls:
  "fst (digital_write pin val s) =
     (case g_callback s of
        Some f \<Rightarrow> if g_value s pin = Some val then [] else [SignalCall f pin val]
      | None \<Rightarrow> [])"
  by (simp add: digital_write_def Let_def split: option.split)

interpretation pins: change_notifier g_value "\<lambda>s. g_callback s \<noteq> None" write_pin absorb_signal
proof
  fix s s' :: "'cb pins" and pv es
  assume "write_pin pv s = (es, s')"
  then have es: "es = fst (digital_write (fst pv) (snd pv) s)"
    and s': "s' = snd (digital_write (fst pv) (snd pv) s)"
    by (simp_all add: write_pin_def)
  show "(g_callback s' \<noteq> None) = (g_callback s \<noteq> None)"
    by (simp add: s')
  show "es = []" if "\<not> g_callback s \<noteq> None"
    using that by (simp add: es digital_write_calls)
  assume on: "g_callback s \<noteq> None"
  then show "g_value s' = fold absorb_signal es (g_value s)"
    by (auto simp: es s' digital_write_calls absorb_signal_def)
  show "all_effective absorb_signal es (g_value s)"
    using on by (auto simp: es digital_write_calls absorb_signal_def map_upd_neq)
qed

section \<open>Properties\<close>

text \<open>
  C31: a host application that listens for signals always knows the pins. Over any sequence of
  \<open>digital_write\<close> calls, replaying the received (pin, value) signals onto a copy of the pin
  table gives the HAL's own table, and no signal is redundant: each one changes the copy.
\<close>

theorem signals_mirror_pins:
  assumes "g_callback s \<noteq> None"
    and "notify_run write_pin writes s = (signals, s')"
  shows "g_value s' = fold absorb_signal signals (g_value s)
    \<and> all_effective absorb_signal signals (g_value s)"
  using assms by (rule pins.run_mirrored)

theorem signals_mirror_pins_witness:
  "fold absorb_signal [SignalCall (1::nat) kPinDcd 1, SignalCall 1 kPinDcd 0] Map.empty
     = [kPinDcd \<mapsto> 0]"
proof -
  let ?s = "set_signal_callback (Some 1) (pins_init :: nat pins)"
  let ?t = "?s\<lparr>g_value := [kPinDcd \<mapsto> 1, kPinDcd \<mapsto> 0]\<rparr>"
  have on: "g_callback ?s \<noteq> None"
    by (simp add: set_signal_callback_def)
  have run: "notify_run write_pin [(kPinDcd, 1), (kPinDcd, 1), (kPinDcd, 0)] ?s =
      ([SignalCall 1 kPinDcd 1, SignalCall 1 kPinDcd 0], ?t)"
    by (simp add: write_pin_def digital_write_def set_signal_callback_def pins_init_def Let_def)
  show ?thesis
    using signals_mirror_pins [OF on run, THEN conjunct1, symmetric]
    by (simp add: set_signal_callback_def pins_init_def)
qed

end
