(* ===== verification/LogSink.thy ===== *)
theory LogSink
  imports Prelude
begin

text \<open>
  The debug log of \<open>native/hal/src/log.cpp\<close>: one optional sink, replaced under \<open>g_mutex\<close>,
  called outside it. \<open>vwritef\<close> measures the text with a first \<open>vsnprintf\<close> call and formats
  it into a buffer of exactly that size with a second one.
\<close>

record 'cb log_state =
  g_sink :: "'cb option"

datatype 'cb log_call = LogCall 'cb string

definition log_init :: "'cb log_state" where
  "log_init = \<lparr>g_sink = None\<rparr>"

definition set_sink :: "'cb option \<Rightarrow> 'cb log_state \<Rightarrow> 'cb log_state" where
  "set_sink sink s = s\<lparr>g_sink := sink\<rparr>"

definition log_write :: "string \<Rightarrow> 'cb log_state \<Rightarrow> 'cb log_call list" where
  "log_write message s =
     (case g_sink s of Some f \<Rightarrow> [LogCall f message] | None \<Rightarrow> [])"

definition vwritef :: "string option \<Rightarrow> 'cb log_state \<Rightarrow> 'cb log_call list" where
  "vwritef formatted s =
     (let needed = vsnprintf_ret formatted
      in if needed < 0 then []
         else
           let buf = vsnprintf_buf (nat needed + 1) formatted
           in log_write (take (nat needed) buf) s)"

text \<open>\<open>writef\<close> and \<open>zimodem_hal_debug_printf\<close> only wrap the argument list.\<close>

definition log_writef :: "string option \<Rightarrow> 'cb log_state \<Rightarrow> 'cb log_call list" where
  "log_writef formatted s = vwritef formatted s"

definition zimodem_hal_debug_printf :: "string option \<Rightarrow> 'cb log_state \<Rightarrow> 'cb log_call list" where
  "zimodem_hal_debug_printf formatted s = vwritef formatted s"

text \<open>
  A debug line reaches the sink whole, whatever its length and its content (NULs
  included): \<open>debugPrintf\<close> delivers exactly the formatted text in one call, and delivers
  nothing when formatting fails, when the text is too long for an \<open>int\<close> or when no sink is
  set.
\<close>

theorem debug_printf_untruncated:
  "zimodem_hal_debug_printf formatted s =
     (case (formatted, g_sink s) of
        (Some t, Some f) \<Rightarrow> if length t < 2147483648 then [LogCall f t] else []
      | _ \<Rightarrow> [])"
  by (simp add: zimodem_hal_debug_printf_def vwritef_def vsnprintf_ret_def vsnprintf_buf_def
      log_write_def split: option.split)

end
