(* ===== verification/SerialConfig.thy ===== *)
theory SerialConfig
  imports Prelude
begin

unbundle bit_operations_syntax

text \<open>
  The decoder of the ESP32 \<open>SerialConfig\<close> bitmap in
  \<open>native/wrapper/src/zimodem_host.cpp\<close>, with the constants of the public header
  \<open>zimodem_host.h\<close> it reports parities by, and the \<open>SERIAL_8N1\<close> constant of
  \<open>arduino/Arduino.h\<close>.
\<close>

section \<open>The decoder\<close>

definition kDataBitsMask :: u32 where "kDataBitsMask = 0x0C"
definition kParityMask :: u32 where "kParityMask = 0x03"
definition kParityEven :: u32 where "kParityEven = 0x02"
definition kParityOdd :: u32 where "kParityOdd = 0x03"
definition kStopMask :: u32 where "kStopMask = 0x30"
definition kStop15 :: u32 where "kStop15 = 0x20"
definition kStop2 :: u32 where "kStop2 = 0x30"

definition ZIMODEM_PARITY_NONE :: int where "ZIMODEM_PARITY_NONE = 0"
definition ZIMODEM_PARITY_ODD :: int where "ZIMODEM_PARITY_ODD = 1"
definition ZIMODEM_PARITY_EVEN :: int where "ZIMODEM_PARITY_EVEN = 2"

definition SERIAL_8N1 :: u32 where "SERIAL_8N1 = 0x800001c"

text \<open>\<open>static_cast<int>\<close> of a \<open>uint32_t\<close>.\<close>

definition decode_data_bits :: "u32 \<Rightarrow> int" where
  "decode_data_bits config = 5 + sint (drop_bit 2 (config AND kDataBitsMask))"

definition decode_parity :: "u32 \<Rightarrow> int" where
  "decode_parity config =
     (let p = config AND kParityMask in
      if p = kParityOdd then ZIMODEM_PARITY_ODD
      else if p = kParityEven then ZIMODEM_PARITY_EVEN
      else ZIMODEM_PARITY_NONE)"

definition decode_stop_bits_x10 :: "u32 \<Rightarrow> int" where
  "decode_stop_bits_x10 config =
     (let p = config AND kStopMask in
      if p = kStop2 then 20 else if p = kStop15 then 15 else 10)"

text \<open>
  Each out parameter is an optional pointer: \<open>None\<close> is null, \<open>Some x\<close> a location that
  held \<open>x\<close>.
\<close>

definition decode_serial_config ::
  "u32 \<Rightarrow> int option \<Rightarrow> int option \<Rightarrow> int option \<Rightarrow> int option \<times> int option \<times> int option" where
  "decode_serial_config config data_bits parity stop_bits_x10 =
     (map_option (\<lambda>_. decode_data_bits config) data_bits,
      map_option (\<lambda>_. decode_parity config) parity,
      map_option (\<lambda>_. decode_stop_bits_x10 config) stop_bits_x10)"

section \<open>The encoding it inverts\<close>

text \<open>
  The bit layout the comments of the decoder give: bits 0 and 1 the parity (00 none, 10
  even, 11 odd), bits 2 and 3 the data bits less five, bits 4 and 5 the stop bits (01 one, 10
  one and a half, 11 two), any other bits ignored.
\<close>

datatype parity = NoParity | OddParity | EvenParity
datatype stop_bits = Stop1 | Stop15 | Stop2

primrec parity_bits :: "parity \<Rightarrow> u32" where
  "parity_bits NoParity = 0"
| "parity_bits OddParity = 3"
| "parity_bits EvenParity = 2"

primrec stop_code :: "stop_bits \<Rightarrow> u32" where
  "stop_code Stop1 = 1"
| "stop_code Stop15 = 2"
| "stop_code Stop2 = 3"

primrec parity_value :: "parity \<Rightarrow> int" where
  "parity_value NoParity = 0"
| "parity_value OddParity = 1"
| "parity_value EvenParity = 2"

primrec stop_x10 :: "stop_bits \<Rightarrow> int" where
  "stop_x10 Stop1 = 10"
| "stop_x10 Stop15 = 15"
| "stop_x10 Stop2 = 20"

definition encode_line :: "u32 \<Rightarrow> u32 \<Rightarrow> parity \<Rightarrow> stop_bits \<Rightarrow> u32" where
  "encode_line high db p st =
     push_bit 6 high OR push_bit 4 (stop_code st) OR push_bit 2 db OR parity_bits p"

section \<open>Lemmas\<close>

lemma and_low6: "take_bit 6 m = m \<Longrightarrow> (w :: u32) AND m = take_bit 6 w AND m"
  by (metis take_bit_eq_mask and.assoc and.commute)

lemma take_bit_encode:
  "take_bit 6 (encode_line high db p st) =
     take_bit 6 (push_bit 4 (stop_code st) OR push_bit 2 db OR parity_bits p)"
  by (simp add: encode_line_def take_bit_push_bit)

lemma data_code_cases: "(db :: u32) < 4 \<Longrightarrow> db = 0 \<or> db = 1 \<or> db = 2 \<or> db = 3"
  by (simp add: word_less_nat_alt word_unat_eq_iff) linarith

lemma encode_line_fields:
  assumes "db < 4"
  shows "encode_line high db p st AND kDataBitsMask = push_bit 2 db"
    and "encode_line high db p st AND kParityMask = parity_bits p"
    and "encode_line high db p st AND kStopMask = push_bit 4 (stop_code st)"
proof -
  let ?low = "take_bit 6 (push_bit 4 (stop_code st) OR push_bit 2 db OR parity_bits p)"
  have low: "encode_line high db p st AND m = ?low AND m" if "take_bit 6 m = m" for m
    by (subst and_low6 [OF that]) (simp only: take_bit_encode)
  have "?low AND kDataBitsMask = push_bit 2 db \<and> ?low AND kParityMask = parity_bits p
      \<and> ?low AND kStopMask = push_bit 4 (stop_code st)"
    using data_code_cases [OF assms]
    by (cases p; cases st) (auto simp: kDataBitsMask_def kParityMask_def kStopMask_def)
  moreover have "take_bit 6 kDataBitsMask = kDataBitsMask" "take_bit 6 kParityMask = kParityMask"
      "take_bit 6 kStopMask = kStopMask"
    by (simp_all add: kDataBitsMask_def kParityMask_def kStopMask_def)
  ultimately show "encode_line high db p st AND kDataBitsMask = push_bit 2 db"
    and "encode_line high db p st AND kParityMask = parity_bits p"
    and "encode_line high db p st AND kStopMask = push_bit 4 (stop_code st)"
    using low by simp_all
qed

lemma masked_data_code: "drop_bit 2 ((w :: u32) AND 0x0C) < 4"
proof -
  have "w AND 0x0C \<le> 0x0C"
    by (rule word_and_le1)
  then have "unat (w AND 0x0C) \<le> 12"
    by (simp add: word_le_nat_alt)
  then have "unat (drop_bit 2 (w AND 0x0C)) < 4"
    by (simp add: drop_bit_eq_div unat_div_distrib)
  then show ?thesis
    by (simp add: word_less_nat_alt)
qed

section \<open>Properties\<close>

text \<open>
  C32: the decoder inverts the documented bit layout. For every number of data bits, every
  parity and every number of stop bits, and whatever the remaining bits of the configuration
  word hold, \<open>decode_serial_config\<close> reports exactly the settings the word encodes.
\<close>

theorem decode_inverts_encoding:
  assumes "db < 4"
  shows "decode_serial_config (encode_line high db p st) (Some a) (Some b) (Some c) =
           (Some (5 + uint db), Some (parity_value p), Some (stop_x10 st))"
proof -
  have "decode_data_bits (encode_line high db p st) = 5 + uint db"
    using data_code_cases [OF assms]
    by (auto simp: decode_data_bits_def encode_line_fields [OF assms])
  moreover have "decode_parity (encode_line high db p st) = parity_value p"
    by (cases p) (simp_all add: decode_parity_def encode_line_fields [OF assms] Let_def
        kParityOdd_def kParityEven_def ZIMODEM_PARITY_ODD_def ZIMODEM_PARITY_EVEN_def
        ZIMODEM_PARITY_NONE_def)
  moreover have "decode_stop_bits_x10 (encode_line high db p st) = stop_x10 st"
    by (cases st) (simp_all add: decode_stop_bits_x10_def encode_line_fields [OF assms] Let_def
        kStop2_def kStop15_def)
  ultimately show ?thesis
    by (simp add: decode_serial_config_def)
qed

theorem decode_inverts_encoding_witness:
  "encode_line 0x200000 3 NoParity Stop1 = SERIAL_8N1
    \<and> decode_serial_config SERIAL_8N1 (Some 0) (Some 0) (Some 0) = (Some 8, Some 0, Some 10)"
proof -
  have e: "encode_line 0x200000 3 NoParity Stop1 = SERIAL_8N1"
    by (simp add: encode_line_def SERIAL_8N1_def)
  show ?thesis
    using decode_inverts_encoding [of 3 "0x200000" NoParity Stop1 0 0 0] e by simp
qed

text \<open>
  Every 32-bit configuration word, meaningful or not, decodes to a line a UART can be set
  to: 5 to 8 data bits, one of the three documented parities, and 10, 15 or 20 tenths of a stop
  bit; null out parameters stay untouched.
\<close>

theorem decode_always_legal:
  "\<exists>d p st. decode_serial_config config (Some a) (Some b) (Some c) = (Some d, Some p, Some st)
     \<and> d \<in> {5, 6, 7, 8} \<and> p \<in> {ZIMODEM_PARITY_NONE, ZIMODEM_PARITY_ODD, ZIMODEM_PARITY_EVEN}
     \<and> st \<in> {10, 15, 20}
     \<and> decode_serial_config config None None None = (None, None, None)"
proof -
  have "decode_data_bits config \<in> {5, 6, 7, 8}"
    using data_code_cases [OF masked_data_code [of config]]
    by (auto simp: decode_data_bits_def kDataBitsMask_def)
  then show ?thesis
    by (simp add: decode_serial_config_def decode_parity_def decode_stop_bits_x10_def Let_def)
qed

end
