(* ===== verification/WString.thy ===== *)
theory WString
  imports Prelude "HOL-Library.Sublist"
begin

text \<open>
  The Arduino \<open>String\<close> class of \<open>arduino/WString.h\<close>, a wrapper of one \<open>std::string\<close>. The
  searches of \<open>std::string\<close> are modelled as functions that return \<open>None\<close> for \<open>npos\<close>;
  the methods follow. Indices are \<open>unsigned int\<close> values, taken as \<open>nat\<close> (32 bits wide where a
  cast narrows); \<open>tolower\<close> and \<open>toupper\<close> are those of the "C" locale. \<open>operator+\<close> makes the
  type an instance of \<open>monoid_add\<close>.
\<close>

section \<open>Searching in \<open>std::string\<close>\<close>

fun find_from :: "string \<Rightarrow> string \<Rightarrow> nat option" where
  "find_from pat s =
     (if prefix pat s then Some 0
      else case s of [] \<Rightarrow> None | c # t \<Rightarrow> map_option Suc (find_from pat t))"

declare find_from.simps [simp del]

definition std_find :: "string \<Rightarrow> string \<Rightarrow> nat \<Rightarrow> nat option" where
  "std_find s pat pos =
     (if pos \<le> length s then map_option (\<lambda>i. pos + i) (find_from pat (drop pos s)) else None)"

fun rfind_in :: "string \<Rightarrow> string \<Rightarrow> nat option" where
  "rfind_in pat s =
     (case s of
        [] \<Rightarrow> if pat = [] then Some 0 else None
      | c # t \<Rightarrow>
          (case rfind_in pat t of
             Some i \<Rightarrow> Some (Suc i)
           | None \<Rightarrow> if prefix pat s then Some 0 else None))"

declare rfind_in.simps [simp del]

definition std_rfind :: "string \<Rightarrow> string \<Rightarrow> nat option" where
  "std_rfind s pat = rfind_in pat s"

text \<open>\<open>occurs_at pat s i\<close>: the characters of \<open>s\<close> from index \<open>i\<close> on begin with \<open>pat\<close>.\<close>

definition occurs_at :: "string \<Rightarrow> string \<Rightarrow> nat \<Rightarrow> bool" where
  "occurs_at pat s i \<longleftrightarrow> i \<le> length s \<and> prefix pat (drop i s)"

lemma occurs_at_bound: "occurs_at pat s i \<Longrightarrow> i + length pat \<le> length s"
  by (auto simp: occurs_at_def dest: prefix_length_le)

lemma find_from_Some:
  "find_from pat s = Some i \<Longrightarrow> occurs_at pat s i \<and> (\<forall>j<i. \<not> occurs_at pat s j)"
proof (induction s arbitrary: i)
  case Nil
  then show ?case
    by (auto simp: occurs_at_def find_from.simps split: if_splits)
next
  case (Cons c s)
  show ?case
  proof (cases "prefix pat (c # s)")
    case True
    with Cons.prems show ?thesis
      by (simp add: find_from.simps [of pat "c # s"] occurs_at_def)
  next
    case False
    with Cons.prems obtain k where k: "find_from pat s = Some k" "i = Suc k"
      by (auto simp: find_from.simps [of pat "c # s"])
    show ?thesis
      using Cons.IH [OF k(1)] k(2) False by (auto simp: occurs_at_def less_Suc_eq_0_disj)
  qed
qed

lemma find_from_None: "find_from pat s = None \<Longrightarrow> \<not> occurs_at pat s i"
proof (induction s arbitrary: i)
  case Nil
  then show ?case
    by (auto simp: occurs_at_def find_from.simps split: if_splits)
next
  case (Cons c s)
  then show ?case
    by (cases i) (auto simp: occurs_at_def find_from.simps [of pat "c # s"] split: if_splits)
qed

lemma std_find_Some:
  "std_find s pat pos = Some i \<Longrightarrow>
     pos \<le> i \<and> occurs_at pat s i \<and> (\<forall>j. pos \<le> j \<and> j < i \<longrightarrow> \<not> occurs_at pat s j)"
proof -
  assume found: "std_find s pat pos = Some i"
  then obtain k where k: "pos \<le> length s" "find_from pat (drop pos s) = Some k" "i = pos + k"
    by (auto simp: std_find_def split: if_splits)
  have first: "\<not> occurs_at pat (drop pos s) j" if "j < k" for j
    using find_from_Some [OF k(2)] that by blast
  have "\<not> occurs_at pat s j" if "pos \<le> j" "j < i" for j
    using first [of "j - pos"] that k by (auto simp: occurs_at_def)
  moreover have "occurs_at pat s i"
    using find_from_Some [OF k(2)] k by (auto simp: occurs_at_def add.commute)
  ultimately show ?thesis
    using k by simp
qed

lemma std_find_None: "std_find s pat pos = None \<Longrightarrow> pos \<le> i \<Longrightarrow> \<not> occurs_at pat s i"
  using find_from_None [of pat "drop pos s" "i - pos"]
  by (auto simp: std_find_def occurs_at_def split: if_splits)

lemma rfind_in_result:
  "case rfind_in pat s of
     None \<Rightarrow> \<forall>i. \<not> occurs_at pat s i
   | Some i \<Rightarrow> occurs_at pat s i \<and> (\<forall>j>i. \<not> occurs_at pat s j)"
proof (induction s)
  case Nil
  then show ?case
    by (auto simp: rfind_in.simps occurs_at_def)
next
  case (Cons c s)
  show ?case
  proof (cases "rfind_in pat s")
    case None
    with Cons.IH have no: "\<not> occurs_at pat s i" for i
      by simp
    have "\<not> occurs_at pat (c # s) (Suc i)" for i
      using no [of i] by (simp add: occurs_at_def)
    then have later: "0 < j \<Longrightarrow> \<not> occurs_at pat (c # s) j" for j
      by (cases j) simp_all
    have here: "occurs_at pat (c # s) 0 \<longleftrightarrow> prefix pat (c # s)"
      by (simp add: occurs_at_def)
    show ?thesis
      using None later here by (auto simp: rfind_in.simps [of pat "c # s"]) (metis neq0_conv)
  next
    case (Some k)
    with Cons.IH have k: "occurs_at pat s k" "\<forall>j>k. \<not> occurs_at pat s j"
      by simp_all
    have "\<not> occurs_at pat (c # s) j" if "Suc k < j" for j
      using k(2) that by (cases j) (auto simp: occurs_at_def)
    with Some k(1) show ?thesis
      by (simp add: rfind_in.simps [of pat "c # s"]) (simp add: occurs_at_def)
  qed
qed

section \<open>The class\<close>

datatype arduino_string = String (value_of: string)

definition string_of_cstr :: "c_string \<Rightarrow> arduino_string" where
  "string_of_cstr cstr = String (cstr_or_empty cstr)"

definition string_of_char :: "char \<Rightarrow> arduino_string" where
  "string_of_char c = String [c]"

text \<open>The constructors from numbers, through \<open>std::to_string\<close>.\<close>

definition string_of_number :: "int \<Rightarrow> arduino_string" where
  "string_of_number v = String (dec_of_int v)"

definition string_assign_cstr :: "c_string \<Rightarrow> arduino_string \<Rightarrow> arduino_string" where
  "string_assign_cstr cstr s = String (cstr_or_empty cstr)"

definition string_append :: "arduino_string \<Rightarrow> arduino_string \<Rightarrow> arduino_string" where
  "string_append s other = String (value_of s @ value_of other)"

definition string_append_cstr :: "arduino_string \<Rightarrow> c_string \<Rightarrow> arduino_string" where
  "string_append_cstr s cstr =
     (case cstr of None \<Rightarrow> s | Some t \<Rightarrow> String (value_of s @ c_view t))"

definition string_append_char :: "arduino_string \<Rightarrow> char \<Rightarrow> arduino_string" where
  "string_append_char s c = String (value_of s @ [c])"

text \<open>\<open>operator+\<close> copies its left operand, as a \<open>String\<close>, and appends the right one.\<close>

definition string_plus :: "arduino_string \<Rightarrow> arduino_string \<Rightarrow> arduino_string" where
  "string_plus a b = string_append a b"

definition string_plus_cstr :: "arduino_string \<Rightarrow> c_string \<Rightarrow> arduino_string" where
  "string_plus_cstr a b = string_append_cstr a b"

definition cstr_plus_string :: "c_string \<Rightarrow> arduino_string \<Rightarrow> arduino_string" where
  "cstr_plus_string a b = string_append (string_of_cstr a) b"

definition string_plus_char :: "arduino_string \<Rightarrow> char \<Rightarrow> arduino_string" where
  "string_plus_char a b = string_append_char a b"

definition char_plus_string :: "char \<Rightarrow> arduino_string \<Rightarrow> arduino_string" where
  "char_plus_string a b = string_append (string_of_char a) b"

instantiation arduino_string :: monoid_add
begin

definition zero_arduino_string :: arduino_string where
  "0 = String []"

definition plus_arduino_string :: "arduino_string \<Rightarrow> arduino_string \<Rightarrow> arduino_string" where
  "a + b = string_plus a b"

instance
  by standard
    (simp_all add: zero_arduino_string_def plus_arduino_string_def string_plus_def string_append_def)

end

definition string_concat :: "arduino_string \<Rightarrow> arduino_string \<Rightarrow> bool \<times> arduino_string" where
  "string_concat s other = (True, string_append s other)"

definition string_concat_cstr :: "arduino_string \<Rightarrow> c_string \<Rightarrow> bool \<times> arduino_string" where
  "string_concat_cstr s cstr = (True, string_append_cstr s cstr)"

definition string_concat_char :: "arduino_string \<Rightarrow> char \<Rightarrow> bool \<times> arduino_string" where
  "string_concat_char s c = (True, string_append_char s c)"

definition string_c_str :: "arduino_string \<Rightarrow> string" where
  "string_c_str s = c_view (value_of s)"

definition string_length :: "arduino_string \<Rightarrow> nat" where
  "string_length s = uint_of_size (length (value_of s))"

definition string_at :: "arduino_string \<Rightarrow> nat \<Rightarrow> char" where
  "string_at s index = (if index < length (value_of s) then value_of s ! index else CHR 0x00)"

text \<open>
  An assignment through the reference that the non-const \<open>operator[]\<close> returns: out of range
  it goes to the scratch cell.
\<close>

definition string_set_at :: "arduino_string \<Rightarrow> nat \<Rightarrow> char \<Rightarrow> arduino_string" where
  "string_set_at s index c =
     (if index < length (value_of s) then String ((value_of s)[index := c]) else s)"

definition string_eq :: "arduino_string \<Rightarrow> arduino_string \<Rightarrow> bool" where
  "string_eq s other \<longleftrightarrow> value_of s = value_of other"

definition string_eq_cstr :: "arduino_string \<Rightarrow> c_string \<Rightarrow> bool" where
  "string_eq_cstr s cstr \<longleftrightarrow> value_of s = cstr_or_empty cstr"

definition string_ne :: "arduino_string \<Rightarrow> arduino_string \<Rightarrow> bool" where
  "string_ne s other \<longleftrightarrow> \<not> string_eq s other"

definition string_ne_cstr :: "arduino_string \<Rightarrow> c_string \<Rightarrow> bool" where
  "string_ne_cstr s cstr \<longleftrightarrow> \<not> string_eq_cstr s cstr"

definition string_equals :: "arduino_string \<Rightarrow> arduino_string \<Rightarrow> bool" where
  "string_equals s other \<longleftrightarrow> string_eq s other"

definition c_tolower :: "char \<Rightarrow> char" where
  "c_tolower c = (if 65 \<le> (of_char c :: nat) \<and> (of_char c :: nat) \<le> 90
                  then char_of ((of_char c :: nat) + 32) else c)"

definition c_toupper :: "char \<Rightarrow> char" where
  "c_toupper c = (if 97 \<le> (of_char c :: nat) \<and> (of_char c :: nat) \<le> 122
                  then char_of ((of_char c :: nat) - 32) else c)"

primrec no_difference :: "string \<Rightarrow> string \<Rightarrow> bool" where
  "no_difference [] b \<longleftrightarrow> True"
| "no_difference (x # a) b \<longleftrightarrow> c_tolower x = c_tolower (hd b) \<and> no_difference a (tl b)"

definition case_insensitive_equal :: "string \<Rightarrow> string \<Rightarrow> bool" where
  "case_insensitive_equal a b \<longleftrightarrow> (if length a \<noteq> length b then False else no_difference a b)"

definition string_equals_ignore_case :: "arduino_string \<Rightarrow> arduino_string \<Rightarrow> bool" where
  "string_equals_ignore_case s other \<longleftrightarrow> case_insensitive_equal (value_of s) (value_of other)"

definition string_starts_with :: "arduino_string \<Rightarrow> arduino_string \<Rightarrow> bool" where
  "string_starts_with s p \<longleftrightarrow>
     length (value_of p) \<le> length (value_of s)
     \<and> take (length (value_of p)) (value_of s) = value_of p"

definition string_ends_with :: "arduino_string \<Rightarrow> arduino_string \<Rightarrow> bool" where
  "string_ends_with s p \<longleftrightarrow>
     length (value_of p) \<le> length (value_of s)
     \<and> take (length (value_of p)) (drop (length (value_of s) - length (value_of p)) (value_of s))
         = value_of p"

definition find_to_int :: "nat option \<Rightarrow> int" where
  "find_to_int pos = (case pos of None \<Rightarrow> - 1 | Some p \<Rightarrow> int_of_size p)"

definition string_index_of_char :: "arduino_string \<Rightarrow> char \<Rightarrow> nat \<Rightarrow> int" where
  "string_index_of_char s c fromIndex = find_to_int (std_find (value_of s) [c] fromIndex)"

definition string_index_of :: "arduino_string \<Rightarrow> arduino_string \<Rightarrow> nat \<Rightarrow> int" where
  "string_index_of s t fromIndex = find_to_int (std_find (value_of s) (value_of t) fromIndex)"

definition string_last_index_of_char :: "arduino_string \<Rightarrow> char \<Rightarrow> int" where
  "string_last_index_of_char s c = find_to_int (std_rfind (value_of s) [c])"

definition string_last_index_of :: "arduino_string \<Rightarrow> arduino_string \<Rightarrow> int" where
  "string_last_index_of s t = find_to_int (std_rfind (value_of s) (value_of t))"

definition string_substring :: "arduino_string \<Rightarrow> nat \<Rightarrow> nat \<Rightarrow> arduino_string" where
  "string_substring s left right =
     (if length (value_of s) \<le> left \<or> right \<le> left then String []
      else
        let right' = (if length (value_of s) < right then uint_of_size (length (value_of s)) else right)
        in string_of_cstr (Some (take (right' - left) (drop left (value_of s)))))"

definition string_substring_from :: "arduino_string \<Rightarrow> nat \<Rightarrow> arduino_string" where
  "string_substring_from s left = string_substring s left (uint_of_size (length (value_of s)))"

definition string_remove_from :: "arduino_string \<Rightarrow> nat \<Rightarrow> arduino_string" where
  "string_remove_from s index =
     (if index < length (value_of s) then String (take index (value_of s)) else s)"

definition string_remove :: "arduino_string \<Rightarrow> nat \<Rightarrow> nat \<Rightarrow> arduino_string" where
  "string_remove s index cnt =
     (if index < length (value_of s)
      then String (take index (value_of s) @ drop (index + cnt) (value_of s)) else s)"

definition string_replace_char :: "arduino_string \<Rightarrow> char \<Rightarrow> char \<Rightarrow> arduino_string" where
  "string_replace_char s f r = String (map (\<lambda>ch. if ch = f then r else ch) (value_of s))"

function replace_loop :: "string \<Rightarrow> string \<Rightarrow> string \<Rightarrow> nat \<Rightarrow> string" where
  "replace_loop f r v pos =
     (if f = [] then v
      else case std_find v f pos of
          None \<Rightarrow> v
        | Some p \<Rightarrow> replace_loop f r (take p v @ r @ drop (p + length f) v) (p + length r))"
  by pat_completeness auto

termination
proof (relation "measure (\<lambda>(f, r, v, pos). length v - pos)")
  show "wf (measure (\<lambda>(f, r, v, pos). length v - pos))"
    by simp
  fix f r v pos p
  assume f: "(f :: string) \<noteq> []" and found: "std_find v f pos = Some p"
  have "pos \<le> p" "p + length f \<le> length v"
    using std_find_Some [OF found] occurs_at_bound by blast+
  moreover have "0 < length f"
    using f by simp
  ultimately have "length v - (p + length f) < length v - pos"
    by linarith
  then show "((f, r, take p v @ r @ drop (p + length f) v, p + length r), f, r, v, pos)
      \<in> measure (\<lambda>(f, r, v, pos). length v - pos)"
    using \<open>p + length f \<le> length v\<close> by (simp add: add.commute)
qed

declare replace_loop.simps [simp del]

definition string_replace :: "arduino_string \<Rightarrow> arduino_string \<Rightarrow> arduino_string \<Rightarrow> arduino_string" where
  "string_replace s f r =
     (if value_of f = [] then s else String (replace_loop (value_of f) (value_of r) (value_of s) 0))"

text \<open>
  The same loop where a parameter refers to the object itself: \<open>as_find\<close> and \<open>as_rep\<close> say so, and
  what they refer to changes with it. The text is read whole before it is replaced, as the library
  promises; the sizes are asked for where the code asks. It need not end.
\<close>

partial_function (option) replace_here :: "bool \<Rightarrow> bool \<Rightarrow> string \<Rightarrow> string \<Rightarrow> string \<Rightarrow> nat \<Rightarrow> string option" where
  "replace_here as_find as_rep f r v pos =
     (case std_find v (if as_find then v else f) pos of
        None \<Rightarrow> Some v
      | Some p \<Rightarrow>
          let v1 = take p v @ (if as_rep then v else r) @ drop (p + length (if as_find then v else f)) v
          in replace_here as_find as_rep f r v1 (p + length (if as_rep then v1 else r)))"

definition string_replace_on ::
  "bool \<Rightarrow> bool \<Rightarrow> arduino_string \<Rightarrow> arduino_string \<Rightarrow> arduino_string \<Rightarrow> arduino_string option" where
  "string_replace_on as_find as_rep s f r =
     (if value_of (if as_find then s else f) = [] then Some s
      else map_option String (replace_here as_find as_rep (value_of f) (value_of r) (value_of s) 0))"

definition is_blank :: "char \<Rightarrow> bool" where
  "is_blank c \<longleftrightarrow> c = CHR '' '' \<or> c = CHR 0x09 \<or> c = CHR 0x0D \<or> c = CHR 0x0A"

text \<open>\<open>find_first_not_of\<close> and \<open>find_last_not_of\<close> of the four blanks.\<close>

fun first_not_blank :: "string \<Rightarrow> nat option" where
  "first_not_blank [] = None"
| "first_not_blank (c # s) = (if is_blank c then map_option Suc (first_not_blank s) else Some 0)"

fun last_not_blank :: "string \<Rightarrow> nat option" where
  "last_not_blank [] = None"
| "last_not_blank (c # s) =
     (case last_not_blank s of
        Some i \<Rightarrow> Some (Suc i)
      | None \<Rightarrow> if is_blank c then None else Some 0)"

definition string_trim :: "arduino_string \<Rightarrow> arduino_string" where
  "string_trim s =
     (case first_not_blank (value_of s) of
        None \<Rightarrow> String []
      | Some start \<Rightarrow>
          String (take (the (last_not_blank (value_of s)) - start + 1) (drop start (value_of s))))"

definition string_to_lower :: "arduino_string \<Rightarrow> arduino_string" where
  "string_to_lower s = String (map c_tolower (value_of s))"

definition string_to_upper :: "arduino_string \<Rightarrow> arduino_string" where
  "string_to_upper s = String (map c_toupper (value_of s))"

section \<open>Reference definitions and what implements them\<close>

text \<open>Left-to-right substitution of non-overlapping occurrences.\<close>

function replace_all :: "string \<Rightarrow> string \<Rightarrow> string \<Rightarrow> string" where
  "replace_all f r s =
     (if f \<noteq> [] \<and> prefix f s then r @ replace_all f r (drop (length f) s)
      else case s of [] \<Rightarrow> [] | c # t \<Rightarrow> c # replace_all f r t)"
  by pat_completeness auto

termination
  by (relation "measure (\<lambda>(f, r, s). length s)") (auto intro!: diff_less)

declare replace_all.simps [simp del]

lemma replace_all_absent: "(\<And>i. \<not> occurs_at f s i) \<Longrightarrow> replace_all f r s = s"
proof (induction s)
  case Nil
  then show ?case
    using Nil [of 0] by (simp add: replace_all.simps occurs_at_def)
next
  case (Cons c s)
  have "\<not> occurs_at f s i" for i
    using Cons.prems [of "Suc i"] by (simp add: occurs_at_def)
  with Cons.IH Cons.prems [of 0] show ?case
    by (simp add: replace_all.simps [of f r "c # s"] occurs_at_def)
qed

lemma replace_all_first:
  "f \<noteq> [] \<Longrightarrow> occurs_at f s k \<Longrightarrow> (\<And>j. j < k \<Longrightarrow> \<not> occurs_at f s j) \<Longrightarrow>
     replace_all f r s = take k s @ r @ replace_all f r (drop (k + length f) s)"
proof (induction k arbitrary: s)
  case 0
  then show ?case
    by (simp add: replace_all.simps [of f r s] occurs_at_def)
next
  case (Suc k)
  then obtain c t where s: "s = c # t"
    by (cases s) (auto simp: occurs_at_def)
  have "\<not> occurs_at f t j" if "j < k" for j
    using Suc.prems(3) [of "Suc j"] that by (simp add: occurs_at_def s)
  moreover have "occurs_at f t k"
    using Suc.prems(2) by (simp add: occurs_at_def s)
  ultimately have "replace_all f r t = take k t @ r @ replace_all f r (drop (k + length f) t)"
    using Suc.IH [OF Suc.prems(1)] by blast
  moreover have "\<not> prefix f s"
    using Suc.prems(3) [of 0] by (simp add: occurs_at_def)
  ultimately show ?case
    by (simp add: s replace_all.simps [of f r "c # t"])
qed

lemma occurs_at_shift: "occurs_at f (pre @ s) (length pre + k) \<longleftrightarrow> occurs_at f s k"
  by (simp add: occurs_at_def)

lemma replace_loop_all:
  "f \<noteq> [] \<Longrightarrow> replace_loop f r (pre @ s) (length pre) = pre @ replace_all f r s"
proof (induction "length s" arbitrary: s pre rule: less_induct)
  case less
  show ?case
  proof (cases "std_find (pre @ s) f (length pre)")
    case None
    have "\<not> occurs_at f s i" for i
      using std_find_None [OF None, of "length pre + i"] occurs_at_shift [of f pre s i] by simp
    then show ?thesis
      using None by (simp add: replace_loop.simps replace_all_absent)
  next
    case (Some p)
    note found = std_find_Some [OF Some]
    obtain k where p: "p = length pre + k"
      using found le_Suc_ex by blast
    have here: "occurs_at f s k"
      using found p by (simp add: occurs_at_shift)
    have before: "\<not> occurs_at f s j" if "j < k" for j
      using found p that by (metis occurs_at_shift le_add1 nat_add_left_cancel_less)
    note first = here before
    let ?rest = "drop (k + length f) s"
    have "length ?rest < length s"
      using occurs_at_bound [OF first(1)] less.prems by (cases f) auto
    from less.hyps [OF this less.prems, of "pre @ take k s @ r"]
    have "replace_loop f r ((pre @ take k s @ r) @ ?rest) (length (pre @ take k s @ r))
        = (pre @ take k s @ r) @ replace_all f r ?rest" .
    moreover have "take p (pre @ s) @ r @ drop (p + length f) (pre @ s) = (pre @ take k s @ r) @ ?rest"
      "p + length r = length (pre @ take k s @ r)"
      using p occurs_at_bound [OF first(1)] by simp_all
    moreover have "replace_loop f r (pre @ s) (length pre)
        = replace_loop f r (take p (pre @ s) @ r @ drop (p + length f) (pre @ s)) (p + length r)"
      by (subst replace_loop.simps) (simp add: Some less.prems)
    ultimately have "replace_loop f r (pre @ s) (length pre) = (pre @ take k s @ r) @ replace_all f r ?rest"
      by (simp only:)
    then show ?thesis
      using replace_all_first [OF less.prems first, of r] by simp
  qed
qed

lemma first_not_blank_spec:
  "first_not_blank s = (if \<forall>c\<in>set s. is_blank c then None else Some (length (takeWhile is_blank s)))"
  by (induction s) auto

lemma last_not_blank_append:
  "last_not_blank (s @ [c]) = (if is_blank c then last_not_blank s else Some (length s))"
  by (induction s) (auto split: option.splits)

lemma last_not_blank_spec:
  "last_not_blank s = (if \<forall>c\<in>set s. is_blank c then None
     else Some (length (rev (dropWhile is_blank (rev s))) - 1))"
  by (induction s rule: rev_induct) (auto simp: last_not_blank_append)

definition trim_reference :: "string \<Rightarrow> string" where
  "trim_reference s = rev (dropWhile is_blank (rev (dropWhile is_blank s)))"

lemma string_trim_reference: "value_of (string_trim s) = trim_reference (value_of s)"
proof (cases "\<forall>c\<in>set (value_of s). is_blank c")
  case True
  then show ?thesis
    by (auto simp: string_trim_def first_not_blank_spec trim_reference_def dest: set_dropWhileD)
next
  case False
  let ?v = "value_of s"
  let ?a = "takeWhile is_blank ?v" and ?m = "dropWhile is_blank ?v"
  have "rev ?m = takeWhile is_blank (rev ?m) @ dropWhile is_blank (rev ?m)"
    by simp
  then have m: "?m = trim_reference ?v @ rev (takeWhile is_blank (rev ?m))"
    unfolding trim_reference_def by (metis rev_append rev_rev_ident)
  obtain x where x: "x \<in> set ?m" "\<not> is_blank x"
    using False by (metis dropWhile_eq_Nil_conv hd_dropWhile list.set_sel(1))
  have "dropWhile is_blank (rev ?v) = dropWhile is_blank (rev ?m @ rev ?a)"
    by (metis rev_append takeWhile_dropWhile_id)
  also have "\<dots> = dropWhile is_blank (rev ?m) @ rev ?a"
    using x by (subst dropWhile_append1 [of x]) auto
  finally have "rev (dropWhile is_blank (rev ?v)) = ?a @ trim_reference ?v"
    by (simp add: trim_reference_def)
  then have len: "length (rev (dropWhile is_blank (rev ?v))) = length ?a + length (trim_reference ?v)"
    by (metis length_append)
  have "trim_reference ?v \<noteq> []"
    using x by (auto simp: trim_reference_def)
  then have "length (trim_reference ?v) > 0"
    by simp
  with len have "length (rev (dropWhile is_blank (rev ?v))) - 1 - length ?a + 1 = length (trim_reference ?v)"
    by linarith
  moreover have "drop (length ?a) ?v = ?m"
    by (simp add: dropWhile_eq_drop)
  moreover have "take (length (trim_reference ?v)) ?m = trim_reference ?v"
    using m by (metis append_eq_conv_conj)
  ultimately show ?thesis
    using False by (auto simp: string_trim_def first_not_blank_spec last_not_blank_spec)
qed

lemma case_insensitive_equal_map:
  "case_insensitive_equal a b \<longleftrightarrow> map c_tolower a = map c_tolower b"
proof -
  have "length a = length b \<Longrightarrow> no_difference a b \<longleftrightarrow> map c_tolower a = map c_tolower b"
    by (induction a b rule: list_induct2) simp_all
  then show ?thesis
    by (auto simp: case_insensitive_equal_def dest: map_eq_imp_length_eq)
qed

lemma string_starts_with_prefix: "string_starts_with s p \<longleftrightarrow> prefix (value_of p) (value_of s)"
  by (auto simp: string_starts_with_def prefix_def) (metis append_take_drop_id)

lemma string_ends_with_suffix: "string_ends_with s p \<longleftrightarrow> suffix (value_of p) (value_of s)"
  by (auto simp: string_ends_with_def suffix_def) (metis append_take_drop_id)

section \<open>Properties\<close>

text \<open>
  C27: \<open>String::replace\<close> substitutes every occurrence, once. The loop, which searches, splices and
  resumes after the inserted text, computes the left-to-right substitution of the non-overlapping
  occurrences of the searched text; the inserted text is never searched again, and an empty
  search text changes nothing. The loop always ends, even where the insertion contains the
  searched text.
\<close>

theorem replace_is_left_to_right_substitution:
  "string_replace s f r = String (replace_all (value_of f) (value_of r) (value_of s))"
proof (cases "value_of f = []")
  case True
  have "replace_all [] (value_of r) t = t" for t
    by (induction t) (simp_all add: replace_all.simps)
  with True show ?thesis
    by (simp add: string_replace_def)
next
  case False
  then show ?thesis
    using replace_loop_all [OF False, of "value_of r" "[]" "value_of s"] by (simp add: string_replace_def)
qed

lemma replace_here_apart: "f \<noteq> [] \<Longrightarrow> replace_here False False f r v pos = Some (replace_loop f r v pos)"
proof (induction f r v pos rule: replace_loop.induct)
  case (1 f r v pos)
  then show ?case
    by (subst replace_here.simps, subst replace_loop.simps) (auto simp: Let_def split: option.split)
qed

lemma find_itself: "v \<noteq> [] \<Longrightarrow> std_find v v pos = (if pos = 0 then Some 0 else None)"
proof -
  assume v: "v \<noteq> []"
  have only: "occurs_at v v i \<longleftrightarrow> i = 0" for i
    using occurs_at_bound [of v v i] by (auto simp: occurs_at_def)
  show ?thesis
  proof (cases "std_find v v pos")
    case None
    then show ?thesis
      using std_find_None [OF None, of 0] only by auto
  next
    case (Some i)
    then show ?thesis
      using std_find_Some [OF Some] only by auto
  qed
qed

lemma find_past_end: "f \<noteq> [] \<Longrightarrow> length v \<le> pos \<Longrightarrow> std_find v f pos = None"
proof (cases "std_find v f pos")
  case (Some i)
  assume f: "f \<noteq> []" "length v \<le> pos"
  have "pos \<le> i" "i + length f \<le> length v"
    using std_find_Some [OF Some] occurs_at_bound by blast+
  with f show ?thesis
    by (cases f) auto
qed simp

text \<open>Once the object is empty it finds itself for ever.\<close>

lemma replace_here_stuck: "replace_here True False f [] [] 0 = None"
proof (rule ccontr)
  assume "replace_here True False f [] [] 0 \<noteq> None"
  then obtain x where "replace_here True False f [] [] 0 = Some x"
    by auto
  then have "\<not> (True \<and> \<not> False \<and> ([] :: string) = [] \<and> ([] :: string) = [] \<and> (0 :: nat) = 0)"
  proof (rule replace_here.raw_induct [where P = "\<lambda>as_find as_rep f r v pos x.
      \<not> (as_find \<and> \<not> as_rep \<and> r = [] \<and> v = [] \<and> pos = 0)", rotated])
    fix wl as_find as_rep and f r v :: string and pos x
    assume ih: "\<And>as_find as_rep f r v pos x. wl as_find as_rep f r v pos = Some x
        \<Longrightarrow> \<not> (as_find \<and> \<not> as_rep \<and> r = [] \<and> v = [] \<and> pos = 0)"
      and run: "(case std_find v (if as_find then v else f) pos of
          None \<Rightarrow> Some v
        | Some p \<Rightarrow>
            let v1 = take p v @ (if as_rep then v else r) @ drop (p + length (if as_find then v else f)) v
            in wl as_find as_rep f r v1 (p + length (if as_rep then v1 else r))) = Some x"
    have empty: "std_find [] [] 0 = Some 0"
      by code_simp
    show "\<not> (as_find \<and> \<not> as_rep \<and> r = [] \<and> v = [] \<and> pos = 0)"
    proof
      assume this_one: "as_find \<and> \<not> as_rep \<and> r = [] \<and> v = [] \<and> pos = 0"
      with run empty have "wl as_find as_rep f [] [] 0 = Some x"
        by (simp add: Let_def)
      with ih this_one show False
        by blast
    qed
  qed
  then show False
    by simp
qed

text \<open>
  C39: \<open>replace\<close> with the string itself as a parameter. Apart from that it is \<open>string_replace\<close>. A
  string that is to be replaced in itself by another becomes the other, and if that is empty the
  call never returns: the string it looks for has become empty, is found at 0, and so on. A
  string that replaces a text in itself replaces the first occurrence only: the position it goes on
  from is counted by the new, longer, string and lies past the end.
\<close>

theorem replace_on_itself:
  assumes "value_of s \<noteq> []"
  shows "string_replace_on False False s f r = Some (string_replace s f r)
    \<and> string_replace_on True False s f r = (if value_of r = [] then None else Some r)
    \<and> string_replace_on False True s f r =
        Some (case std_find (value_of s) (value_of f) 0 of
                None \<Rightarrow> s
              | Some p \<Rightarrow>
                  if value_of f = [] then s
                  else String (take p (value_of s) @ value_of s @ drop (p + length (value_of f)) (value_of s)))
    \<and> string_replace_on True True s f r = Some s"
proof -
  let ?v = "value_of s" and ?f = "value_of f" and ?r = "value_of r"
  have "string_replace_on False False s f r = Some (string_replace s f r)"
    by (simp add: string_replace_on_def string_replace_def replace_here_apart)
  moreover have "replace_here True False ?f ?r ?v 0 = (if ?r = [] then None else Some ?r)"
  proof (cases "?r = []")
    case True
    then show ?thesis
      using assms by (subst replace_here.simps) (simp add: find_itself replace_here_stuck)
  next
    case False
    have "replace_here True False ?f ?r ?r (length ?r) = Some ?r"
      using False by (subst replace_here.simps) (simp add: find_itself)
    then show ?thesis
      using assms False by (subst replace_here.simps) (simp add: find_itself)
  qed
  then have "string_replace_on True False s f r = (if ?r = [] then None else Some r)"
    using assms by (simp add: string_replace_on_def)
  moreover have "replace_here True True ?f ?r ?v 0 = Some ?v"
    using assms
    by (subst replace_here.simps) (simp add: find_itself replace_here.simps [of True True ?f ?r ?v])
  then have "string_replace_on True True s f r = Some s"
    using assms by (simp add: string_replace_on_def)
  moreover have "replace_here False True ?f ?r ?v 0 = Some (case std_find ?v ?f 0 of None \<Rightarrow> ?v
      | Some p \<Rightarrow> take p ?v @ ?v @ drop (p + length ?f) ?v)" if f: "?f \<noteq> []"
  proof (cases "std_find ?v ?f 0")
    case None
    then show ?thesis
      by (simp add: replace_here.simps [of False True ?f ?r ?v])
  next
    case (Some p)
    let ?v1 = "take p ?v @ ?v @ drop (p + length ?f) ?v"
    have "replace_here False True ?f ?r ?v1 (p + length ?v1) = Some ?v1"
      using find_past_end [OF f, of ?v1 "p + length ?v1"] by (subst replace_here.simps) simp
    then show ?thesis
      using Some by (subst replace_here.simps) (simp add: Let_def)
  qed
  then have "string_replace_on False True s f r = Some (case std_find ?v ?f 0 of None \<Rightarrow> s
      | Some p \<Rightarrow> if ?f = [] then s else String (take p ?v @ ?v @ drop (p + length ?f) ?v))"
    by (auto simp: string_replace_on_def split: option.split)
  ultimately show ?thesis
    by simp
qed

theorem replace_on_itself_witness:
  "string_replace_on True False (String ''ab'') (String []) (String []) = None
     \<and> string_replace_on False True (String ''aba'') (String ''a'') (String []) = Some (String ''ababa'')"
proof -
  have "string_replace_on True False (String ''ab'') (String []) (String []) = None"
    using replace_on_itself [of "String ''ab''" "String []" "String []"] by simp
  moreover have "std_find ''aba'' ''a'' 0 = Some 0"
    by code_simp
  then have "string_replace_on False True (String ''aba'') (String ''a'') (String []) = Some (String ''ababa'')"
    using replace_on_itself [of "String ''aba''" "String ''a''" "String []"] by simp
  ultimately show ?thesis ..
qed

text \<open>
  \<open>indexOf\<close> finds the first occurrence and \<open>lastIndexOf\<close> the last. In a string shorter than
  \<open>2^31\<close>, \<open>indexOf\<close> answers the least index not before \<open>fromIndex\<close> at which the searched text
  occurs, \<open>lastIndexOf\<close> the greatest, and each answers -1 exactly where there is none.
\<close>

theorem indexOf_finds_first:
  assumes "length (value_of s) < 2147483648"
  shows "(if string_index_of s t fromIndex = - 1
          then \<forall>i. fromIndex \<le> i \<longrightarrow> \<not> occurs_at (value_of t) (value_of s) i
          else \<exists>i. string_index_of s t fromIndex = int i \<and> fromIndex \<le> i
                 \<and> occurs_at (value_of t) (value_of s) i
                 \<and> (\<forall>j. fromIndex \<le> j \<and> j < i \<longrightarrow> \<not> occurs_at (value_of t) (value_of s) j))
       \<and> (if string_last_index_of s t = - 1
          then \<forall>i. \<not> occurs_at (value_of t) (value_of s) i
          else \<exists>i. string_last_index_of s t = int i \<and> occurs_at (value_of t) (value_of s) i
                 \<and> (\<forall>j>i. \<not> occurs_at (value_of t) (value_of s) j))"
proof -
  have small: "int_of_size i = int i" if "occurs_at (value_of t) (value_of s) i" for i
    using occurs_at_bound [OF that] assms by (simp add: int_of_size_small)
  have "string_index_of s t fromIndex = - 1 \<longleftrightarrow> std_find (value_of s) (value_of t) fromIndex = None"
    using std_find_Some small by (fastforce simp: string_index_of_def find_to_int_def split: option.splits)
  moreover have "string_last_index_of s t = - 1 \<longleftrightarrow> std_rfind (value_of s) (value_of t) = None"
    using rfind_in_result [of "value_of t" "value_of s"] small
    by (fastforce simp: string_last_index_of_def std_rfind_def find_to_int_def split: option.splits)
  ultimately show ?thesis
    using std_find_Some [of "value_of s" "value_of t" fromIndex] std_find_None [of "value_of s" "value_of t" fromIndex]
      rfind_in_result [of "value_of t" "value_of s"] small
    by (auto simp: string_index_of_def string_last_index_of_def std_rfind_def find_to_int_def
        split: option.splits)
qed

theorem indexOf_finds_first_witness:
  "string_index_of (String ''ATDTa:b'') (String ''a:'') 0 = 4"
proof -
  have "length (value_of (String ''ATDTa:b'')) < 2147483648"
    by simp
  note first = indexOf_finds_first [OF this, of "String ''a:''" 0]
  have found: "string_index_of (String ''ATDTa:b'') (String ''a:'') 0 = 4"
    by (simp add: string_index_of_def std_find_def find_from.simps find_to_int_def int_of_size_small)
  with first have "\<exists>i. string_index_of (String ''ATDTa:b'') (String ''a:'') 0 = int i"
    by auto
  with found show ?thesis by simp
qed

text \<open>
  \<open>trim\<close> removes exactly the blanks at both ends. The result is the string without its
  leading and its trailing spaces, tabs, carriage returns and line feeds, the inner ones kept;
  a string of blanks alone becomes empty.
\<close>

theorem trim_removes_exactly_outer_blanks:
  "string_trim s = String (rev (dropWhile is_blank (rev (dropWhile is_blank (value_of s)))))"
  using string_trim_reference [of s] by (simp add: trim_reference_def arduino_string.expand)

text \<open>
  \<open>substring\<close> returns the characters from \<open>left\<close> up to but not including \<open>right\<close>, bounds
  clipped to the string, up to the first NUL among them: the slice passes through a C string, so
  an embedded NUL, which \<open>std::string\<close> and the other methods keep, ends the result early.
\<close>

theorem substring_slices_up_to_nul:
  assumes "length (value_of s) < 4294967296"
  shows "value_of (string_substring s left right) = c_view (take (right - left) (drop left (value_of s)))"
  using assms
  by (auto simp: string_substring_def string_of_cstr_def cstr_or_empty_def uint_of_size_small Let_def
      c_view_def)

theorem substring_slices_up_to_nul_witness:
  "value_of (string_substring (String [CHR ''a'', CHR 0x00, CHR ''b'']) 0 3) = ''a''"
proof -
  have "length (value_of (String [CHR ''a'', CHR 0x00, CHR ''b''])) < 4294967296"
    by simp
  from substring_slices_up_to_nul [OF this, of 0 3] show ?thesis
    by (simp add: c_view_def)
qed

end
