(* ===== verification/PrintStream.thy ===== *)
theory PrintStream
  imports Interfaces WString
begin

text \<open>
  \<open>Print\<close> and \<open>Stream\<close> (\<open>arduino/Print.h\<close>, \<open>arduino/Stream.h\<close>). The virtual functions that a
  concrete class overrides are arguments: \<open>put1\<close> is \<open>write(uint8_t)\<close>, \<open>put\<close> the buffer
  \<open>write\<close>. What the methods do to a sink that takes every byte is proved in the context of
  \<open>byte_sink\<close> and reaches each concrete class through its interpretation.
\<close>

section \<open>The methods\<close>

text \<open>The default buffer \<open>write\<close>: one byte at a time, until a byte is refused.\<close>

primrec print_default_write :: "(u8 \<Rightarrow> 's \<Rightarrow> nat \<times> 's) \<Rightarrow> bytes \<Rightarrow> 's \<Rightarrow> nat \<times> 's" where
  "print_default_write put1 [] s = (0, s)"
| "print_default_write put1 (b # bs) s =
     (let (r, s1) = put1 b s in
      if r \<noteq> 0 then let (n, s2) = print_default_write put1 bs s1 in (1 + n, s2)
      else (0, s1))"

definition print_write_cstr :: "(bytes \<Rightarrow> 's \<Rightarrow> nat \<times> 's) \<Rightarrow> c_string \<Rightarrow> 's \<Rightarrow> nat \<times> 's" where
  "print_write_cstr put str s =
     (case str of None \<Rightarrow> (0, s) | Some t \<Rightarrow> put (bytes_of (c_view t)) s)"

definition print_write_chars :: "(bytes \<Rightarrow> 's \<Rightarrow> nat \<times> 's) \<Rightarrow> string \<Rightarrow> 's \<Rightarrow> nat \<times> 's" where
  "print_write_chars put buffer s = put (bytes_of buffer) s"

definition print_available_for_write :: "'s \<Rightarrow> int" where
  "print_available_for_write s = 0"

definition print_flush :: "'s \<Rightarrow> 's" where
  "print_flush s = s"

definition print_cstr :: "(bytes \<Rightarrow> 's \<Rightarrow> nat \<times> 's) \<Rightarrow> c_string \<Rightarrow> 's \<Rightarrow> nat \<times> 's" where
  "print_cstr put str s = print_write_cstr put str s"

definition print_string :: "(bytes \<Rightarrow> 's \<Rightarrow> nat \<times> 's) \<Rightarrow> arduino_string \<Rightarrow> 's \<Rightarrow> nat \<times> 's" where
  "print_string put str s = print_write_cstr put (Some (string_c_str str)) s"

definition crlf :: string where
  "crlf = [CHR 0x0D, CHR 0x0A]"

definition println_empty :: "(bytes \<Rightarrow> 's \<Rightarrow> nat \<times> 's) \<Rightarrow> 's \<Rightarrow> nat \<times> 's" where
  "println_empty put s = print_write_cstr put (Some crlf) s"

definition println_cstr :: "(bytes \<Rightarrow> 's \<Rightarrow> nat \<times> 's) \<Rightarrow> c_string \<Rightarrow> 's \<Rightarrow> nat \<times> 's" where
  "println_cstr put str s =
     (let (n, s1) = print_cstr put str s; (m, s2) = println_empty put s1 in (n + m, s2))"

definition println_string :: "(bytes \<Rightarrow> 's \<Rightarrow> nat \<times> 's) \<Rightarrow> arduino_string \<Rightarrow> 's \<Rightarrow> nat \<times> 's" where
  "println_string put str s =
     (let (n, s1) = print_string put str s; (m, s2) = println_empty put s1 in (n + m, s2))"

definition printf_buffer :: nat where
  "printf_buffer = 256"

definition print_printf :: "(bytes \<Rightarrow> 's \<Rightarrow> nat \<times> 's) \<Rightarrow> string option \<Rightarrow> 's \<Rightarrow> nat \<times> 's" where
  "print_printf put formatted s =
     (let buf = vsnprintf_buf printf_buffer formatted; n = vsnprintf_ret formatted in
      if n \<le> 0 then (0, s)
      else
        let len = (if nat n < printf_buffer then nat n else printf_buffer - 1)
        in put (bytes_of (take len buf)) s)"

section \<open>What reaches a sink that takes every byte\<close>

text \<open>A call of the \<open>Print\<close> interface, and the text it means.\<close>

datatype print_call =
    PrintCstr c_string
  | PrintString arduino_string
  | PrintlnEmpty
  | PrintlnCstr c_string
  | PrintlnString arduino_string
  | Printf "string option"

definition print_step :: "(bytes \<Rightarrow> 's \<Rightarrow> nat \<times> 's) \<Rightarrow> print_call \<Rightarrow> 's \<Rightarrow> nat \<times> 's" where
  "print_step put c s =
     (case c of
        PrintCstr t \<Rightarrow> print_cstr put t s
      | PrintString t \<Rightarrow> print_string put t s
      | PrintlnEmpty \<Rightarrow> println_empty put s
      | PrintlnCstr t \<Rightarrow> println_cstr put t s
      | PrintlnString t \<Rightarrow> println_string put t s
      | Printf f \<Rightarrow> print_printf put f s)"

definition printed_text :: "print_call \<Rightarrow> string" where
  "printed_text c =
     (case c of
        PrintCstr t \<Rightarrow> cstr_or_empty t
      | PrintString t \<Rightarrow> c_view (value_of t)
      | PrintlnEmpty \<Rightarrow> crlf
      | PrintlnCstr t \<Rightarrow> cstr_or_empty t @ crlf
      | PrintlnString t \<Rightarrow> c_view (value_of t) @ crlf
      | Printf f \<Rightarrow>
          (case f of
             None \<Rightarrow> []
           | Some t \<Rightarrow> if length t < 2147483648 then take 255 t else []))"

fun print_run :: "(bytes \<Rightarrow> 's \<Rightarrow> nat \<times> 's) \<Rightarrow> print_call list \<Rightarrow> 's \<Rightarrow> nat \<times> 's" where
  "print_run put [] s = (0, s)"
| "print_run put (c # cs) s =
     (let (n, s1) = print_step put c s; (m, s2) = print_run put cs s1 in (n + m, s2))"

lemma c_view_crlf [simp]: "c_view crlf = crlf"
  by (simp add: crlf_def c_view_def)

context byte_sink
begin

lemma print_step_takes:
  "fst (print_step put c s) = length (printed_text c)
     \<and> taken (snd (print_step put c s)) = taken s @ bytes_of (printed_text c)"
proof (cases c)
  case (Printf f)
  then show ?thesis
    by (cases f)
      (auto simp: print_step_def printed_text_def print_printf_def printf_buffer_def vsnprintf_ret_def
        vsnprintf_buf_def put_count put_takes Let_def bytes_of_def)
qed (auto simp: print_step_def printed_text_def print_cstr_def print_string_def println_empty_def
    println_cstr_def println_string_def print_write_cstr_def string_c_str_def cstr_or_empty_def
    put_count put_takes Let_def split_def split: option.splits)

lemma print_run_takes:
  "fst (print_run put cs s) = length (concat (map printed_text cs))
     \<and> taken (snd (print_run put cs s)) = taken s @ bytes_of (concat (map printed_text cs))"
  by (induction cs arbitrary: s) (simp_all add: Let_def split_def print_step_takes)

end

text \<open>The default buffer \<open>write\<close> of a class whose byte \<open>write\<close> takes every byte is such a sink.\<close>

lemma print_default_write_all:
  "(\<And>b s. fst (put1 b s) \<noteq> 0) \<Longrightarrow> (\<And>b s. taken (snd (put1 b s)) = taken s @ [b]) \<Longrightarrow>
     fst (print_default_write put1 bs s) = length bs
     \<and> taken (snd (print_default_write put1 bs s)) = taken s @ bs"
  by (induction bs arbitrary: s) (simp_all add: Let_def split_def)

end
