(* ===== verification/HostFs.thy ===== *)
theory HostFs
  imports PrintStream "HOL-Library.AList" "HOL-Library.Sublist"
begin

text \<open>
  What \<open>fs_root.cpp\<close>, \<open>arduino_fs.cpp\<close> and \<open>FS.h\<close> use of the host: paths, directories and C
  streams, as POSIX has them. A path is walked from the top, component by component, each of
  which has to be a directory for the walk to go on; a file is a name for an inode, so that an
  open stream survives the removal of its name. Streams are unbuffered, symbolic links are
  left out, a relative path starts at the top, and opening a directory is refused (glibc would
  give a stream that reads nothing). What the system grants or refuses is an argument.
\<close>

section \<open>Places\<close>

text \<open>A place is the list of the names that lead to it, the last one first.\<close>

type_synonym place = "string list"

record host_fs =
  g_root :: string \<comment> \<open>the variable of \<open>fs_root.cpp\<close>\<close>
  fs_names :: "(place \<times> nat) list"
  fs_data :: "nat \<Rightarrow> bytes"
  fs_next :: nat
  fs_dirs :: "place list"

definition is_dir :: "place \<Rightarrow> host_fs \<Rightarrow> bool" where
  "is_dir p fs \<longleftrightarrow> p = [] \<or> p \<in> set (fs_dirs fs)"

definition is_file :: "place \<Rightarrow> host_fs \<Rightarrow> bool" where
  "is_file p fs \<longleftrightarrow> map_of (fs_names fs) p \<noteq> None"

definition components :: "string \<Rightarrow> string list" where
  "components s = split_on CHR ''/'' s"

definition walk :: "place \<Rightarrow> string \<Rightarrow> place" where
  "walk at c = (if c = [] \<or> c = ''.'' then at else if c = ''..'' then tl at else c # at)"

definition leads_to :: "string \<Rightarrow> place" where
  "leads_to path = foldl walk [] (components path)"

primrec walk_in :: "host_fs \<Rightarrow> string list \<Rightarrow> place \<Rightarrow> place option" where
  "walk_in fs [] at = Some at"
| "walk_in fs (c # cs) at = (if is_dir at fs then walk_in fs cs (walk at c) else None)"

definition find_place :: "string \<Rightarrow> host_fs \<Rightarrow> place option" where
  "find_place path fs = (if path = [] then None else walk_in fs (components path) [])"

lemma walk_in_leads: "walk_in fs cs at = Some p \<Longrightarrow> p = foldl walk at cs"
  by (induction cs arbitrary: at) (auto split: if_splits)

lemma find_place_leads: "find_place path fs = Some p \<Longrightarrow> p = leads_to path"
  by (auto simp: find_place_def leads_to_def dest: walk_in_leads split: if_splits)

lemma walk_in_append:
  "walk_in fs (as @ bs) at = (case walk_in fs as at of None \<Rightarrow> None | Some p \<Rightarrow> walk_in fs bs p)"
  by (induction as arbitrary: at) auto

lemma walk_in_cong: "fs_dirs fs = fs_dirs gs \<Longrightarrow> walk_in fs cs at = walk_in gs cs at"
  by (induction cs arbitrary: at) (simp_all add: is_dir_def)

lemma find_place_cong: "fs_dirs fs = fs_dirs gs \<Longrightarrow> find_place path fs = find_place path gs"
  unfolding find_place_def by (simp cong: walk_in_cong)

lemma components_join: "components (a @ CHR ''/'' # b) = components a @ components b"
  by (simp add: components_def split_on_append)

lemma components_plain: "CHR ''/'' \<notin> set a \<Longrightarrow> components a = [a]"
  by (simp add: components_def split_on_plain)

section \<open>Directories\<close>

text \<open>\<open>create_directories\<close>: the directory and every one on the way to it.\<close>

definition add_dirs :: "place \<Rightarrow> host_fs \<Rightarrow> host_fs" where
  "add_dirs p fs = fs\<lparr>fs_dirs := List.union (filter (\<lambda>d. \<not> is_file d fs) (suffixes p)) (fs_dirs fs)\<rparr>"

definition create_dirs :: "bool \<Rightarrow> string \<Rightarrow> host_fs \<Rightarrow> bool \<times> host_fs" where
  "create_dirs created path fs =
     (if created \<and> list_all (\<lambda>d. \<not> is_file d fs) (suffixes (leads_to path))
      then (True, add_dirs (leads_to path) fs) else (False, fs))"

definition places :: "host_fs \<Rightarrow> place list" where
  "places fs = map fst (fs_names fs) @ fs_dirs fs"

definition entries_of :: "place \<Rightarrow> host_fs \<Rightarrow> place list" where
  "entries_of d fs =
     remdups (map (\<lambda>p. drop (length p - length d - 1) p) (filter (strict_suffix d) (places fs)))"

text \<open>
  \<open>remove_all\<close>, with what the system leaves of the tree. The result says whether the error code
  is set.
\<close>

definition remove_tree :: "(place \<Rightarrow> bool) \<Rightarrow> place \<Rightarrow> host_fs \<Rightarrow> bool \<times> host_fs" where
  "remove_tree keeps p fs =
     (list_ex (\<lambda>q. suffix p q \<and> keeps q) (places fs),
      fs\<lparr>fs_names := filter (\<lambda>(q, i). suffix p q \<longrightarrow> keeps q) (fs_names fs),
         fs_dirs := filter (\<lambda>q. suffix p q \<longrightarrow> keeps q) (fs_dirs fs)\<rparr>)"

text \<open>\<open>filesystem::remove\<close>: a file, or an empty directory.\<close>

definition remove_place :: "bool \<Rightarrow> string \<Rightarrow> host_fs \<Rightarrow> bool \<times> host_fs" where
  "remove_place allowed path fs =
     (case find_place path fs of
        None \<Rightarrow> (False, fs)
      | Some p \<Rightarrow>
          if \<not> allowed then (False, fs)
          else if is_file p fs then (True, fs\<lparr>fs_names := AList.delete p (fs_names fs)\<rparr>)
          else if p \<in> set (fs_dirs fs) \<and> entries_of p fs = []
            \<and> last (components path) \<noteq> ''.'' \<and> last (components path) \<noteq> ''..''
          then (True, fs\<lparr>fs_dirs := filter (\<lambda>q. q \<noteq> p) (fs_dirs fs)\<rparr>)
          else (False, fs))"

definition place_exists :: "string \<Rightarrow> host_fs \<Rightarrow> bool" where
  "place_exists path fs = (case find_place path fs of None \<Rightarrow> False | Some p \<Rightarrow> is_dir p fs \<or> is_file p fs)"

section \<open>C streams\<close>

record c_file =
  cf_inode :: nat
  cf_pos :: nat
  cf_reads :: bool
  cf_writes :: bool
  cf_appends :: bool

text \<open>The kind of a mode string and whether it updates; \<open>None\<close> where \<open>fopen\<close> refuses it.\<close>

datatype open_kind = ModeR | ModeW | ModeA

definition parse_mode :: "string \<Rightarrow> (open_kind \<times> bool) option" where
  "parse_mode m =
     (case m of
        [] \<Rightarrow> None
      | c # rest \<Rightarrow>
          let upd = (CHR ''+'' \<in> set rest) in
          if c = CHR ''r'' then Some (ModeR, upd)
          else if c = CHR ''w'' then Some (ModeW, upd)
          else if c = CHR ''a'' then Some (ModeA, upd)
          else None)"

definition c_file_of :: "open_kind \<Rightarrow> bool \<Rightarrow> nat \<Rightarrow> c_file" where
  "c_file_of k upd i =
     \<lparr>cf_inode = i, cf_pos = 0, cf_reads = (k = ModeR \<or> upd), cf_writes = (k \<noteq> ModeR \<or> upd),
      cf_appends = (k = ModeA)\<rparr>"

definition open_place :: "open_kind \<Rightarrow> bool \<Rightarrow> place \<Rightarrow> host_fs \<Rightarrow> c_file option \<times> host_fs" where
  "open_place k upd p fs =
     (case map_of (fs_names fs) p of
        Some i \<Rightarrow>
          (Some (c_file_of k upd i), if k = ModeW then fs\<lparr>fs_data := (fs_data fs)(i := [])\<rparr> else fs)
      | None \<Rightarrow>
          if k = ModeR then (None, fs)
          else
            let i = fs_next fs
            in (Some (c_file_of k upd i),
                fs\<lparr>fs_names := AList.update p i (fs_names fs),
                   fs_data := (fs_data fs)(i := []), fs_next := i + 1\<rparr>))"

definition c_fopen :: "bool \<Rightarrow> string \<Rightarrow> string \<Rightarrow> host_fs \<Rightarrow> c_file option \<times> host_fs" where
  "c_fopen granted path mode fs =
     (case (parse_mode mode, find_place path fs) of
        (Some (k, upd), Some p) \<Rightarrow>
          if granted \<and> \<not> is_dir p fs then open_place k upd p fs else (None, fs)
      | _ \<Rightarrow> (None, fs))"

definition c_fgetc :: "c_file \<Rightarrow> host_fs \<Rightarrow> int \<times> c_file" where
  "c_fgetc f fs =
     (let d = fs_data fs (cf_inode f) in
      if cf_reads f \<and> cf_pos f < length d
      then (uint (d ! cf_pos f), f\<lparr>cf_pos := cf_pos f + 1\<rparr>)
      else (- 1, f))"

definition c_fread :: "nat \<Rightarrow> c_file \<Rightarrow> host_fs \<Rightarrow> bytes \<times> c_file" where
  "c_fread n f fs =
     (if \<not> cf_reads f then ([], f)
      else
        let got = take n (drop (cf_pos f) (fs_data fs (cf_inode f)))
        in (got, f\<lparr>cf_pos := cf_pos f + length got\<rparr>))"

text \<open>Overwriting from a position on, the gap a seek may have left filled with zeros.\<close>

definition overwrite :: "nat \<Rightarrow> u8 \<Rightarrow> bytes \<Rightarrow> bytes" where
  "overwrite pos b d =
     take pos d @ replicate (pos - length d) 0 @ [b] @ drop (pos + 1) d"

definition c_fputc :: "u8 \<Rightarrow> c_file \<Rightarrow> host_fs \<Rightarrow> bool \<times> c_file \<times> host_fs" where
  "c_fputc b f fs =
     (if \<not> cf_writes f then (False, f, fs)
      else
        let d = fs_data fs (cf_inode f); pos = (if cf_appends f then length d else cf_pos f)
        in (True, f\<lparr>cf_pos := pos + 1\<rparr>,
            fs\<lparr>fs_data := (fs_data fs)(cf_inode f := overwrite pos b d)\<rparr>))"

definition c_ftell :: "c_file \<Rightarrow> nat" where
  "c_ftell f = cf_pos f"

definition c_fseek :: "nat \<Rightarrow> c_file \<Rightarrow> c_file" where
  "c_fseek pos f = f\<lparr>cf_pos := pos\<rparr>"

definition c_fseek_end :: "c_file \<Rightarrow> host_fs \<Rightarrow> c_file" where
  "c_fseek_end f fs = f\<lparr>cf_pos := length (fs_data fs (cf_inode f))\<rparr>"

section \<open>Well-formed file systems\<close>

text \<open>A name occurs once, names one inode of its own that has been handed out, and no directory.\<close>

definition fs_ok :: "host_fs \<Rightarrow> bool" where
  "fs_ok fs \<longleftrightarrow>
     distinct (map fst (fs_names fs)) \<and> distinct (map snd (fs_names fs))
     \<and> list_all (\<lambda>(p, i). i < fs_next fs \<and> \<not> is_dir p fs) (fs_names fs)"

text \<open>What the files hold, by place.\<close>

definition file_at :: "host_fs \<Rightarrow> place \<Rightarrow> bytes option" where
  "file_at fs p = map_option (fs_data fs) (map_of (fs_names fs) p)"

lemma map_of_filter_key:
  "map_of (filter (\<lambda>(q, i). P q) l) p = (if P p then map_of l p else None)"
  by (induction l) auto

lemma fs_ok_name: "fs_ok fs \<Longrightarrow> map_of (fs_names fs) p = Some i \<Longrightarrow> i < fs_next fs \<and> \<not> is_dir p fs"
  by (auto simp: fs_ok_def list_all_iff dest!: map_of_SomeD)

lemma fs_ok_inode_unique:
  assumes "fs_ok fs" and "map_of (fs_names fs) p = Some i" and "map_of (fs_names fs) q = Some i"
  shows "p = q"
proof -
  have "(p, i) \<in> set (fs_names fs)" "(q, i) \<in> set (fs_names fs)"
    using assms(2,3) by (auto dest: map_of_SomeD)
  moreover have "inj_on snd (set (fs_names fs))"
    using assms(1) by (simp add: fs_ok_def distinct_map)
  ultimately have "(p, i) = (q, i)"
    by (metis inj_onD snd_conv)
  then show ?thesis by simp
qed

lemma fs_ok_data: "fs_ok (fs\<lparr>fs_data := d\<rparr>) \<longleftrightarrow> fs_ok fs"
  by (simp add: fs_ok_def is_dir_def)

lemma fs_ok_subset:
  assumes "fs_ok fs" and "fs_names gs = filter P (fs_names fs)" and "set (fs_dirs gs) \<subseteq> set (fs_dirs fs)"
    and "fs_next gs = fs_next fs"
  shows "fs_ok gs"
  using assms by (auto simp: fs_ok_def is_dir_def list_all_iff distinct_map_filter)

lemma fs_ok_root [simp]: "fs_ok (fs\<lparr>g_root := r\<rparr>) \<longleftrightarrow> fs_ok fs"
  by (simp add: fs_ok_def is_dir_def)

lemma fs_ok_fewer_dirs: "fs_ok fs \<Longrightarrow> fs_ok (fs\<lparr>fs_dirs := filter P (fs_dirs fs)\<rparr>)"
  by (auto simp: fs_ok_def is_dir_def list_all_iff)

lemma fs_ok_add_dirs: "fs_ok fs \<Longrightarrow> fs_ok (add_dirs p fs)"
  by (auto simp: fs_ok_def add_dirs_def is_dir_def list_all_iff is_file_def)

lemma delete_filter: "AList.delete p l = filter (\<lambda>(q, i). q \<noteq> p) l"
  by (induction l) (auto simp: AList.delete_eq)

lemma fs_ok_create:
  assumes "fs_ok fs" and "map_of (fs_names fs) p = None" and "\<not> is_dir p fs"
  shows "fs_ok (fs\<lparr>fs_names := AList.update p (fs_next fs) (fs_names fs), fs_data := d,
      fs_next := fs_next fs + 1\<rparr>)"
proof -
  have new: "AList.update p v l = l @ [(p, v)]" if "map_of l p = None" for v :: nat and l
    using that by (induction l) (auto split: if_splits)
  have "p \<notin> fst ` set (fs_names fs)"
    using assms(2) by (simp add: map_of_eq_None_iff)
  moreover have "fs_next fs \<notin> snd ` set (fs_names fs)"
    using assms(1) by (force simp: fs_ok_def list_all_iff)
  moreover have "list_all (\<lambda>(p, i). i < fs_next fs + 1 \<and> \<not> is_dir p fs) (fs_names fs)"
    using assms(1) by (auto simp: fs_ok_def list_all_iff less_Suc_eq)
  ultimately show ?thesis
    using assms(1,3) by (simp add: fs_ok_def is_dir_def new [OF assms(2)])
qed

lemma fs_ok_open_place: "fs_ok fs \<Longrightarrow> \<not> is_dir p fs \<Longrightarrow> fs_ok (snd (open_place k upd p fs))"
  using fs_ok_create [of fs] by (auto simp: open_place_def fs_ok_data Let_def split: option.splits)

lemma fs_ok_open: "fs_ok fs \<Longrightarrow> fs_ok (snd (c_fopen granted path mode fs))"
  using fs_ok_open_place [of fs] by (auto simp: c_fopen_def split: option.splits)

lemma fs_ok_remove: "fs_ok fs \<Longrightarrow> fs_ok (snd (remove_place allowed path fs))"
  by (auto simp: remove_place_def delete_filter intro: fs_ok_subset fs_ok_fewer_dirs split: option.splits)

lemma fs_ok_tree: "fs_ok fs \<Longrightarrow> fs_ok (snd (remove_tree keeps p fs))"
  by (auto simp: remove_tree_def intro: fs_ok_subset)

end
