(* ===== verification/ArduinoFs.thy ===== *)
theory ArduinoFs
  imports HostFs
begin

text \<open>
  The emulated flash file system: \<open>fs_root.cpp\<close>, which maps SPIFFS paths under a host directory,
  \<open>arduino_fs.cpp\<close> and the \<open>File\<close> class of \<open>arduino/FS.h\<close>, over the host file system of
  \<open>HostFs\<close>. What the system grants or refuses is an argument: \<open>granted\<close> for an \<open>fopen\<close>,
  \<open>allowed\<close> for a removal, \<open>keeps\<close> for what \<open>remove_all\<close> leaves behind, \<open>listable\<close> for the root.
\<close>

section \<open>The root directory\<close>

text \<open>
  \<open>fresh\<close> is the temporary directory that \<open>make_fresh_temp_dir\<close> would create. \<open>set_root\<close> has
  recorded the path when \<open>create_directories\<close> fails (an exception: \<open>False\<close>).
\<close>

definition fs_init :: host_fs where
  "fs_init = \<lparr>g_root = [], fs_names = [], fs_data = (\<lambda>_. []), fs_next = 0, fs_dirs = []\<rparr>"

definition make_fresh_temp_dir :: "string \<Rightarrow> host_fs \<Rightarrow> string \<times> host_fs" where
  "make_fresh_temp_dir fresh fs = (fresh, add_dirs (leads_to fresh) fs)"

definition fs_set_root :: "bool \<Rightarrow> string \<Rightarrow> host_fs \<Rightarrow> bool \<times> host_fs" where
  "fs_set_root created path fs = create_dirs created path (fs\<lparr>g_root := path\<rparr>)"

definition fs_get_root :: "string \<Rightarrow> host_fs \<Rightarrow> string \<times> host_fs" where
  "fs_get_root fresh fs =
     (if g_root fs = [] then
        let (dir, fs1) = make_fresh_temp_dir fresh fs in (dir, fs1\<lparr>g_root := dir\<rparr>)
      else (g_root fs, fs))"

definition is_separator :: "char \<Rightarrow> bool" where
  "is_separator c \<longleftrightarrow> c = CHR ''/'' \<or> c = CHR 0x5C"

primrec strip_separators :: "string \<Rightarrow> string" where
  "strip_separators [] = []"
| "strip_separators (c # s) = (if is_separator c then strip_separators s else c # s)"

text \<open>\<open>path / rel\<close> for a relative path: one separator between the two.\<close>

definition path_join :: "string \<Rightarrow> string \<Rightarrow> string" where
  "path_join dir rel =
     (if dir = [] then rel
      else if last dir = CHR ''/'' then dir @ rel
      else dir @ CHR ''/'' # rel)"

definition fs_resolve :: "string \<Rightarrow> string \<Rightarrow> host_fs \<Rightarrow> string \<times> host_fs" where
  "fs_resolve fresh spiffs_path fs =
     (let rel = strip_separators spiffs_path; (dir, fs1) = fs_get_root fresh fs
      in (path_join dir rel, fs1))"

definition fs_reset_for_testing :: "string \<Rightarrow> host_fs \<Rightarrow> string \<times> host_fs" where
  "fs_reset_for_testing fresh fs =
     (let (dir, fs1) = make_fresh_temp_dir fresh fs in (dir, fs1\<lparr>g_root := dir\<rparr>))"

section \<open>\<open>File\<close>\<close>

record file_obj =
  fo_handle :: "c_file option"
  fo_path :: string

definition file_new :: file_obj where
  "file_new = \<lparr>fo_handle = None, fo_path = []\<rparr>"

definition file_of :: "c_file option \<Rightarrow> string \<Rightarrow> file_obj" where
  "file_of handle path = \<lparr>fo_handle = handle, fo_path = path\<rparr>"

declare file_of_def [simp]

definition file_close :: "file_obj \<Rightarrow> file_obj" where
  "file_close f = f\<lparr>fo_handle := None\<rparr>"

text \<open>Move assignment: (this, other); \<open>same\<close> says that both are one object.\<close>

definition file_move_assign :: "bool \<Rightarrow> file_obj \<Rightarrow> file_obj \<Rightarrow> file_obj \<times> file_obj" where
  "file_move_assign same this other =
     (if same then (this, other)
      else ((file_close this)\<lparr>fo_handle := fo_handle other, fo_path := fo_path other\<rparr>,
            other\<lparr>fo_handle := None, fo_path := []\<rparr>))"

definition file_move_ctor :: "file_obj \<Rightarrow> file_obj \<times> file_obj" where
  "file_move_ctor other = file_move_assign False file_new other"

definition file_destroy :: "file_obj \<Rightarrow> file_obj" where
  "file_destroy f = file_close f"

definition file_is_open :: "file_obj \<Rightarrow> bool" where
  "file_is_open f \<longleftrightarrow> fo_handle f \<noteq> None"

definition current_pos :: "file_obj \<Rightarrow> nat" where
  "current_pos f = (case fo_handle f of None \<Rightarrow> 0 | Some h \<Rightarrow> c_ftell h)"

text \<open>The position is saved before the seek to the end and restored after it.\<close>

definition total_size :: "file_obj \<Rightarrow> host_fs \<Rightarrow> nat" where
  "total_size f fs = (case fo_handle f of None \<Rightarrow> 0 | Some h \<Rightarrow> c_ftell (c_fseek_end h fs))"

definition file_available :: "file_obj \<Rightarrow> host_fs \<Rightarrow> int" where
  "file_available f fs =
     (case fo_handle f of
        None \<Rightarrow> 0
      | Some h \<Rightarrow> sint (word_of_int (int (total_size f fs) - int (current_pos f)) :: 32 word))"

definition file_read :: "file_obj \<Rightarrow> host_fs \<Rightarrow> int \<times> file_obj" where
  "file_read f fs =
     (case fo_handle f of
        None \<Rightarrow> (- 1, f)
      | Some h \<Rightarrow> let (c, h1) = c_fgetc h fs in (c, f\<lparr>fo_handle := Some h1\<rparr>))"

definition file_peek :: "file_obj \<Rightarrow> host_fs \<Rightarrow> int \<times> file_obj" where
  "file_peek f fs =
     (case fo_handle f of
        None \<Rightarrow> (- 1, f)
      | Some h \<Rightarrow>
          let cur = c_ftell h; (c, h1) = c_fgetc h fs
          in (c, f\<lparr>fo_handle := Some (c_fseek cur h1)\<rparr>))"

definition file_write_byte :: "u8 \<Rightarrow> file_obj \<times> host_fs \<Rightarrow> nat \<times> file_obj \<times> host_fs" where
  "file_write_byte b st =
     (let (f, fs) = st in
      case fo_handle f of
        None \<Rightarrow> (0, f, fs)
      | Some h \<Rightarrow>
          let (ok, h1, fs1) = c_fputc b h fs
          in (if ok then 1 else 0, f\<lparr>fo_handle := Some h1\<rparr>, fs1))"

text \<open>\<open>File\<close> overrides only the byte \<open>write\<close>: buffers go through the default loop of \<open>Print\<close>.\<close>

definition file_write :: "bytes \<Rightarrow> file_obj \<times> host_fs \<Rightarrow> nat \<times> file_obj \<times> host_fs" where
  "file_write bs st = print_default_write file_write_byte bs st"

definition file_flush :: "file_obj \<Rightarrow> file_obj" where
  "file_flush f = f"

definition file_read_buf :: "nat \<Rightarrow> file_obj \<Rightarrow> host_fs \<Rightarrow> int \<times> bytes \<times> file_obj" where
  "file_read_buf n f fs =
     (case fo_handle f of
        None \<Rightarrow> (0, [], f)
      | Some h \<Rightarrow>
          let (got, h1) = c_fread n h fs
          in (int_of_size (length got), got, f\<lparr>fo_handle := Some h1\<rparr>))"

definition bytes_left :: "file_obj \<Rightarrow> host_fs \<Rightarrow> nat" where
  "bytes_left f fs =
     (case fo_handle f of None \<Rightarrow> 0 | Some h \<Rightarrow> length (fs_data fs (cf_inode h)) - cf_pos h)"

lemma file_read_progress: "file_read f fs = (c, f1) \<Longrightarrow> 0 \<le> c \<Longrightarrow> bytes_left f1 fs < bytes_left f fs"
  by (auto simp: file_read_def c_fgetc_def bytes_left_def Let_def split: option.splits if_splits)

function read_string_loop :: "string \<Rightarrow> file_obj \<Rightarrow> host_fs \<Rightarrow> string \<times> file_obj" where
  "read_string_loop result f fs =
     (let (c, f1) = file_read f fs in
      if 0 \<le> c then read_string_loop (result @ [char_of c]) f1 fs else (result, f1))"
  by pat_completeness auto

termination
  by (relation "measure (\<lambda>(r, f, fs). bytes_left f fs)") (auto intro: file_read_progress [OF sym])

declare read_string_loop.simps [simp del]

definition file_readString :: "file_obj \<Rightarrow> host_fs \<Rightarrow> arduino_string \<times> file_obj" where
  "file_readString f fs = (let (s, f1) = read_string_loop [] f fs in (String s, f1))"

definition file_size :: "file_obj \<Rightarrow> host_fs \<Rightarrow> nat" where
  "file_size f fs = (case fo_handle f of None \<Rightarrow> 0 | Some h \<Rightarrow> total_size f fs)"

definition file_name :: "file_obj \<Rightarrow> arduino_string" where
  "file_name f = string_of_cstr (Some (fo_path f))"

section \<open>\<open>SPIFFS\<close>\<close>

definition to_binary_fopen_mode :: "c_string \<Rightarrow> string" where
  "to_binary_fopen_mode mode =
     (let m = (case mode of None \<Rightarrow> ''r'' | Some t \<Rightarrow> c_view t) in
      if std_find m ''b'' 0 = None then m @ ''b'' else m)"

definition spiffs_begin :: "string \<Rightarrow> host_fs \<Rightarrow> bool \<times> host_fs" where
  "spiffs_begin fresh fs = (True, snd (fs_get_root fresh fs))"

definition spiffs_end :: "host_fs \<Rightarrow> host_fs" where
  "spiffs_end fs = fs"

text \<open>The loop of \<open>format\<close>: \<open>ec\<close> says whether the error code is set.\<close>

primrec format_loop :: "(place \<Rightarrow> bool) \<Rightarrow> place list \<Rightarrow> bool \<Rightarrow> host_fs \<Rightarrow> bool \<times> host_fs" where
  "format_loop keeps [] ec fs = (ec, fs)"
| "format_loop keeps (p # ps) ec fs =
     (let (ec1, fs1) = remove_tree keeps p fs in format_loop keeps ps ec1 fs1)"

definition spiffs_format :: "bool \<Rightarrow> (place \<Rightarrow> bool) \<Rightarrow> string \<Rightarrow> host_fs \<Rightarrow> bool \<times> host_fs" where
  "spiffs_format listable keeps fresh fs =
     (let (dir, fs1) = fs_get_root fresh fs;
          (ec, fs2) =
            (if listable \<and> is_dir (leads_to dir) fs1
             then format_loop keeps (entries_of (leads_to dir) fs1) False fs1 else (True, fs1))
      in (\<not> ec, fs2))"

definition spiffs_open ::
  "bool \<Rightarrow> string \<Rightarrow> c_string \<Rightarrow> c_string \<Rightarrow> host_fs \<Rightarrow> file_obj \<times> host_fs" where
  "spiffs_open granted fresh path mode fs =
     (let (hostPath, fs1) = fs_resolve fresh (cstr_or_empty path) fs;
          (h, fs2) = c_fopen granted (c_view hostPath) (to_binary_fopen_mode mode) fs1
      in (file_of h (cstr_or_empty path), fs2))"

definition spiffs_exists :: "string \<Rightarrow> c_string \<Rightarrow> host_fs \<Rightarrow> bool \<times> host_fs" where
  "spiffs_exists fresh path fs =
     (let (p, fs1) = fs_resolve fresh (cstr_or_empty path) fs in (place_exists p fs1, fs1))"

definition spiffs_remove :: "bool \<Rightarrow> string \<Rightarrow> c_string \<Rightarrow> host_fs \<Rightarrow> bool \<times> host_fs" where
  "spiffs_remove allowed fresh path fs =
     (let (p, fs1) = fs_resolve fresh (cstr_or_empty path) fs in remove_place allowed p fs1)"

definition spiffs_totalBytes :: nat where
  "spiffs_totalBytes = 4 * 1024 * 1024"

record fs_info =
  info_total :: nat
  info_used :: nat

text \<open>\<open>None\<close>: the iterator's constructor throws.\<close>

definition spiffs_info :: "bool \<Rightarrow> string \<Rightarrow> host_fs \<Rightarrow> fs_info option \<times> host_fs" where
  "spiffs_info listable fresh fs =
     (let (dir, fs1) = fs_get_root fresh fs in
      (if listable \<and> is_dir (leads_to dir) fs1
       then Some \<lparr>info_total = spiffs_totalBytes,
           info_used = sum_list (map (\<lambda>(p, i). length (fs_data fs1 i))
             (filter (\<lambda>(p, i). strict_suffix (leads_to dir) p) (fs_names fs1)))\<rparr>
       else None, fs1))"

section \<open>Reading back what was written\<close>

lemma of_char_char_of_uint: "(of_char (char_of (uint (b :: u8)) :: char) :: u8) = b"
proof -
  have "uint b < 2 ^ LENGTH(8)"
    by (rule uint_lt2p)
  then have "uint b mod 256 = uint b"
    by simp
  then have "of_char (char_of (uint b) :: char) = uint b"
    by (simp add: of_char_of)
  moreover have "(of_char (char_of (uint b) :: char) :: u8) = of_int (of_char (char_of (uint b) :: char))"
    by (rule of_int_of_char [symmetric])
  ultimately show ?thesis
    by (simp only: word_of_int_uint)
qed

text \<open>The text that a stretch of bytes reads as.\<close>

definition text_of :: "bytes \<Rightarrow> string" where
  "text_of bs = map (\<lambda>b. char_of (uint b)) bs"

lemma bytes_of_text_of [simp]: "bytes_of (text_of bs) = bs"
  by (induction bs) (simp_all add: text_of_def of_char_char_of_uint)

lemma read_string_loop_rest:
  "fo_handle f = Some h \<Longrightarrow> cf_reads h \<Longrightarrow> cf_pos h \<le> length (fs_data fs (cf_inode h)) \<Longrightarrow>
     read_string_loop result f fs =
       (result @ text_of (drop (cf_pos h) (fs_data fs (cf_inode h))),
        f\<lparr>fo_handle := Some (h\<lparr>cf_pos := length (fs_data fs (cf_inode h))\<rparr>)\<rparr>)"
proof (induction result f fs arbitrary: h rule: read_string_loop.induct)
  case (1 result f fs)
  let ?d = "fs_data fs (cf_inode h)"
  show ?case
  proof (cases "cf_pos h < length ?d")
    case False
    then have "cf_pos h = length ?d"
      using "1.prems"(3) by simp
    then show ?thesis
      using "1.prems" by (simp add: read_string_loop.simps [of result f fs] file_read_def c_fgetc_def text_of_def)
  next
    case True
    let ?h1 = "h\<lparr>cf_pos := cf_pos h + 1\<rparr>"
    let ?f1 = "f\<lparr>fo_handle := Some ?h1\<rparr>"
    have one: "file_read f fs = (uint (?d ! cf_pos h), ?f1)"
      using True "1.prems"(1,2) by (simp add: file_read_def c_fgetc_def)
    have "drop (cf_pos h) ?d = ?d ! cf_pos h # drop (cf_pos h + 1) ?d"
      using True by (simp add: Cons_nth_drop_Suc)
    moreover have "read_string_loop result f fs = read_string_loop (result @ [char_of (uint (?d ! cf_pos h))]) ?f1 fs"
      using one by (simp add: read_string_loop.simps [of result f fs])
    moreover have "read_string_loop (result @ [char_of (uint (?d ! cf_pos h))]) ?f1 fs =
        (result @ [char_of (uint (?d ! cf_pos h))] @ text_of (drop (cf_pos h + 1) ?d),
         f\<lparr>fo_handle := Some (h\<lparr>cf_pos := length ?d\<rparr>)\<rparr>)"
      using "1.IH" [OF one [symmetric] refl, of ?h1] "1.prems" True by simp
    ultimately show ?thesis
      by (simp add: text_of_def)
  qed
qed

lemma overwrite_end: "overwrite (length d) b d = d @ [b]"
  by (simp add: overwrite_def)

text \<open>Writing at the end, which is where a stream opened for appending always writes.\<close>

lemma file_write_end:
  "fo_handle f = Some h \<Longrightarrow> cf_writes h \<Longrightarrow>
     cf_appends h \<or> cf_pos h = length (fs_data fs (cf_inode h)) \<Longrightarrow>
     \<exists>f2. file_write bs (f, fs) =
       (length bs, f2, fs\<lparr>fs_data := (fs_data fs)(cf_inode h := fs_data fs (cf_inode h) @ bs)\<rparr>)"
proof (induction bs arbitrary: f h fs)
  case Nil
  then show ?case
    by (simp add: file_write_def)
next
  case (Cons b bs)
  let ?d = "fs_data fs (cf_inode h)"
  let ?h1 = "h\<lparr>cf_pos := length ?d + 1\<rparr>"
  let ?f1 = "f\<lparr>fo_handle := Some ?h1\<rparr>"
  let ?fs1 = "fs\<lparr>fs_data := (fs_data fs)(cf_inode h := ?d @ [b])\<rparr>"
  have one: "file_write_byte b (f, fs) = (1, ?f1, ?fs1)"
    using Cons.prems by (auto simp: file_write_byte_def c_fputc_def overwrite_end Let_def)
  have "fo_handle ?f1 = Some ?h1" "cf_writes ?h1" "cf_pos ?h1 = length (fs_data ?fs1 (cf_inode ?h1))"
    using Cons.prems(2) by simp_all
  from Cons.IH [OF this(1,2) disjI2, OF this(3), unfolded file_write_def] obtain f2 where
    "print_default_write file_write_byte bs (?f1, ?fs1) =
       (length bs, f2, ?fs1\<lparr>fs_data := (fs_data ?fs1)(cf_inode ?h1 := fs_data ?fs1 (cf_inode ?h1) @ bs)\<rparr>)"
    by blast
  then have "file_write (b # bs) (f, fs) =
      (1 + length bs, f2, ?fs1\<lparr>fs_data := (fs_data ?fs1)(cf_inode h := ?d @ [b] @ bs)\<rparr>)"
    by (simp add: file_write_def one Let_def)
  moreover have "(fs_data ?fs1)(cf_inode h := ?d @ [b] @ bs) = (fs_data fs)(cf_inode h := ?d @ b # bs)"
    by (simp add: fun_eq_iff)
  ultimately show ?case
    by (simp add: fun_upd_def)
qed

section \<open>Where a path leads\<close>

lemma strip_separators_dropWhile: "strip_separators p = dropWhile is_separator p"
  by (induction p) simp_all

lemma components_dotdot: "components (CHR ''.'' # CHR ''.'' # CHR ''/'' # x) = ''..'' # components x"
  by (simp add: components_def)

lemma to_binary_w: "to_binary_fopen_mode (Some ''w'') = ''wb''"
  by code_simp

lemma to_binary_r: "to_binary_fopen_mode (Some ''r'') = ''rb''"
  by code_simp

lemma to_binary_a: "to_binary_fopen_mode (Some ''a'') = ''ab''"
  by code_simp

lemma parse_ab: "parse_mode ''ab'' = Some (ModeA, False)"
  by (simp add: parse_mode_def)

lemma parse_wb: "parse_mode ''wb'' = Some (ModeW, False)"
  by (simp add: parse_mode_def)

lemma parse_rb: "parse_mode ''rb'' = Some (ModeR, False)"
  by (simp add: parse_mode_def)

section \<open>Properties\<close>

text \<open>
  What the modem writes to a file it reads back. Opening a path for writing, writing any
  bytes (NULs and line ends included: the mode is always binary) and opening the same path for
  reading yields, with \<open>readString\<close>, exactly those bytes, whatever the file held before; \<open>write\<close>
  reports them all taken.
\<close>

theorem file_write_read_roundtrip:
  assumes "fresh \<noteq> []"
    and "spiffs_open True fresh path (Some ''w'') fs = (f, fs1)" and "file_is_open f"
    and "file_write bs (f, fs1) = (n, f2, fs2)"
    and "spiffs_open True fresh path (Some ''r'') fs2 = (g, fs3)"
  shows "file_is_open g \<and> n = length bs \<and> bytes_of (value_of (fst (file_readString g fs3))) = bs"
proof -
  obtain dir fs0 where root: "fs_get_root fresh fs = (dir, fs0)"
    by (cases "fs_get_root fresh fs")
  let ?rel = "strip_separators (cstr_or_empty path)"
  let ?key = "c_view (path_join dir ?rel)"
  have g0: "g_root fs0 = dir" "dir \<noteq> []"
    using root assms(1) by (auto simp: fs_get_root_def make_fresh_temp_dir_def split: if_splits)
  obtain h where h: "c_fopen True ?key ''wb'' fs0 = (Some h, fs1)" and f: "fo_handle f = Some h"
    using assms(2,3) root
    by (auto simp: spiffs_open_def fs_resolve_def to_binary_w file_is_open_def Let_def split: prod.splits)
  obtain p where p: "find_place ?key fs0 = Some p"
    using h by (auto simp: c_fopen_def split: option.splits)
  have dirs1: "fs_dirs fs1 = fs_dirs fs0"
    using h by (auto simp: c_fopen_def open_place_def Let_def split: option.splits if_splits)
  have nodir: "\<not> is_dir p fs1"
    and name: "map_of (fs_names fs1) p = Some (cf_inode h)"
    and empty: "fs_data fs1 (cf_inode h) = []" and mode: "cf_writes h" "\<not> cf_appends h" "cf_pos h = 0"
    and g1: "g_root fs1 = dir"
    using h g0 p
    by (auto simp: c_fopen_def open_place_def parse_wb c_file_of_def is_dir_def Let_def update_conv'
        split: option.splits if_splits)
  have w: "n = length bs" "fs2 = fs1\<lparr>fs_data := (fs_data fs1)(cf_inode h := bs)\<rparr>"
    using file_write_end [OF f mode(1), of fs1 bs] empty mode(3) assms(4) by auto
  have root2: "fs_get_root fresh fs2 = (dir, fs2)"
    using g1 g0(2) w(2) by (simp add: fs_get_root_def)
  let ?r = "c_file_of ModeR False (cf_inode h)"
  have "c_fopen True ?key ''rb'' fs2 = (Some ?r, fs2)"
    using nodir name w(2) p dirs1 find_place_cong [of fs2 fs0 ?key]
    by (simp add: c_fopen_def open_place_def parse_rb is_dir_def)
  then have g: "fo_handle g = Some ?r" and fs3: "fs3 = fs2"
    using assms(5) root2 by (auto simp: spiffs_open_def fs_resolve_def to_binary_r Let_def)
  have "fs_data fs3 (cf_inode ?r) = bs"
    by (simp add: fs3 w(2) c_file_of_def)
  then have "read_string_loop [] g fs3 =
      (text_of bs, g\<lparr>fo_handle := Some (?r\<lparr>cf_pos := length bs\<rparr>)\<rparr>)"
    using read_string_loop_rest [OF g, of fs3 "[]"] by (simp add: c_file_of_def)
  then show ?thesis
    using g w(1) by (simp add: file_readString_def file_is_open_def)
qed

theorem file_write_read_roundtrip_witness:
  "\<exists>g fs3. bytes_of (value_of (fst (file_readString g fs3))) = [65, 0, 13, 10]"
proof -
  let ?o = "spiffs_open True ''/tmp/z'' (Some ''/zconfig.txt'') (Some ''w'') fs_init"
  let ?w = "file_write [65, 0, 13, 10] ?o"
  let ?r = "spiffs_open True ''/tmp/z'' (Some ''/zconfig.txt'') (Some ''r'') (snd (snd ?w))"
  have o: "?o = (fst ?o, snd ?o)" and w: "file_write [65, 0, 13, 10] (fst ?o, snd ?o) = (fst ?w, fst (snd ?w), snd (snd ?w))"
    and r: "?r = (fst ?r, snd ?r)"
    by simp_all
  have opened: "file_is_open (fst ?o)"
    by code_simp
  show ?thesis
    using file_write_read_roundtrip [OF _ o opened w r] by auto
qed

text \<open>
  A SPIFFS path is resolved under the root by text alone. Every leading slash or backslash is
  dropped and the rest appended to the root after one separator, so paths that differ in leading
  separators only are one file, and the result always begins with the root.
\<close>

theorem resolve_appends_to_root:
  assumes "g_root fs \<noteq> []"
  shows "fs_resolve fresh p fs =
      (if last (g_root fs) = CHR ''/'' then g_root fs @ dropWhile is_separator p
       else g_root fs @ CHR ''/'' # dropWhile is_separator p, fs)
    \<and> prefix (g_root fs) (fst (fs_resolve fresh p fs))
    \<and> fs_resolve fresh (CHR ''/'' # p) fs = fs_resolve fresh p fs"
  using assms
  by (simp add: fs_resolve_def fs_get_root_def path_join_def strip_separators_dropWhile is_separator_def)

theorem resolve_appends_to_root_witness:
  "fst (fs_resolve ''t'' ''/zphonebook.txt'' (fs_init\<lparr>g_root := ''/d''\<rparr>)) = ''/d/zphonebook.txt''"
  using resolve_appends_to_root [of "fs_init\<lparr>g_root := ''/d''\<rparr>" "''t''" "''/zphonebook.txt''"]
  by (simp add: is_separator_def)

text \<open>
  The root does not confine. A path whose first component is \<open>..\<close> leads, walked component by
  component, to where its rest leads from the directory above the root: the prefix that
  \<open>resolve\<close> puts before it is stepped out of.
\<close>

theorem resolve_does_not_confine:
  assumes "g_root fs \<noteq> []" and "last (g_root fs) \<noteq> CHR ''/''"
  shows "leads_to (fst (fs_resolve fresh (CHR ''/'' # ''../'' @ x) fs))
    = foldl walk (tl (leads_to (g_root fs))) (components x)"
proof -
  have "fst (fs_resolve fresh (CHR ''/'' # ''../'' @ x) fs) = g_root fs @ CHR ''/'' # ''../'' @ x"
    using assms by (simp add: fs_resolve_def fs_get_root_def path_join_def is_separator_def)
  then show ?thesis
    using components_join [of "g_root fs" "''../'' @ x"] components_dotdot [of x]
    by (simp add: leads_to_def walk_def)
qed

theorem resolve_does_not_confine_witness:
  "leads_to (fst (fs_resolve ''t'' ''/../passwd'' (fs_init\<lparr>g_root := ''/home/z''\<rparr>))) = [''passwd'', ''home'']"
proof -
  have "leads_to (fst (fs_resolve ''t'' (CHR ''/'' # ''../'' @ ''passwd'') (fs_init\<lparr>g_root := ''/home/z''\<rparr>)))
      = foldl walk (tl (leads_to (g_root (fs_init\<lparr>g_root := ''/home/z''\<rparr>)))) (components ''passwd'')"
    by (rule resolve_does_not_confine) (simp_all add: fs_init_def)
  then show ?thesis
    by (simp add: leads_to_def components_def walk_def fs_init_def)
qed

lemma format_loop_snoc:
  "format_loop keeps (ps @ [q]) ec fs = remove_tree keeps q (snd (format_loop keeps ps ec fs))"
  by (induction ps arbitrary: ec fs) (auto simp: split_def Let_def)

lemma remove_tree_places: "set (places (snd (remove_tree keeps p fs))) \<subseteq> set (places fs)"
  by (auto simp: remove_tree_def places_def)

lemma format_loop_places: "set (places (snd (format_loop keeps ps ec fs))) \<subseteq> set (places fs)"
proof (induction ps arbitrary: ec fs)
  case Nil
  show ?case by simp
next
  case (Cons p ps)
  from subset_trans [OF Cons remove_tree_places [of keeps p fs]]
  show ?case by (simp only: format_loop.simps split_def Let_def)
qed

lemma remove_tree_keeps:
  "keeps p \<Longrightarrow> map_of (fs_names (snd (remove_tree keeps t fs))) p = map_of (fs_names fs) p"
  by (simp add: remove_tree_def map_of_filter_key)

lemma format_loop_keeps:
  "keeps p \<Longrightarrow> map_of (fs_names (snd (format_loop keeps ps ec fs))) p = map_of (fs_names fs) p"
  by (induction ps arbitrary: ec fs) (simp_all add: split_def Let_def remove_tree_keeps)

text \<open>
  \<open>format\<close> reports the last removal only. Each entry overwrites the error code of the one
  before, so when nothing of the last entry is kept the answer is true; a file that could not be
  deleted under another entry is then still there, with its content.
\<close>

theorem format_reports_last_removal_only:
  assumes "fs_get_root fresh fs = (dir, fs1)" and "is_dir (leads_to dir) fs1"
    and "entries_of (leads_to dir) fs1 = ps @ [q]"
    and "list_all (\<lambda>e. suffix q e \<longrightarrow> \<not> keeps e) (places fs1)" and "keeps p"
  shows "fst (spiffs_format True keeps fresh fs) = True
    \<and> map_of (fs_names (snd (spiffs_format True keeps fresh fs))) p = map_of (fs_names fs1) p"
proof -
  have "\<not> fst (format_loop keeps (ps @ [q]) False fs1)"
    using assms(4) format_loop_places [of keeps ps False fs1]
    unfolding format_loop_snoc by (auto simp: remove_tree_def list_ex_iff list_all_iff)
  then show ?thesis
    using assms(1-3) format_loop_keeps [of keeps p "ps @ [q]" False fs1, OF assms(5)]
    by (simp add: spiffs_format_def split_def)
qed

theorem format_reports_last_removal_only_witness:
  "fst (spiffs_format True (\<lambda>e. e = [''a'', ''d'']) ''t''
     (fs_init\<lparr>g_root := ''/d'', fs_names := [([''a'', ''d''], 0), ([''b'', ''d''], 1)], fs_next := 2,
        fs_dirs := [[''d'']]\<rparr>)) = True"
proof -
  let ?fs = "fs_init\<lparr>g_root := ''/d'', fs_names := [([''a'', ''d''], 0), ([''b'', ''d''], 1)], fs_next := 2,
      fs_dirs := [[''d'']]\<rparr>"
  have dir: "leads_to ''/d'' = [''d'']"
    by (simp add: leads_to_def components_def walk_def)
  have root: "fs_get_root ''t'' ?fs = (''/d'', ?fs)"
    by (simp add: fs_get_root_def)
  have ents: "entries_of (leads_to ''/d'') ?fs = [[''a'', ''d'']] @ [[''b'', ''d'']]"
    by (simp add: entries_of_def places_def dir fs_init_def strict_suffix_def suffix_Cons)
  show ?thesis
    by (rule format_reports_last_removal_only [OF root _ ents, where p = "[''a'', ''d'']", THEN conjunct1])
      (simp_all add: dir is_dir_def places_def fs_init_def suffix_Cons)
qed

text \<open>
  Reads of a file one after the other: what each answers, and the bytes it stores. The reference
  reads the bytes that are left; a closed file has none.
\<close>

datatype file_op = FileAvailable | FilePeek | FileRead | FileReadBuf nat | FileReadString

primrec file_step :: "host_fs \<Rightarrow> file_op \<Rightarrow> file_obj \<Rightarrow> (int \<times> bytes) \<times> file_obj" where
  "file_step fs FileAvailable f = ((file_available f fs, []), f)"
| "file_step fs FilePeek f = (let (c, f1) = file_peek f fs in ((c, []), f1))"
| "file_step fs FileRead f = (let (c, f1) = file_read f fs in ((c, []), f1))"
| "file_step fs (FileReadBuf len) f = (let (n, buf, f1) = file_read_buf len f fs in ((n, buf), f1))"
| "file_step fs FileReadString f =
     (let (t, f1) = file_readString f fs in ((int (length (value_of t)), bytes_of (value_of t)), f1))"

primrec rest_step :: "file_op \<Rightarrow> bytes \<Rightarrow> (int \<times> bytes) \<times> bytes" where
  "rest_step FileAvailable rest = ((int (length rest), []), rest)"
| "rest_step FilePeek rest = ((head_or_neg1 rest, []), rest)"
| "rest_step FileRead rest = ((head_or_neg1 rest, []), tl rest)"
| "rest_step (FileReadBuf len) rest = ((int (min len (length rest)), take len rest), drop len rest)"
| "rest_step FileReadString rest = ((int (length rest), rest), [])"

definition file_rest :: "file_obj \<Rightarrow> host_fs \<Rightarrow> bytes" where
  "file_rest f fs = (case fo_handle f of None \<Rightarrow> [] | Some h \<Rightarrow> drop (cf_pos h) (fs_data fs (cf_inode h)))"

text \<open>Closed, or open for reading, not sought past the end, on less than 2 GiB.\<close>

definition file_ready :: "file_obj \<Rightarrow> host_fs \<Rightarrow> bool" where
  "file_ready f fs \<longleftrightarrow>
     (case fo_handle f of
        None \<Rightarrow> True
      | Some h \<Rightarrow> cf_reads h \<and> cf_pos h \<le> length (fs_data fs (cf_inode h))
          \<and> length (fs_data fs (cf_inode h)) < 2147483648)"

lemma file_available_rest:
  assumes "file_ready f fs"
  shows "file_available f fs = int (length (file_rest f fs))"
proof (cases "fo_handle f")
  case None
  then show ?thesis
    by (simp add: file_available_def file_rest_def)
next
  case (Some h)
  let ?d = "fs_data fs (cf_inode h)"
  have pos: "cf_pos h \<le> length ?d" and small: "length ?d < 2147483648"
    using assms Some by (simp_all add: file_ready_def)
  have diff: "int (length ?d) - int (cf_pos h) = int (length ?d - cf_pos h)"
    using pos by (rule of_nat_diff [symmetric])
  have size: "total_size f fs = length ?d" "current_pos f = cf_pos h"
    by (simp_all add: Some total_size_def current_pos_def c_ftell_def c_fseek_end_def)
  have "file_available f fs = int_of_size (length ?d - cf_pos h)"
    by (simp only: file_available_def Some option.case size diff of_int_of_nat_eq int_of_size_def)
  then show ?thesis
    using small by (simp add: int_of_size_small file_rest_def Some)
qed

lemma file_readString_rest:
  assumes "file_ready f fs"
  shows "bytes_of (value_of (fst (file_readString f fs))) = file_rest f fs"
    and "length (value_of (fst (file_readString f fs))) = length (file_rest f fs)"
    and "file_rest (snd (file_readString f fs)) fs = [] \<and> file_ready (snd (file_readString f fs)) fs"
proof -
  have run: "file_readString f fs = (String (text_of (file_rest f fs)), case fo_handle f of None \<Rightarrow> f
      | Some h \<Rightarrow> f\<lparr>fo_handle := Some (h\<lparr>cf_pos := length (fs_data fs (cf_inode h))\<rparr>)\<rparr>)"
  proof (cases "fo_handle f")
    case None
    then show ?thesis
      by (simp add: file_readString_def read_string_loop.simps file_read_def file_rest_def text_of_def)
  next
    case (Some h)
    with assms show ?thesis
      using read_string_loop_rest [OF Some, of fs "[]"]
      by (simp add: file_readString_def file_rest_def file_ready_def)
  qed
  show "bytes_of (value_of (fst (file_readString f fs))) = file_rest f fs"
    "length (value_of (fst (file_readString f fs))) = length (file_rest f fs)"
    unfolding run by (simp_all add: text_of_def [of "file_rest f fs"] del: bytes_of_text_of) (simp add: text_of_def [symmetric])
  show "file_rest (snd (file_readString f fs)) fs = [] \<and> file_ready (snd (file_readString f fs)) fs"
    using assms by (auto simp: run file_rest_def file_ready_def split: option.split)
qed

lemma head_or_neg1_drop: "head_or_neg1 (drop n d) = (if n < length d then uint (d ! n) else - 1)"
  by (simp add: Cons_nth_drop_Suc [symmetric])

lemma file_step_rest:
  assumes "file_ready f fs"
  shows "rest_step opr (file_rest f fs) = (fst (file_step fs opr f), file_rest (snd (file_step fs opr f)) fs)
    \<and> file_ready (snd (file_step fs opr f)) fs"
proof (cases opr)
  case FileAvailable
  then show ?thesis
    using assms by (simp add: file_available_rest)
next
  case FileReadString
  then show ?thesis
    using file_readString_rest [OF assms] by (simp add: split_def Let_def)
next
  case FilePeek
  then show ?thesis
    using assms by (auto simp: file_peek_def c_fgetc_def c_fseek_def c_ftell_def file_rest_def file_ready_def
        head_or_neg1_drop Let_def split: option.split)
next
  case FileRead
  then show ?thesis
    using assms by (auto simp: file_read_def c_fgetc_def file_rest_def file_ready_def
        head_or_neg1_drop tl_drop drop_Suc Let_def split: option.split)
next
  case (FileReadBuf len)
  then show ?thesis
    using assms by (auto simp: file_read_buf_def c_fread_def file_rest_def file_ready_def int_of_size_small
        min_def Let_def add.commute split: option.split)
qed

lemma file_run_rest:
  "file_ready f fs \<Longrightarrow>
     source_run rest_step oprs (file_rest f fs)
       = (fst (source_run (file_step fs) oprs f), file_rest (snd (source_run (file_step fs) oprs f)) fs)"
  using file_step_rest by (induction oprs arbitrary: f) (simp_all add: split_def Let_def)

text \<open>
  C22: \<open>available\<close> counts what the reads deliver. Whatever \<open>available\<close>, \<open>peek\<close>, \<open>read\<close>, \<open>read\<close>
  into a buffer and \<open>readString\<close> follow one another on a file that is closed, or open for reading and
  not read past its end (below 2 GiB), each answers what a reader of the list of bytes left answers,
  and leaves what he leaves. So a buffer of \<open>len\<close> bytes gets the next \<open>len\<close>, or all that are
  left, in order, and the count says how many; \<open>readString\<close> gets exactly as many as \<open>available\<close>
  said, after which \<open>available\<close> is 0 and \<open>read\<close> answers -1; \<open>peek\<close> answers what \<open>read\<close> would and
  leaves the position alone.
\<close>

theorem file_reads_what_is_available:
  assumes "file_ready f fs"
  shows "source_run rest_step oprs (file_rest f fs)
      = (fst (source_run (file_step fs) oprs f), file_rest (snd (source_run (file_step fs) oprs f)) fs)
    \<and> fst (file_read_buf len f fs) = int (min len (length (file_rest f fs)))
    \<and> fst (snd (file_read_buf len f fs)) = take len (file_rest f fs)
    \<and> file_available (snd (snd (file_read_buf len f fs))) fs = file_available f fs - fst (file_read_buf len f fs)
    \<and> file_available f fs = int (length (value_of (fst (file_readString f fs))))
    \<and> bytes_of (value_of (fst (file_readString f fs))) = file_rest f fs
    \<and> file_available (snd (file_readString f fs)) fs = 0
    \<and> fst (file_read (snd (file_readString f fs)) fs) = - 1
    \<and> fst (file_peek f fs) = fst (file_read f fs)
    \<and> file_rest (snd (file_peek f fs)) fs = file_rest f fs"
proof -
  note buf = file_step_rest [OF assms, of "FileReadBuf len"] and peek = file_step_rest [OF assms, of FilePeek]
    and one = file_step_rest [OF assms, of FileRead] and all = file_readString_rest [OF assms]
  have "fst (file_read_buf len f fs) = int (min len (length (file_rest f fs)))"
    "fst (snd (file_read_buf len f fs)) = take len (file_rest f fs)"
    "file_rest (snd (snd (file_read_buf len f fs))) fs = drop len (file_rest f fs)"
    "file_ready (snd (snd (file_read_buf len f fs))) fs"
    using buf by (simp_all add: split_def Let_def)
  moreover have "fst (file_read (snd (file_readString f fs)) fs) = - 1"
    using file_step_rest [of "snd (file_readString f fs)" fs FileRead] all(3)
    by (simp add: split_def Let_def head_or_neg1_def)
  moreover have "fst (file_peek f fs) = fst (file_read f fs)" "file_rest (snd (file_peek f fs)) fs = file_rest f fs"
    using peek one by (auto simp: split_def Let_def)
  ultimately show ?thesis
    using file_run_rest [OF assms, of oprs] all assms by (simp add: file_available_rest)
qed

theorem file_reads_what_is_available_witness:
  "fst (source_run (file_step (fs_init\<lparr>fs_data := \<lambda>_. [1, 2, 3, 4, 5]\<rparr>))
       [FileAvailable, FileRead, FileReadBuf 2, FilePeek, FileReadBuf 9, FileAvailable, FileReadBuf 1]
       \<lparr>fo_handle = Some \<lparr>cf_inode = 0, cf_pos = 1, cf_reads = True, cf_writes = False, cf_appends = False\<rparr>,
        fo_path = ''/f''\<rparr>)
     = [(4, []), (2, []), (2, [3, 4]), (5, []), (1, [5]), (0, []), (0, [])]"
proof -
  let ?h = "\<lparr>cf_inode = 0, cf_pos = 1, cf_reads = True, cf_writes = False, cf_appends = False\<rparr>"
  let ?f = "\<lparr>fo_handle = Some ?h, fo_path = ''/f''\<rparr>" and ?fs = "fs_init\<lparr>fs_data := \<lambda>_. [1, 2, 3, 4, 5]\<rparr>"
  let ?oprs = "[FileAvailable, FileRead, FileReadBuf 2, FilePeek, FileReadBuf 9, FileAvailable, FileReadBuf 1]"
  have "file_ready ?f ?fs"
    by (simp add: file_ready_def)
  moreover have "file_rest ?f ?fs = [2, 3, 4, 5]"
    by (simp add: file_rest_def)
  ultimately have "fst (source_run (file_step ?fs) ?oprs ?f) = fst (source_run rest_step ?oprs [2, 3, 4, 5])"
    using file_reads_what_is_available [of ?f ?fs ?oprs 0] by (metis fst_conv)
  then show ?thesis
    by (simp add: head_or_neg1_def)
qed

end
