(* ===== verification/HostAbi.thy ===== *)
theory HostAbi
  imports SerialPort Pins LogSink SerialConfig ArduinoFs
begin

text \<open>
  The public C ABI, \<open>native/wrapper/src/zimodem_host.cpp\<close>: the instance and its callback
  mutex, the four callbacks it registers with the HAL, and the exported functions, over one
  process-wide state. Pointers to instances are numbers, \<open>None\<close> is the null handle; the
  heap maps a live instance's address to it, so that a dangling pointer is visible. A C
  exception that leaves an exported function, a relock of \<open>callback_mutex\<close> by the thread
  that holds it, and a use of a freed instance are error values.
\<close>

section \<open>State\<close>

type_synonym inst_ptr = nat
type_synonym fn_ptr = nat

record zimodem_instance =
  started :: bool
  running :: bool
  worker_joinable :: bool
  callback_mutex_held :: bool
  on_serial_out :: "fn_ptr option"
  on_signal :: "fn_ptr option"
  on_log :: "fn_ptr option"
  on_line_config :: "fn_ptr option"
  user_context :: nat

definition new_instance :: zimodem_instance where
  "new_instance =
     \<lparr>started = False, running = False, worker_joinable = False, callback_mutex_held = False,
      on_serial_out = None, on_signal = None, on_log = None, on_line_config = None,
      user_context = 0\<rparr>"

text \<open>The calls of registered host functions, in the order they happen.\<close>

datatype host_event =
    SerialOut fn_ptr nat
  | Signal fn_ptr nat int int
  | LogLine fn_ptr nat string
  | LineConfig fn_ptr nat int int int int

record host =
  hal_serial :: "inst_ptr serial_port"
  hal_pins :: "inst_ptr pins"
  hal_log :: "inst_ptr log_state"
  hal_fs :: host_fs
  net_inits :: int
  g_active_instance :: "inst_ptr option"
  heap :: "inst_ptr \<rightharpoonup> zimodem_instance"
  events :: "host_event list"

definition host_init :: host where
  "host_init =
     \<lparr>hal_serial = serial_init, hal_pins = pins_init, hal_log = log_init, hal_fs = fs_init,
      net_inits = 0, g_active_instance = None, heap = Map.empty, events = []\<rparr>"

datatype host_error =
    ExceptionEscapes \<comment> \<open>a C++ exception leaves an \<open>extern "C"\<close> function\<close>
  | MutexRelocked \<comment> \<open>the thread locks a mutex it already holds\<close>
  | UseAfterFree
  | JoinsItself
  | TooDeep \<comment> \<open>only the bound of the evaluation below, see \<open>call_abi_deep_enough\<close>\<close>

section \<open>Creation, callbacks, start\<close>

text \<open>
  Outside the source: whether the system lets \<open>create_directories\<close> in \<open>fs::set_root\<close> succeed (it
  throws otherwise), and the address \<open>new (std::nothrow)\<close> returns (\<open>None\<close>: null).
\<close>

definition zimodem_host_create ::
  "bool \<Rightarrow> inst_ptr option \<Rightarrow> c_string option \<Rightarrow> host
     \<Rightarrow> (host_error + inst_ptr option) \<times> host" where
  "zimodem_host_create created allocated cfg s =
     (case cfg of
        None \<Rightarrow> (Inr None, s)
      | Some None \<Rightarrow> (Inr None, s)
      | Some (Some data_dir) \<Rightarrow>
          if c_view data_dir = [] then (Inr None, s)
          else if g_active_instance s \<noteq> None then (Inr None, s)
          else
            let (ok, fs1) = fs_set_root created (c_view data_dir) (hal_fs s);
                s1 = s\<lparr>hal_fs := fs1\<rparr> in
            if \<not> ok then (Inl ExceptionEscapes, s1)
            else
              let s2 = s1\<lparr>net_inits := net_inits s1 + 1\<rparr> in
              (case allocated of
                 None \<Rightarrow> (Inr None, s2)
               | Some inst \<Rightarrow>
                   let s3 = s2\<lparr>heap := (heap s2)(inst \<mapsto> new_instance)\<rparr>;
                       s4 = s3\<lparr>hal_serial := set_data_ready_callback (Some inst) (hal_serial s3)\<rparr>;
                       s5 = s4\<lparr>hal_pins := set_signal_callback (Some inst) (hal_pins s4)\<rparr>;
                       s6 = s5\<lparr>hal_serial := set_line_config_callback (Some inst) (hal_serial s5)\<rparr>;
                       s7 = s6\<lparr>hal_log := set_sink (Some inst) (hal_log s6)\<rparr>;
                       s8 = s7\<lparr>g_active_instance := Some inst\<rparr>
                   in (Inr (Some inst), s8)))"

text \<open>Where no name is taken, every directory can be made.\<close>

lemma fs_set_root_empty [simp]: "fs_names fs = [] \<Longrightarrow> fs_set_root True path fs = (True, add_dirs (leads_to path) (fs\<lparr>g_root := path\<rparr>))"
  by (simp add: fs_set_root_def create_dirs_def is_file_def list_all_iff)

lemma fs_names_init [simp]: "fs_names fs_init = []"
  by (simp add: fs_init_def)

record callbacks =
  cb_serial_out :: "fn_ptr option"
  cb_signal :: "fn_ptr option"
  cb_log :: "fn_ptr option"
  cb_line_config :: "fn_ptr option"
  cb_context :: nat

definition zimodem_host_set_callbacks ::
  "inst_ptr option \<Rightarrow> callbacks \<Rightarrow> host \<Rightarrow> host_error + host" where
  "zimodem_host_set_callbacks h cbs s =
     (case h of
        None \<Rightarrow> Inr s
      | Some i \<Rightarrow>
          (case heap s i of
             None \<Rightarrow> Inl UseAfterFree
           | Some inst \<Rightarrow>
               if callback_mutex_held inst then Inl MutexRelocked
               else Inr (s\<lparr>heap := (heap s)(i \<mapsto>
                 inst\<lparr>on_serial_out := cb_serial_out cbs, on_signal := cb_signal cbs,
                      on_log := cb_log cbs, on_line_config := cb_line_config cbs,
                      user_context := cb_context cbs\<rparr>)\<rparr>)))"

text \<open>\<open>spawned\<close> says whether the constructor of \<open>std::thread\<close> succeeds (it throws otherwise).\<close>

definition zimodem_host_start ::
  "bool \<Rightarrow> inst_ptr option \<Rightarrow> host \<Rightarrow> (host_error + int) \<times> host" where
  "zimodem_host_start spawned h s =
     (case h of
        None \<Rightarrow> (Inr (- 1), s)
      | Some i \<Rightarrow>
          (case heap s i of
             None \<Rightarrow> (Inl UseAfterFree, s)
           | Some inst \<Rightarrow>
               if started inst then (Inr (- 1), s)
               else
                 let inst1 = inst\<lparr>started := True, running := True\<rparr> in
                 if \<not> spawned
                 then (Inl ExceptionEscapes, s\<lparr>heap := (heap s)(i \<mapsto> inst1)\<rparr>)
                 else (Inr 0, s\<lparr>heap := (heap s)(i \<mapsto> inst1\<lparr>worker_joinable := True\<rparr>)\<rparr>)))"

section \<open>Serial, pins, line settings\<close>

definition zimodem_host_write_serial :: "inst_ptr option \<Rightarrow> bytes \<Rightarrow> host \<Rightarrow> int \<times> host" where
  "zimodem_host_write_serial h bs s =
     (case h of
        None \<Rightarrow> (- 1, s)
      | Some i \<Rightarrow> (0, s\<lparr>hal_serial := feed_input bs (hal_serial s)\<rparr>))"

definition zimodem_host_rx_available :: "inst_ptr option \<Rightarrow> host \<Rightarrow> int" where
  "zimodem_host_rx_available h s =
     (case h of
        None \<Rightarrow> 0
      | Some i \<Rightarrow> if SerialPort.rx_available (hal_serial s) then 1 else 0)"

definition zimodem_host_rx_read :: "inst_ptr option \<Rightarrow> host \<Rightarrow> int \<times> host" where
  "zimodem_host_rx_read h s =
     (case h of
        None \<Rightarrow> (- 1, s)
      | Some i \<Rightarrow>
          let (v, sp) = SerialPort.rx_read (hal_serial s) in (v, s\<lparr>hal_serial := sp\<rparr>))"

definition zimodem_host_get_line_config ::
  "inst_ptr option \<Rightarrow> int option \<Rightarrow> int option \<Rightarrow> int option \<Rightarrow> int option \<Rightarrow> host
     \<Rightarrow> int option \<times> int option \<times> int option \<times> int option" where
  "zimodem_host_get_line_config h out_baud out_data_bits out_parity out_stop_bits_x10 s =
     (let b0 = map_option (\<lambda>_. 0) out_baud;
          d0 = map_option (\<lambda>_. 0) out_data_bits;
          p0 = map_option (\<lambda>_. ZIMODEM_PARITY_NONE) out_parity;
          t0 = map_option (\<lambda>_. 0) out_stop_bits_x10
      in case h of
           None \<Rightarrow> (b0, d0, p0, t0)
         | Some i \<Rightarrow>
             let (baud, config) = get_line_config (Some 0) (Some 0) (hal_serial s);
                 b1 = map_option (\<lambda>_. int_of_ulong (the baud)) b0;
                 (d1, p1, t1) = decode_serial_config (the config) d0 p0 t0
             in (b1, d1, p1, t1))"

section \<open>Destruction\<close>

text \<open>
  \<open>on_worker\<close>: the call is made on the background thread itself. Otherwise \<open>join\<close> waits
  for that thread, which is known to end once \<open>running\<close> is false and the firmware's
  \<open>loop()\<close> returns (theory \<open>HostThreads\<close>).
\<close>

definition zimodem_host_destroy :: "bool \<Rightarrow> inst_ptr option \<Rightarrow> host \<Rightarrow> host_error + host" where
  "zimodem_host_destroy on_worker h s =
     (case h of
        None \<Rightarrow> Inr s
      | Some i \<Rightarrow>
          (case heap s i of
             None \<Rightarrow> Inl UseAfterFree
           | Some inst \<Rightarrow>
               if worker_joinable inst \<and> on_worker then Inl JoinsItself
               else
                 let s1 = s\<lparr>heap := (heap s)(i \<mapsto> inst\<lparr>running := False, worker_joinable := False\<rparr>)\<rparr>;
                     s2 = s1\<lparr>hal_serial := set_data_ready_callback None (hal_serial s1)\<rparr>;
                     s3 = s2\<lparr>hal_serial := set_line_config_callback None (hal_serial s2)\<rparr>;
                     s4 = s3\<lparr>hal_pins := set_signal_callback None (hal_pins s3)\<rparr>;
                     s5 = s4\<lparr>hal_log := set_sink None (hal_log s4)\<rparr>;
                     s6 = (if g_active_instance s5 = Some i then s5\<lparr>g_active_instance := None\<rparr> else s5);
                     s7 = s6\<lparr>net_inits := net_inits s6 - 1\<rparr>
                 in Inr (s7\<lparr>heap := (heap s7)(i := None)\<rparr>)))"

section \<open>The registered lambdas and what host functions do in them\<close>

text \<open>
  A host function is known by the calls of this ABI it makes before it returns, in order.
  (A handler that loops makes some finite sequence of calls.)
\<close>

datatype host_call =
    CallWriteSerial bytes
  | CallRxAvailable
  | CallRxRead
  | CallSetPin int int
  | CallGetLineConfig
  | CallSetCallbacks callbacks
  | CallStart
  | CallDestroy

type_synonym handlers = "fn_ptr \<Rightarrow> host_call list"
type_synonym runner = "host_call list \<Rightarrow> host \<Rightarrow> host_error + host"

text \<open>
  The shape of three of the lambdas and of \<open>zimodem_instance::log\<close>: lock
  \<open>callback_mutex\<close>, call the function if there is one, with the mutex still held, unlock.
\<close>

definition lock_and_call ::
  "runner \<Rightarrow> handlers \<Rightarrow> inst_ptr \<Rightarrow> (zimodem_instance \<Rightarrow> fn_ptr option)
     \<Rightarrow> (fn_ptr \<Rightarrow> nat \<Rightarrow> host_event) \<Rightarrow> host \<Rightarrow> host_error + host" where
  "lock_and_call run hs i which event s =
     (case heap s i of
        None \<Rightarrow> Inl UseAfterFree
      | Some inst \<Rightarrow>
          if callback_mutex_held inst then Inl MutexRelocked
          else
            (case which inst of
               None \<Rightarrow> Inr s
             | Some f \<Rightarrow>
                 let s1 = s\<lparr>heap := (heap s)(i \<mapsto> inst\<lparr>callback_mutex_held := True\<rparr>),
                            events := events s @ [event f (user_context inst)]\<rparr>
                 in case run (hs f) s1 of
                      Inl e \<Rightarrow> Inl e
                    | Inr s2 \<Rightarrow>
                        (case heap s2 i of
                           None \<Rightarrow> Inl UseAfterFree
                         | Some inst2 \<Rightarrow>
                             Inr (s2\<lparr>heap := (heap s2)(i \<mapsto>
                                       inst2\<lparr>callback_mutex_held := False\<rparr>)\<rparr>))))"

definition data_ready_lambda :: "runner \<Rightarrow> handlers \<Rightarrow> inst_ptr \<Rightarrow> host \<Rightarrow> host_error + host" where
  "data_ready_lambda run hs i = lock_and_call run hs i on_serial_out SerialOut"

definition signal_lambda ::
  "runner \<Rightarrow> handlers \<Rightarrow> inst_ptr \<Rightarrow> int \<Rightarrow> int \<Rightarrow> host \<Rightarrow> host_error + host" where
  "signal_lambda run hs i pin val = lock_and_call run hs i on_signal (\<lambda>f ctx. Signal f ctx pin val)"

definition instance_log ::
  "runner \<Rightarrow> handlers \<Rightarrow> inst_ptr \<Rightarrow> string \<Rightarrow> host \<Rightarrow> host_error + host" where
  "instance_log run hs i message =
     lock_and_call run hs i on_log (\<lambda>f ctx. LogLine f ctx (c_view message))"

text \<open>The line-settings lambda copies the function under the mutex and calls it without.\<close>

definition line_config_lambda ::
  "runner \<Rightarrow> handlers \<Rightarrow> inst_ptr \<Rightarrow> u64 \<Rightarrow> u32 \<Rightarrow> host \<Rightarrow> host_error + host" where
  "line_config_lambda run hs i baud config s =
     (case heap s i of
        None \<Rightarrow> Inl UseAfterFree
      | Some inst \<Rightarrow>
          if callback_mutex_held inst then Inl MutexRelocked
          else
            (case on_line_config inst of
               None \<Rightarrow> Inr s
             | Some f \<Rightarrow>
                 let (d, p, t) = decode_serial_config config (Some 0) (Some 0) (Some 0)
                 in run (hs f)
                      (s\<lparr>events := events s @
                          [LineConfig f (user_context inst) (int_of_ulong baud) (the d) (the p) (the t)]\<rparr>)))"

primrec run_list ::
  "('c \<Rightarrow> host \<Rightarrow> host_error + host) \<Rightarrow> 'c list \<Rightarrow> host \<Rightarrow> host_error + host" where
  "run_list call [] s = Inr s"
| "run_list call (c # cs) s =
     (case call c s of Inl e \<Rightarrow> Inl e | Inr s' \<Rightarrow> run_list call cs s')"

definition serial_call_action ::
  "runner \<Rightarrow> handlers \<Rightarrow> inst_ptr serial_call \<Rightarrow> host \<Rightarrow> host_error + host" where
  "serial_call_action run hs call s =
     (case call of
        DataReadyCall i \<Rightarrow> data_ready_lambda run hs i s
      | LineConfigCall i baud config \<Rightarrow> line_config_lambda run hs i baud config s)"

definition signal_call_action ::
  "runner \<Rightarrow> handlers \<Rightarrow> inst_ptr signal_call \<Rightarrow> host \<Rightarrow> host_error + host" where
  "signal_call_action run hs call s =
     (case call of SignalCall i pin val \<Rightarrow> signal_lambda run hs i pin val s)"

definition log_call_action ::
  "runner \<Rightarrow> handlers \<Rightarrow> inst_ptr log_call \<Rightarrow> host \<Rightarrow> host_error + host" where
  "log_call_action run hs call s =
     (case call of LogCall i message \<Rightarrow> instance_log run hs i message s)"

definition zimodem_host_set_pin ::
  "runner \<Rightarrow> handlers \<Rightarrow> inst_ptr option \<Rightarrow> int \<Rightarrow> int \<Rightarrow> host \<Rightarrow> host_error + host" where
  "zimodem_host_set_pin run hs h pin val s =
     (case h of
        None \<Rightarrow> Inr s
      | Some i \<Rightarrow>
          let (calls, p) = digital_write pin val (hal_pins s)
          in run_list (signal_call_action run hs) calls (s\<lparr>hal_pins := p\<rparr>))"

text \<open>
  A call of the ABI from a handler. The argument \<open>d\<close> bounds how deeply handlers nest;
  \<open>call_abi_deep_enough\<close> shows that 2 is always enough, because a handler that would nest
  further has already relocked the mutex.
\<close>

primrec call_abi ::
  "nat \<Rightarrow> bool \<Rightarrow> handlers \<Rightarrow> inst_ptr \<Rightarrow> host_call \<Rightarrow> host \<Rightarrow> host_error + host" where
  "call_abi 0 on_worker hs h c s = Inl TooDeep"
| "call_abi (Suc d) on_worker hs h c s =
     (case c of
        CallWriteSerial bs \<Rightarrow> Inr (snd (zimodem_host_write_serial (Some h) bs s))
      | CallRxAvailable \<Rightarrow> Inr s
      | CallRxRead \<Rightarrow> Inr (snd (zimodem_host_rx_read (Some h) s))
      | CallSetPin pin val \<Rightarrow>
          zimodem_host_set_pin (run_list (call_abi d on_worker hs h)) hs (Some h) pin val s
      | CallGetLineConfig \<Rightarrow> Inr s
      | CallSetCallbacks cbs \<Rightarrow> zimodem_host_set_callbacks (Some h) cbs s
      | CallStart \<Rightarrow> (case zimodem_host_start True (Some h) s of
                         (Inl e, s') \<Rightarrow> Inl e | (Inr r, s') \<Rightarrow> Inr s')
      | CallDestroy \<Rightarrow> zimodem_host_destroy on_worker (Some h) s)"

section \<open>What the firmware does to the HAL on the background thread\<close>

datatype fw_op =
    FwWrite bytes
  | FwRead
  | FwDigitalWrite u8 u8
  | FwBegin begin_call
  | FwDebugPrintf "string option"

definition fw_step :: "handlers \<Rightarrow> inst_ptr \<Rightarrow> fw_op \<Rightarrow> host \<Rightarrow> host_error + host" where
  "fw_step hs h opr s =
     (let run = run_list (call_abi 2 True hs h) in
      case opr of
        FwWrite bs \<Rightarrow>
          let (n, calls, sp) = serial_write bs (hal_serial s)
          in run_list (serial_call_action run hs) calls (s\<lparr>hal_serial := sp\<rparr>)
      | FwRead \<Rightarrow> Inr (s\<lparr>hal_serial := snd (serial_read (hal_serial s))\<rparr>)
      | FwDigitalWrite pin val \<Rightarrow>
          let (calls, p) = digitalWrite pin val (hal_pins s)
          in run_list (signal_call_action run hs) calls (s\<lparr>hal_pins := p\<rparr>)
      | FwBegin b \<Rightarrow>
          let (calls, sp) = hw_begin b (hal_serial s)
          in run_list (serial_call_action run hs) calls (s\<lparr>hal_serial := sp\<rparr>)
      | FwDebugPrintf formatted \<Rightarrow>
          run_list (log_call_action run hs) (zimodem_hal_debug_printf formatted (hal_log s)) s)"

section \<open>The line settings as the host sees them\<close>

lemma int_of_ulong_signed: "int_of_ulong w = (uint w + 2 ^ 31) mod 2 ^ 32 - 2 ^ 31"
proof -
  have "int_of_ulong w = signed_take_bit 31 (take_bit 32 (uint w))"
    by (simp add: int_of_ulong_def sint_uint unsigned_ucast_eq)
  also have "\<dots> = (take_bit 32 (uint w) + 2 ^ 31) mod 2 ^ 32 - 2 ^ 31"
    by (simp add: signed_take_bit_eq_take_bit_shift take_bit_eq_mod)
  also have "\<dots> = (uint w + 2 ^ 31) mod 2 ^ 32 - 2 ^ 31"
    by (simp add: take_bit_eq_mod mod_add_left_eq)
  finally show ?thesis .
qed

text \<open>
  C33: \<open>zimodem_host_get_line_config\<close> always answers, and always within the documented ranges. A
  null out parameter is left alone and every other one written: with zeros and no parity for a
  null handle, otherwise with 5 to 8 data bits, a documented parity and 10, 15 or 20 tenths of a
  stop bit, whatever word the firmware applied. The baud rate is the recorded one reduced to an
  \<open>int\<close>: modulo \<open>2 ^ 32\<close> into the signed range.
\<close>

theorem get_line_config_in_range:
  "zimodem_host_get_line_config h None None None None s = (None, None, None, None)
   \<and> (\<exists>baud d p st. zimodem_host_get_line_config h (Some w) (Some x) (Some y) (Some z) s = (Some baud, Some d, Some p, Some st)
      \<and> (case h of
           None \<Rightarrow> baud = 0 \<and> d = 0 \<and> p = ZIMODEM_PARITY_NONE \<and> st = 0
         | Some i \<Rightarrow> baud = (uint (g_line_baud (hal_serial s)) + 2 ^ 31) mod 2 ^ 32 - 2 ^ 31
             \<and> d \<in> {5, 6, 7, 8} \<and> p \<in> {ZIMODEM_PARITY_NONE, ZIMODEM_PARITY_ODD, ZIMODEM_PARITY_EVEN} \<and> st \<in> {10, 15, 20}))"
proof (cases h)
  case None
  then show ?thesis
    by (simp add: zimodem_host_get_line_config_def)
next
  case (Some i)
  let ?config = "g_line_config (hal_serial s)"
  obtain d p st where "decode_serial_config ?config (Some 0) (Some ZIMODEM_PARITY_NONE) (Some 0) = (Some d, Some p, Some st)"
    and "d \<in> {5, 6, 7, 8} \<and> p \<in> {ZIMODEM_PARITY_NONE, ZIMODEM_PARITY_ODD, ZIMODEM_PARITY_EVEN} \<and> st \<in> {10, 15, 20}"
    and "decode_serial_config ?config None None None = (None, None, None)"
    using decode_always_legal [of ?config 0 ZIMODEM_PARITY_NONE 0] by blast
  then show ?thesis
    using Some by (simp add: zimodem_host_get_line_config_def get_line_config_def int_of_ulong_signed)
qed

end
