(* ===== verification/HostCallbacks.thy ===== *)
theory HostCallbacks
  imports HostAbi
begin

text \<open>
  Which handlers are safe. The signal, serial-out and log handlers run with
  \<open>callback_mutex\<close> held, the line-settings handler without it. The lemmas show that handlers
  built from the calls that take no callback mutex never fail and always leave the mutex free;
  the properties say what happens to the others.
\<close>

section \<open>Safe handlers\<close>

definition safe_under_mutex :: "host_call \<Rightarrow> bool" where
  "safe_under_mutex c =
     (case c of
        CallSetPin p v \<Rightarrow> False
      | CallSetCallbacks cbs \<Rightarrow> False
      | CallDestroy \<Rightarrow> False
      | _ \<Rightarrow> True)"

definition safe_in_line_config :: "host_call \<Rightarrow> bool" where
  "safe_in_line_config c =
     (case c of
        CallSetCallbacks cbs \<Rightarrow> False
      | CallDestroy \<Rightarrow> False
      | _ \<Rightarrow> True)"

text \<open>Every function registered with an instance is safe where it is called.\<close>

definition handlers_ok :: "handlers \<Rightarrow> zimodem_instance \<Rightarrow> bool" where
  "handlers_ok hs inst \<longleftrightarrow>
     pred_option (\<lambda>f. list_all safe_under_mutex (hs f)) (on_serial_out inst) \<and>
     pred_option (\<lambda>f. list_all safe_under_mutex (hs f)) (on_signal inst) \<and>
     pred_option (\<lambda>f. list_all safe_under_mutex (hs f)) (on_log inst) \<and>
     pred_option (\<lambda>f. list_all safe_in_line_config (hs f)) (on_line_config inst)"

text \<open>The HAL's callback slots are empty or hold the lambdas of instance \<open>h\<close>.\<close>

definition attached_to :: "inst_ptr \<Rightarrow> host \<Rightarrow> bool" where
  "attached_to h s \<longleftrightarrow>
     g_data_ready_callback (hal_serial s) \<in> {None, Some h} \<and>
     g_line_config_callback (hal_serial s) \<in> {None, Some h} \<and>
     g_callback (hal_pins s) \<in> {None, Some h} \<and>
     g_sink (hal_log s) \<in> {None, Some h}"

text \<open>Instance \<open>h\<close> is alive, with safe handlers, and its mutex is held or not.\<close>

definition live_with :: "bool \<Rightarrow> handlers \<Rightarrow> inst_ptr \<Rightarrow> host \<Rightarrow> bool" where
  "live_with held hs h s \<longleftrightarrow>
     (case heap s h of
        None \<Rightarrow> False
      | Some inst \<Rightarrow> callback_mutex_held inst = held \<and> handlers_ok hs inst)
     \<and> attached_to h s"

section \<open>Runs of safe calls\<close>

lemma attached_to_simps [simp]:
  "attached_to h (s\<lparr>events := es\<rparr>) = attached_to h s"
  "attached_to h (s\<lparr>heap := hp\<rparr>) = attached_to h s"
  by (simp_all add: attached_to_def)

lemma attached_to_serial:
  assumes "attached_to h s"
    and "g_data_ready_callback sp = g_data_ready_callback (hal_serial s)"
    and "g_line_config_callback sp = g_line_config_callback (hal_serial s)"
  shows "attached_to h (s\<lparr>hal_serial := sp\<rparr>)"
  using assms by (simp add: attached_to_def)

lemma attached_to_pins:
  "attached_to h s \<Longrightarrow> g_callback p = g_callback (hal_pins s) \<Longrightarrow> attached_to h (s\<lparr>hal_pins := p\<rparr>)"
  by (simp add: attached_to_def)

lemma live_with_serial:
  assumes "live_with held hs h s"
    and "g_data_ready_callback sp = g_data_ready_callback (hal_serial s)"
    and "g_line_config_callback sp = g_line_config_callback (hal_serial s)"
  shows "live_with held hs h (s\<lparr>hal_serial := sp\<rparr>)"
  using assms by (simp add: live_with_def attached_to_serial)

lemma live_with_pins:
  "live_with held hs h s \<Longrightarrow> g_callback p = g_callback (hal_pins s) \<Longrightarrow>
     live_with held hs h (s\<lparr>hal_pins := p\<rparr>)"
  by (simp add: live_with_def attached_to_pins)

lemma live_with_start:
  "live_with held hs h s \<Longrightarrow>
     \<exists>r s'. zimodem_host_start True (Some h) s = (Inr r, s') \<and> live_with held hs h s'"
  by (auto simp: live_with_def zimodem_host_start_def handlers_ok_def split: option.splits)

lemma safe_call_runs:
  assumes "live_with held hs h s" and "safe_under_mutex c"
  shows "\<exists>s'. call_abi (Suc d) w hs h c s = Inr s' \<and> live_with held hs h s'"
proof (cases c)
  case CallStart
  then show ?thesis
    using live_with_start [OF assms(1)] by auto
qed (use assms in \<open>auto simp: safe_under_mutex_def zimodem_host_write_serial_def
      zimodem_host_rx_read_def split_def Let_def intro: live_with_serial\<close>)

lemma run_list_runs:
  assumes "I s" and "list_all ok cs"
    and "\<And>c s. I s \<Longrightarrow> ok c \<Longrightarrow> \<exists>s'. call c s = Inr s' \<and> I s'"
  shows "\<exists>s'. run_list call cs s = Inr s' \<and> I s'"
  using assms(1,2)
proof (induction cs arbitrary: s)
  case Nil
  then show ?case by simp
next
  case (Cons c cs)
  then obtain s' where "call c s = Inr s'" and "I s'"
    using assms(3) by fastforce
  then show ?case
    using Cons.IH Cons.prems(2) by simp
qed

lemma safe_calls_run:
  "live_with held hs h s \<Longrightarrow> list_all safe_under_mutex cs \<Longrightarrow>
     \<exists>s'. run_list (call_abi (Suc d) w hs h) cs s = Inr s' \<and> live_with held hs h s'"
  by (rule run_list_runs [where I = "live_with held hs h" and ok = safe_under_mutex])
    (blast intro: safe_call_runs)+

section \<open>The lambdas with safe handlers\<close>

lemma lock_and_call_runs:
  assumes live: "live_with False hs h s"
    and safe: "\<And>inst. handlers_ok hs inst \<Longrightarrow> pred_option (\<lambda>f. list_all safe_under_mutex (hs f)) (which inst)"
  shows "\<exists>s'. lock_and_call (run_list (call_abi (Suc d) w hs h)) hs h which event s = Inr s'
              \<and> live_with False hs h s'"
proof -
  obtain inst where inst: "heap s h = Some inst" and free: "\<not> callback_mutex_held inst"
    and ok: "handlers_ok hs inst" and att: "attached_to h s"
    using live by (auto simp: live_with_def split: option.splits)
  show ?thesis
  proof (cases "which inst")
    case None
    then show ?thesis
      using inst free live by (simp add: lock_and_call_def)
  next
    case (Some f)
    let ?s1 = "s\<lparr>heap := (heap s)(h \<mapsto> inst\<lparr>callback_mutex_held := True\<rparr>),
                 events := events s @ [event f (user_context inst)]\<rparr>"
    have "live_with True hs h ?s1"
      using ok att by (simp add: live_with_def handlers_ok_def)
    moreover have "list_all safe_under_mutex (hs f)"
      using safe [OF ok] Some by simp
    ultimately obtain s2 where run: "run_list (call_abi (Suc d) w hs h) (hs f) ?s1 = Inr s2"
      and live2: "live_with True hs h s2"
      using safe_calls_run by blast
    then show ?thesis
      using inst free Some run live2
      by (auto simp: lock_and_call_def live_with_def handlers_ok_def split: option.splits)
  qed
qed

lemma signal_calls_run:
  assumes "live_with False hs h s" and "list_all (\<lambda>c. case c of SignalCall i p v \<Rightarrow> i = h) calls"
  shows "\<exists>s'. run_list (signal_call_action (run_list (call_abi (Suc d) w hs h)) hs) calls s = Inr s'
              \<and> live_with False hs h s'"
proof (rule run_list_runs [where I = "live_with False hs h", OF assms])
  fix c :: "inst_ptr signal_call" and s
  assume "live_with False hs h s" and "case c of SignalCall i p v \<Rightarrow> i = h"
  then show "\<exists>s'. signal_call_action (run_list (call_abi (Suc d) w hs h)) hs c s = Inr s'
                  \<and> live_with False hs h s'"
    by (cases c) (auto simp: signal_call_action_def signal_lambda_def handlers_ok_def
        intro!: lock_and_call_runs)
qed

lemma digital_write_signals_to:
  "attached_to h s \<Longrightarrow>
     list_all (\<lambda>c. case c of SignalCall i p v \<Rightarrow> i = h) (fst (digital_write pin val (hal_pins s)))"
  by (auto simp: attached_to_def digital_write_calls split: option.split)

lemma set_pin_runs:
  assumes "live_with False hs h s"
  shows "\<exists>s'. zimodem_host_set_pin (run_list (call_abi (Suc d) w hs h)) hs (Some h) pin val s = Inr s'
              \<and> live_with False hs h s'"
proof -
  have "attached_to h s"
    using assms by (simp add: live_with_def)
  moreover have "live_with False hs h (s\<lparr>hal_pins := snd (digital_write pin val (hal_pins s))\<rparr>)"
    using assms by (simp add: live_with_pins)
  ultimately show ?thesis
    by (simp add: zimodem_host_set_pin_def split_def Let_def signal_calls_run digital_write_signals_to)
qed

lemma line_calls_run:
  assumes "live_with False hs h s" and "list_all safe_in_line_config cs"
  shows "\<exists>s'. run_list (call_abi (Suc (Suc d)) w hs h) cs s = Inr s' \<and> live_with False hs h s'"
proof (rule run_list_runs [where I = "live_with False hs h", OF assms])
  fix c s
  assume live: "live_with False hs h s" and "safe_in_line_config c"
  then consider "safe_under_mutex c" | p v where "c = CallSetPin p v"
    by (cases c) (auto simp: safe_in_line_config_def safe_under_mutex_def)
  then show "\<exists>s'. call_abi (Suc (Suc d)) w hs h c s = Inr s' \<and> live_with False hs h s'"
  proof cases
    case 1
    then show ?thesis
      using safe_call_runs [OF live] by blast
  next
    case 2
    then show ?thesis
      using set_pin_runs [OF live] by simp
  qed
qed

lemma line_config_lambda_runs:
  assumes live: "live_with False hs h s"
  shows "\<exists>s'. line_config_lambda (run_list (call_abi (Suc (Suc d)) w hs h)) hs h baud config s = Inr s'
              \<and> live_with False hs h s'"
proof -
  obtain inst where inst: "heap s h = Some inst" and free: "\<not> callback_mutex_held inst"
    and ok: "handlers_ok hs inst"
    using live by (auto simp: live_with_def split: option.splits)
  show ?thesis
  proof (cases "on_line_config inst")
    case None
    then show ?thesis
      using inst free live by (simp add: line_config_lambda_def)
  next
    case (Some f)
    then have safe: "list_all safe_in_line_config (hs f)"
      using ok by (simp add: handlers_ok_def)
    have "live_with False hs h (s\<lparr>events := es\<rparr>)" for es
      using live by (simp add: live_with_def)
    from line_calls_run [OF this safe] show ?thesis
      using inst free Some by (simp add: line_config_lambda_def split_def Let_def)
  qed
qed

lemma serial_calls_run:
  assumes "live_with False hs h s"
    and "list_all (\<lambda>c. case c of DataReadyCall i \<Rightarrow> i = h | LineConfigCall i b k \<Rightarrow> i = h) calls"
  shows "\<exists>s'. run_list (serial_call_action (run_list (call_abi (Suc (Suc d)) w hs h)) hs) calls s = Inr s'
              \<and> live_with False hs h s'"
proof (rule run_list_runs [where I = "live_with False hs h", OF assms])
  fix c :: "inst_ptr serial_call" and s
  assume live: "live_with False hs h s"
    and to_h: "case c of DataReadyCall i \<Rightarrow> i = h | LineConfigCall i b k \<Rightarrow> i = h"
  show "\<exists>s'. serial_call_action (run_list (call_abi (Suc (Suc d)) w hs h)) hs c s = Inr s'
             \<and> live_with False hs h s'"
  proof (cases c)
    case (DataReadyCall i)
    then show ?thesis
      using lock_and_call_runs [OF live, of on_serial_out] to_h
      by (auto simp: serial_call_action_def data_ready_lambda_def handlers_ok_def)
  next
    case (LineConfigCall i b k)
    then show ?thesis
      using line_config_lambda_runs [OF live] to_h by (auto simp: serial_call_action_def)
  qed
qed

lemma log_calls_run:
  assumes "live_with False hs h s" and "list_all (\<lambda>c. case c of LogCall i m \<Rightarrow> i = h) calls"
  shows "\<exists>s'. run_list (log_call_action (run_list (call_abi (Suc d) w hs h)) hs) calls s = Inr s'
              \<and> live_with False hs h s'"
proof (rule run_list_runs [where I = "live_with False hs h", OF assms])
  fix c :: "inst_ptr log_call" and s
  assume "live_with False hs h s" and "case c of LogCall i m \<Rightarrow> i = h"
  then show "\<exists>s'. log_call_action (run_list (call_abi (Suc d) w hs h)) hs c s = Inr s'
                  \<and> live_with False hs h s'"
    by (cases c) (auto simp: log_call_action_def instance_log_def handlers_ok_def
        intro!: lock_and_call_runs)
qed

section \<open>Nesting is bounded by the mutex\<close>

lemma attached_to_start [simp]:
  "attached_to h (snd (zimodem_host_start b (Some i) s)) = attached_to h s"
  by (auto simp: zimodem_host_start_def attached_to_def Let_def split: option.splits if_splits)

lemma attached_to_destroy:
  assumes "zimodem_host_destroy w h s = Inr s'" and "attached_to i s"
  shows "attached_to i s'"
proof (cases h)
  case None
  then show ?thesis
    using assms by (simp add: zimodem_host_destroy_def)
next
  case (Some j)
  then show ?thesis
    using assms(1) by (auto simp: zimodem_host_destroy_def attached_to_def set_data_ready_callback_def
        set_line_config_callback_def set_signal_callback_def set_sink_def Let_def split: option.splits if_splits)
qed

lemma run_list_preserves:
  assumes "\<And>c s s'. call c s = Inr s' \<Longrightarrow> I s \<Longrightarrow> I s'"
  shows "run_list call cs s = Inr s' \<Longrightarrow> I s \<Longrightarrow> I s'"
  by (induction cs arbitrary: s) (auto split: sum.splits dest: assms)

lemma lock_and_call_attached:
  assumes "\<And>cs s s'. run cs s = Inr s' \<Longrightarrow> attached_to h s \<Longrightarrow> attached_to h s'"
    and "lock_and_call run hs i which event s = Inr s'" and "attached_to h s"
  shows "attached_to h s'"
  using assms(2,3)
  by (auto simp: lock_and_call_def Let_def split: option.splits if_splits sum.splits
      dest!: assms(1))

lemma signal_call_attached:
  assumes "\<And>cs s s'. run cs s = Inr s' \<Longrightarrow> attached_to h s \<Longrightarrow> attached_to h s'"
    and "signal_call_action run hs c s = Inr s'" and "attached_to h s"
  shows "attached_to h s'"
  using assms(2,3)
  by (cases c) (auto simp: signal_call_action_def signal_lambda_def
      intro: lock_and_call_attached [OF assms(1)])

lemma set_pin_attached:
  assumes "\<And>cs s s'. run cs s = Inr s' \<Longrightarrow> attached_to h s \<Longrightarrow> attached_to h s'"
    and "zimodem_host_set_pin run hs p pin val s = Inr s'" and "attached_to h s"
  shows "attached_to h s'"
proof (cases p)
  case None
  then show ?thesis
    using assms(2,3) by (simp add: zimodem_host_set_pin_def)
next
  case (Some i)
  let ?s1 = "s\<lparr>hal_pins := snd (digital_write pin val (hal_pins s))\<rparr>"
  have "run_list (signal_call_action run hs) (fst (digital_write pin val (hal_pins s))) ?s1 = Inr s'"
    using assms(2) Some by (simp add: zimodem_host_set_pin_def split_def Let_def)
  moreover have "attached_to h ?s1"
    using assms(3) by (simp add: attached_to_pins)
  ultimately show ?thesis
    by (rule run_list_preserves [where I = "attached_to h", rotated])
      (rule signal_call_attached [OF assms(1)])
qed

lemma call_abi_attached:
  "call_abi d w hs i c s = Inr s' \<Longrightarrow> attached_to h s \<Longrightarrow> attached_to h s'"
proof (induction d arbitrary: c s s')
  case 0
  then show ?case by simp
next
  case (Suc d)
  have run: "run_list (call_abi d w hs i) cs t = Inr t' \<Longrightarrow> attached_to h t \<Longrightarrow> attached_to h t'"
    for cs t t'
    by (rule run_list_preserves [where I = "attached_to h"]) (rule Suc.IH)
  show ?case
    using Suc.prems
    by (cases c)
      (auto simp: zimodem_host_write_serial_def zimodem_host_rx_read_def split_def Let_def
        zimodem_host_set_callbacks_def attached_to_serial
        split: option.splits if_splits sum.splits prod.splits
        intro: set_pin_attached [OF run] attached_to_destroy)
qed

text \<open>While the mutex of the attached instance is held, no further handler can start.\<close>

definition no_handler_can_start :: "inst_ptr \<Rightarrow> host \<Rightarrow> bool" where
  "no_handler_can_start h s \<longleftrightarrow>
     (case g_callback (hal_pins s) of
        None \<Rightarrow> True
      | Some i \<Rightarrow> i = h \<and> (case heap s h of None \<Rightarrow> True | Some inst \<Rightarrow> callback_mutex_held inst))"

lemma signal_call_blocked:
  "no_handler_can_start h s \<Longrightarrow> g_callback (hal_pins s) = Some i \<Longrightarrow>
     signal_call_action run hs (SignalCall i p v) s \<in> {Inl UseAfterFree, Inl MutexRelocked}"
  by (auto simp: no_handler_can_start_def signal_call_action_def signal_lambda_def lock_and_call_def
      split: option.splits)

lemma set_pin_blocked:
  assumes "no_handler_can_start h s"
  shows "case zimodem_host_set_pin run hs (Some j) pin val s of
           Inl e \<Rightarrow> e \<noteq> TooDeep
         | Inr s' \<Rightarrow> no_handler_can_start h s'"
proof (cases "g_callback (hal_pins s)")
  case None
  then show ?thesis
    by (simp add: zimodem_host_set_pin_def split_def Let_def digital_write_calls no_handler_can_start_def)
next
  case (Some i)
  let ?s1 = "s\<lparr>hal_pins := snd (digital_write pin val (hal_pins s))\<rparr>"
  have "no_handler_can_start h ?s1"
    using assms by (auto simp: no_handler_can_start_def split: option.splits)
  then show ?thesis
    using signal_call_blocked [of h ?s1 i run hs pin val] Some
    by (auto simp: zimodem_host_set_pin_def split_def Let_def digital_write_calls)
qed

lemma blocked_call:
  assumes "no_handler_can_start h s"
  shows "case call_abi (Suc d) w hs h c s of
           Inl e \<Rightarrow> e \<noteq> TooDeep
         | Inr s' \<Rightarrow> no_handler_can_start h s'"
  using assms set_pin_blocked [OF assms, of "run_list (call_abi d w hs h)" hs h]
  by (cases c)
    (auto simp: zimodem_host_write_serial_def zimodem_host_rx_read_def split_def Let_def
      no_handler_can_start_def zimodem_host_set_callbacks_def zimodem_host_start_def
      zimodem_host_destroy_def set_signal_callback_def
      split: option.splits sum.splits if_splits)

lemma blocked_calls:
  "no_handler_can_start h s \<Longrightarrow> run_list (call_abi (Suc d) w hs h) cs s \<noteq> Inl TooDeep"
proof (induction cs arbitrary: s)
  case Nil
  then show ?case by simp
next
  case (Cons c cs)
  then show ?case
    using blocked_call [OF Cons.prems, of d w hs c] by (auto split: sum.splits)
qed

lemma lock_and_call_deep_enough:
  assumes "attached_to h s"
  shows "lock_and_call (run_list (call_abi (Suc d) w hs h)) hs h which event s \<noteq> Inl TooDeep"
proof -
  have "no_handler_can_start h
      (s\<lparr>heap := (heap s)(h \<mapsto> inst\<lparr>callback_mutex_held := True\<rparr>), events := es\<rparr>)" for inst es
    using assms by (auto simp: attached_to_def no_handler_can_start_def)
  from blocked_calls [OF this] show ?thesis
    by (auto simp: lock_and_call_def Let_def split: option.split sum.split)
qed

lemma run_list_not_deep:
  assumes "I s" and "list_all ok cs"
    and "\<And>c s. I s \<Longrightarrow> ok c \<Longrightarrow> call c s \<noteq> Inl TooDeep"
    and "\<And>c s s'. call c s = Inr s' \<Longrightarrow> I s \<Longrightarrow> I s'"
  shows "run_list call cs s \<noteq> Inl TooDeep"
  using assms(1,2)
proof (induction cs arbitrary: s)
  case Nil
  then show ?case by simp
next
  case (Cons c cs)
  then show ?case
    using assms(3) [of s c] assms(4) [of c s] by (auto split: sum.split)
qed

lemma run_calls_attached:
  "run_list (call_abi d w hs i) cs s = Inr s' \<Longrightarrow> attached_to h s \<Longrightarrow> attached_to h s'"
  by (rule run_list_preserves [where I = "attached_to h"]) (rule call_abi_attached)

lemma set_pin_deep_enough:
  assumes "attached_to h s"
  shows "zimodem_host_set_pin (run_list (call_abi (Suc d) w hs h)) hs (Some j) pin val s \<noteq> Inl TooDeep"
proof -
  have run: "run_list (call_abi (Suc d) w hs h) cs t = Inr t' \<Longrightarrow> attached_to h t \<Longrightarrow> attached_to h t'"
    for cs t t'
    by (rule run_calls_attached)
  let ?s1 = "s\<lparr>hal_pins := snd (digital_write pin val (hal_pins s))\<rparr>"
  have "attached_to h ?s1"
    using assms by (simp add: attached_to_pins)
  then have "run_list (signal_call_action (run_list (call_abi (Suc d) w hs h)) hs)
      (fst (digital_write pin val (hal_pins s))) ?s1 \<noteq> Inl TooDeep"
  proof (rule run_list_not_deep)
    show "list_all (\<lambda>c. case c of SignalCall i p v \<Rightarrow> i = h) (fst (digital_write pin val (hal_pins s)))"
      using assms by (rule digital_write_signals_to)
  next
    fix c :: "inst_ptr signal_call" and t
    assume "attached_to h t" and "case c of SignalCall i p v \<Rightarrow> i = h"
    then show "signal_call_action (run_list (call_abi (Suc d) w hs h)) hs c t \<noteq> Inl TooDeep"
      by (cases c) (simp add: signal_call_action_def signal_lambda_def lock_and_call_deep_enough)
  next
    fix c t t'
    assume "signal_call_action (run_list (call_abi (Suc d) w hs h)) hs c t = Inr t'" "attached_to h t"
    with run show "attached_to h t'"
      by (rule signal_call_attached)
  qed
  then show ?thesis
    by (simp add: zimodem_host_set_pin_def split_def Let_def)
qed

lemma call_abi_deep_enough:
  "attached_to h s \<Longrightarrow> call_abi (Suc (Suc d)) w hs h c s \<noteq> Inl TooDeep"
  using set_pin_deep_enough [of h s d w hs h]
  by (cases c)
    (auto simp: zimodem_host_set_callbacks_def zimodem_host_start_def zimodem_host_destroy_def Let_def
      split: option.splits sum.splits if_splits)

lemma calls_deep_enough:
  "attached_to h s \<Longrightarrow> run_list (call_abi (Suc (Suc d)) w hs h) cs s \<noteq> Inl TooDeep"
  by (rule run_list_not_deep [where I = "attached_to h" and ok = "\<lambda>_. True"])
    (auto simp: list_all_iff simp del: call_abi.simps intro: call_abi_attached dest: call_abi_deep_enough)

lemma run_list_append:
  "run_list call (cs @ ds) s =
     (case run_list call cs s of Inl e \<Rightarrow> Inl e | Inr s' \<Rightarrow> run_list call ds s')"
  by (induction cs arbitrary: s) (auto split: sum.split)

text \<open>Calls that need no mutex leave the pins and every mutex as they were.\<close>

definition mutex_of :: "inst_ptr \<Rightarrow> host \<Rightarrow> bool option" where
  "mutex_of h s = map_option callback_mutex_held (heap s h)"

lemma safe_call_frame:
  assumes "mutex_of h s = Some b" and "safe_under_mutex c"
  shows "\<exists>s'. call_abi (Suc d) w hs h c s = Inr s' \<and> mutex_of h s' = Some b \<and> hal_pins s' = hal_pins s"
  using assms
  by (cases c)
    (auto simp: safe_under_mutex_def zimodem_host_write_serial_def zimodem_host_rx_read_def
      zimodem_host_start_def mutex_of_def split_def Let_def split: option.splits)

lemma safe_calls_frame:
  assumes "mutex_of h s = Some b" and "list_all safe_under_mutex cs"
  shows "\<exists>s'. run_list (call_abi (Suc d) w hs h) cs s = Inr s' \<and> mutex_of h s' = Some b
              \<and> hal_pins s' = hal_pins s"
proof -
  have "\<exists>s'. run_list (call_abi (Suc d) w hs h) cs s = Inr s'
      \<and> (mutex_of h s' = Some b \<and> hal_pins s' = hal_pins s)"
    by (rule run_list_runs [where ok = safe_under_mutex
          and I = "\<lambda>t. mutex_of h t = Some b \<and> hal_pins t = hal_pins s"])
      (use assms safe_call_frame in \<open>fastforce+\<close>)
  then show ?thesis by blast
qed

lemma changing_set_pin_relocks:
  assumes "mutex_of h s = Some True" and "g_callback (hal_pins s) = Some h"
    and "g_value (hal_pins s) pin \<noteq> Some val"
  shows "zimodem_host_set_pin run hs (Some h) pin val s = Inl MutexRelocked"
  using assms
  by (auto simp: zimodem_host_set_pin_def split_def Let_def digital_write_calls mutex_of_def
      signal_call_action_def signal_lambda_def lock_and_call_def)

section \<open>Properties\<close>

text \<open>A stretch of firmware activity on the background thread.\<close>

definition fw_run :: "handlers \<Rightarrow> inst_ptr \<Rightarrow> fw_op list \<Rightarrow> host \<Rightarrow> host_error + host" where
  "fw_run hs h oprs s = run_list (fw_step hs h) oprs s"

lemma fw_step_runs:
  assumes "live_with False hs h s"
  shows "\<exists>s'. fw_step hs h opr s = Inr s' \<and> live_with False hs h s'"
proof -
  have att: "attached_to h s"
    using assms by (simp add: live_with_def)
  have two: "call_abi 2 True hs h = call_abi (Suc (Suc 0)) True hs h"
    by (simp only: numeral_2_eq_2)
  show ?thesis
  proof (cases opr)
    case (FwWrite bs)
    let ?sp = "snd (snd (serial_write bs (hal_serial s)))"
    have "live_with False hs h (s\<lparr>hal_serial := ?sp\<rparr>)"
      using assms by (rule live_with_serial) (simp_all add: serial_write_def Let_def)
    moreover have "list_all (\<lambda>c. case c of DataReadyCall i \<Rightarrow> i = h | LineConfigCall i b k \<Rightarrow> i = h)
        (fst (snd (serial_write bs (hal_serial s))))"
      using att by (auto simp: attached_to_def serial_write_def Let_def)
    ultimately show ?thesis
      using FwWrite two by (simp add: fw_step_def split_def Let_def serial_calls_run)
  next
    case FwRead
    then show ?thesis
      using assms by (auto simp: fw_step_def intro: live_with_serial)
  next
    case (FwDigitalWrite pin val)
    then show ?thesis
      using assms att two
      by (simp add: fw_step_def split_def Let_def digitalWrite_def signal_calls_run
          digital_write_signals_to live_with_pins)
  next
    case (FwBegin b)
    let ?sp = "snd (hw_begin b (hal_serial s))"
    have "live_with False hs h (s\<lparr>hal_serial := ?sp\<rparr>)"
      using assms
      by (rule live_with_serial) (cases b; simp add: set_line_baud_def set_line_config_def)+
    moreover have "list_all (\<lambda>c. case c of DataReadyCall i \<Rightarrow> i = h | LineConfigCall i b k \<Rightarrow> i = h)
        (fst (hw_begin b (hal_serial s)))"
      using att by (cases b) (auto simp: attached_to_def set_line_baud_def set_line_config_def)
    ultimately show ?thesis
      using FwBegin two by (simp add: fw_step_def split_def Let_def serial_calls_run)
  next
    case (FwDebugPrintf formatted)
    have "list_all (\<lambda>c. case c of LogCall i m \<Rightarrow> i = h) (zimodem_hal_debug_printf formatted (hal_log s))"
      using att
      by (auto simp: attached_to_def zimodem_hal_debug_printf_def vwritef_def log_write_def Let_def)
    then show ?thesis
      using assms FwDebugPrintf two by (simp add: fw_step_def log_calls_run)
  qed
qed

lemma safe_handlers_run:
  assumes "live_with False hs h s"
  shows "\<exists>s'. fw_run hs h oprs s = Inr s' \<and> live_with False hs h s'"
  unfolding fw_run_def
  by (rule run_list_runs [where I = "live_with False hs h" and ok = "\<lambda>_. True"])
    (use assms fw_step_runs in \<open>auto simp: list_all_iff\<close>)

text \<open>
  C3: handlers that follow the rules cannot hang the modem. If every function registered with
  the instance makes only calls that need no callback mutex (writing and reading serial data,
  asking for the line settings; the line-settings handler may also drive pins), then whatever
  the firmware does, and however its writes, pin changes, line changes and log lines nest
  handlers, every step completes: no mutex is relocked, no freed instance is used, and the
  callback mutex is free again at the end.
\<close>

theorem safe_handlers_never_deadlock:
  assumes "live_with False hs h s"
  shows "\<exists>s'. fw_run hs h oprs s = Inr s' \<and> live_with False hs h s'"
  using safe_handlers_run [OF assms] .

text \<open>A host in which instance 1 is created and has functions 10 to 13 registered.\<close>

definition sample_host :: host where
  "sample_host =
     host_init\<lparr>
       heap := [1 \<mapsto> new_instance\<lparr>on_serial_out := Some 10, on_signal := Some 11,
                      on_log := Some 12, on_line_config := Some 13, user_context := 99\<rparr>],
       hal_serial := set_line_config_callback (Some 1) (set_data_ready_callback (Some 1) serial_init),
       hal_pins := set_signal_callback (Some 1) pins_init,
       hal_log := set_sink (Some 1) log_init,
       g_active_instance := Some 1\<rparr>"

definition sample_handlers :: handlers where
  "sample_handlers f =
     (if f = 10 then [CallRxAvailable, CallRxRead, CallWriteSerial [65]]
      else if f = 13 then [CallSetPin kPinCts 1, CallGetLineConfig] else [])"

lemma sample_live: "live_with False sample_handlers 1 sample_host"
  by (simp add: live_with_def sample_host_def sample_handlers_def handlers_ok_def attached_to_def
      safe_under_mutex_def safe_in_line_config_def new_instance_def set_sink_def
      set_signal_callback_def set_line_config_callback_def set_data_ready_callback_def)

theorem safe_handlers_never_deadlock_witness:
  "\<exists>s'. fw_run sample_handlers 1 [FwBegin (BeginConfig 115200 SERIAL_8N1), FwWrite [79, 75]] sample_host
          = Inr s'
        \<and> live_with False sample_handlers 1 s'"
  using safe_handlers_never_deadlock [OF sample_live] by simp

text \<open>
  C34: flow control from the serial-out handler hangs the modem. If the \<open>on_serial_out\<close> handler,
  after any calls that need no mutex, drives a pin to a value it does not hold (the documented
  use of \<open>zimodem_host_set_pin\<close>: deassert CTS to hold the modem off), then the signal
  lambda locks the mutex that the serial-out lambda holds: the first byte the firmware writes
  relocks \<open>callback_mutex\<close>, whether or not a signal function is registered.
\<close>

theorem flow_control_in_serial_handler_relocks:
  assumes "heap s h = Some inst" and "\<not> callback_mutex_held inst"
    and "on_serial_out inst = Some f"
    and "hs f = before @ CallSetPin pin val # after" and "list_all safe_under_mutex before"
    and "g_data_ready_callback (hal_serial s) = Some h"
    and "g_callback (hal_pins s) = Some h" and "g_value (hal_pins s) pin \<noteq> Some val"
    and "bs \<noteq> []"
  shows "fw_step hs h (FwWrite bs) s = Inl MutexRelocked"
proof -
  define s1 where "s1 = s\<lparr>hal_serial := snd (snd (serial_write bs (hal_serial s))),
      heap := (heap s)(h \<mapsto> inst\<lparr>callback_mutex_held := True\<rparr>),
      events := events s @ [SerialOut f (user_context inst)]\<rparr>"
  have "mutex_of h s1 = Some True" and pins: "hal_pins s1 = hal_pins s"
    by (simp_all add: s1_def mutex_of_def)
  then obtain s2 where before: "run_list (call_abi 2 True hs h) before s1 = Inr s2"
    and mutex: "mutex_of h s2 = Some True" and pins2: "hal_pins s2 = hal_pins s1"
    using safe_calls_frame [of h s1 True before "Suc 0" True hs] assms(5)
    unfolding numeral_2_eq_2 by blast
  have "call_abi 2 True hs h (CallSetPin pin val) s2 = Inl MutexRelocked"
    using changing_set_pin_relocks [OF mutex] assms(7,8) pins pins2
    unfolding numeral_2_eq_2 by simp
  then have "run_list (call_abi 2 True hs h) (hs f) s1 = Inl MutexRelocked"
    by (simp add: assms(4) run_list_append before)
  then show ?thesis
    using assms(1-3,6,9)
    by (simp add: fw_step_def serial_write_def Let_def serial_call_action_def data_ready_lambda_def
        lock_and_call_def s1_def)
qed

text \<open>The registered handler reads one byte and then deasserts CTS.\<close>

theorem flow_control_in_serial_handler_relocks_witness:
  "fw_step (\<lambda>f. [CallRxRead, CallSetPin kPinCts kCtsInactive]) 1 (FwWrite [79]) sample_host
     = Inl MutexRelocked"
  by (rule flow_control_in_serial_handler_relocks [where before = "[CallRxRead]" and after = "[]"
        and inst = "the (heap sample_host 1)" and f = 10 and pin = kPinCts and val = kCtsInactive])
    (simp_all add: sample_host_def new_instance_def safe_under_mutex_def set_signal_callback_def
      set_line_config_callback_def set_data_ready_callback_def pins_init_def)

end
