(* ===== verification/HostLifecycle.thy ===== *)
theory HostLifecycle
  imports HostCallbacks
begin

text \<open>
  The life of the one instance a process may have. A step is one call of the exported ABI, by
  any thread, or one action of the firmware on the background thread; the invariant ties the
  singleton pointer, the heap and the four callback slots of the HAL together. Failed
  allocations are counted, because they unbalance \<open>global_init\<close> and \<open>global_shutdown\<close>.
\<close>

section \<open>The invariant\<close>

definition callbacks_are :: "inst_ptr option \<Rightarrow> host \<Rightarrow> bool" where
  "callbacks_are c s \<longleftrightarrow>
     g_data_ready_callback (hal_serial s) = c \<and> g_line_config_callback (hal_serial s) = c \<and>
     g_callback (hal_pins s) = c \<and> g_sink (hal_log s) = c"

text \<open>The HAL's callbacks are those of the active instance, the only live one.\<close>

definition singleton_inv :: "host \<Rightarrow> bool" where
  "singleton_inv s \<longleftrightarrow>
     dom (heap s) = set_option (g_active_instance s) \<and> callbacks_are (g_active_instance s) s"

lemma callbacks_are_frame:
  "callbacks_are c s \<Longrightarrow>
     g_data_ready_callback (hal_serial t) = g_data_ready_callback (hal_serial s) \<Longrightarrow>
     g_line_config_callback (hal_serial t) = g_line_config_callback (hal_serial s) \<Longrightarrow>
     g_callback (hal_pins t) = g_callback (hal_pins s) \<Longrightarrow>
     g_sink (hal_log t) = g_sink (hal_log s) \<Longrightarrow> callbacks_are c t"
  by (simp add: callbacks_are_def)

text \<open>What a step may change without touching the invariant.\<close>

definition same_registration :: "host \<Rightarrow> host \<Rightarrow> bool" where
  "same_registration s t \<longleftrightarrow>
     dom (heap t) = dom (heap s) \<and> g_active_instance t = g_active_instance s \<and>
     net_inits t = net_inits s \<and>
     g_data_ready_callback (hal_serial t) = g_data_ready_callback (hal_serial s) \<and>
     g_line_config_callback (hal_serial t) = g_line_config_callback (hal_serial s) \<and>
     g_callback (hal_pins t) = g_callback (hal_pins s) \<and>
     g_sink (hal_log t) = g_sink (hal_log s)"

lemma same_registration_refl [simp]: "same_registration s s"
  by (simp add: same_registration_def)

text \<open>
  The accounted invariant: \<open>n\<close> initialisations of the network library have no instance that
  will undo them.
\<close>

definition host_inv :: "nat \<Rightarrow> host \<Rightarrow> bool" where
  "host_inv n s \<longleftrightarrow>
     singleton_inv s \<and>
     net_inits s = int n + (if g_active_instance s = None then 0 else 1)"

lemma host_inv_frame: "host_inv n s \<Longrightarrow> same_registration s t \<Longrightarrow> host_inv n t"
  by (simp add: host_inv_def singleton_inv_def same_registration_def callbacks_are_def)

section \<open>Every operation keeps it\<close>

lemma destroy_keeps:
  assumes "host_inv n s" and "zimodem_host_destroy w h s = Inr t"
  shows "host_inv n t"
proof (cases h)
  case None
  then show ?thesis
    using assms by (simp add: zimodem_host_destroy_def)
next
  case (Some i)
  then obtain inst where "heap s i = Some inst"
    using assms(2) by (auto simp: zimodem_host_destroy_def split: option.splits)
  moreover from this have "g_active_instance s = Some i"
    using assms(1) by (force simp: host_inv_def singleton_inv_def)
  ultimately show ?thesis
    using assms Some
    by (auto simp: zimodem_host_destroy_def host_inv_def singleton_inv_def callbacks_are_def Let_def
        set_data_ready_callback_def set_line_config_callback_def set_signal_callback_def set_sink_def
        dom_singleton_upd_None split: if_splits)
qed

lemma set_callbacks_same:
  "zimodem_host_set_callbacks h cbs s = Inr t \<Longrightarrow> same_registration s t"
  by (auto simp: zimodem_host_set_callbacks_def same_registration_def split: option.splits if_splits)

lemma start_same: "zimodem_host_start sp h s = (r, t) \<Longrightarrow> same_registration s t"
  by (auto simp: zimodem_host_start_def same_registration_def Let_def split: option.splits if_splits)

lemma write_serial_same: "same_registration s (snd (zimodem_host_write_serial h bs s))"
  by (simp add: zimodem_host_write_serial_def same_registration_def split: option.split)

lemma rx_read_same: "same_registration s (snd (zimodem_host_rx_read h s))"
  by (simp add: zimodem_host_rx_read_def same_registration_def split_def Let_def split: option.split)

lemma lock_and_call_keeps:
  assumes "\<And>cs s t. run cs s = Inr t \<Longrightarrow> host_inv n s \<Longrightarrow> host_inv n t"
    and "lock_and_call run hs i which event s = Inr t" and "host_inv n s"
  shows "host_inv n t"
proof -
  obtain inst where inst: "heap s i = Some inst" and free: "\<not> callback_mutex_held inst"
    using assms(2) by (auto simp: lock_and_call_def split: option.splits if_splits)
  show ?thesis
  proof (cases "which inst")
    case None
    then show ?thesis
      using assms(2,3) inst free by (simp add: lock_and_call_def)
  next
    case (Some f)
    let ?s1 = "s\<lparr>heap := (heap s)(i \<mapsto> inst\<lparr>callback_mutex_held := True\<rparr>),
                 events := events s @ [event f (user_context inst)]\<rparr>"
    obtain s2 inst2 where run: "run (hs f) ?s1 = Inr s2" and inst2: "heap s2 i = Some inst2"
      and t: "t = s2\<lparr>heap := (heap s2)(i \<mapsto> inst2\<lparr>callback_mutex_held := False\<rparr>)\<rparr>"
      using assms(2) inst free Some
      by (auto simp: lock_and_call_def Let_def split: sum.splits option.splits)
    have "host_inv n ?s1"
      using assms(3) inst by (auto elim!: host_inv_frame simp: same_registration_def)
    with run have "host_inv n s2"
      by (rule assms(1))
    then show ?thesis
      using inst2 by (auto elim!: host_inv_frame simp: same_registration_def t)
  qed
qed

lemma signal_call_keeps:
  assumes "\<And>cs s t. run cs s = Inr t \<Longrightarrow> host_inv n s \<Longrightarrow> host_inv n t"
    and "signal_call_action run hs c s = Inr t" and "host_inv n s"
  shows "host_inv n t"
  using assms(2,3)
  by (cases c) (auto simp: signal_call_action_def signal_lambda_def
      intro: lock_and_call_keeps [OF assms(1)])

lemma set_pin_keeps:
  assumes run: "\<And>cs s t. run cs s = Inr t \<Longrightarrow> host_inv n s \<Longrightarrow> host_inv n t"
    and "zimodem_host_set_pin run hs h pin val s = Inr t" and "host_inv n s"
  shows "host_inv n t"
proof (cases h)
  case None
  then show ?thesis
    using assms(2,3) by (simp add: zimodem_host_set_pin_def)
next
  case (Some i)
  let ?s1 = "s\<lparr>hal_pins := snd (digital_write pin val (hal_pins s))\<rparr>"
  have calls: "run_list (signal_call_action run hs) (fst (digital_write pin val (hal_pins s))) ?s1 = Inr t"
    using assms(2) Some by (simp add: zimodem_host_set_pin_def split_def Let_def)
  have "host_inv n ?s1"
    using assms(3) by (auto elim!: host_inv_frame simp: same_registration_def)
  with calls show ?thesis
    by (rule run_list_preserves [where I = "host_inv n", rotated])
      (rule signal_call_keeps [OF run])
qed

lemma call_abi_keeps: "call_abi d w hs h c s = Inr t \<Longrightarrow> host_inv n s \<Longrightarrow> host_inv n t"
proof (induction d arbitrary: c s t)
  case 0
  then show ?case by simp
next
  case (Suc d)
  have run: "run_list (call_abi d w hs h) cs s = Inr t \<Longrightarrow> host_inv n s \<Longrightarrow> host_inv n t" for cs s t
    by (rule run_list_preserves [where I = "host_inv n"]) (rule Suc.IH)
  show ?case
  proof (cases c)
    case (CallWriteSerial bs)
    then show ?thesis
      using Suc.prems write_serial_same host_inv_frame by auto
  next
    case CallRxRead
    then show ?thesis
      using Suc.prems rx_read_same host_inv_frame by auto
  next
    case (CallSetPin p v)
    then show ?thesis
      using Suc.prems by (auto intro: set_pin_keeps [OF run])
  next
    case (CallSetCallbacks cbs)
    then show ?thesis
      using Suc.prems set_callbacks_same host_inv_frame by auto
  next
    case CallStart
    then show ?thesis
      using Suc.prems start_same host_inv_frame by (fastforce split: sum.splits prod.splits)
  next
    case CallDestroy
    then show ?thesis
      using Suc.prems destroy_keeps by auto
  qed (use Suc.prems in auto)
qed

lemma calls_keep:
  "run_list (call_abi d w hs h) cs s = Inr t \<Longrightarrow> host_inv n s \<Longrightarrow> host_inv n t"
  by (rule run_list_preserves [where I = "host_inv n"]) (rule call_abi_keeps)

lemma line_config_lambda_keeps:
  assumes run: "\<And>cs s t. run cs s = Inr t \<Longrightarrow> host_inv n s \<Longrightarrow> host_inv n t"
    and "line_config_lambda run hs i baud config s = Inr t" and "host_inv n s"
  shows "host_inv n t"
proof -
  have "host_inv n (s\<lparr>events := es\<rparr>)" for es
    using assms(3) by (rule host_inv_frame) (simp add: same_registration_def)
  with run assms(2,3) show ?thesis
    by (auto simp: line_config_lambda_def split_def Let_def split: option.splits if_splits)
qed

lemma serial_call_keeps:
  assumes "\<And>cs s t. run cs s = Inr t \<Longrightarrow> host_inv n s \<Longrightarrow> host_inv n t"
    and "serial_call_action run hs c s = Inr t" and "host_inv n s"
  shows "host_inv n t"
  using assms(2,3)
  by (cases c) (auto simp: serial_call_action_def data_ready_lambda_def
      intro: lock_and_call_keeps [OF assms(1)] line_config_lambda_keeps [OF assms(1)])

lemma log_call_keeps:
  assumes "\<And>cs s t. run cs s = Inr t \<Longrightarrow> host_inv n s \<Longrightarrow> host_inv n t"
    and "log_call_action run hs c s = Inr t" and "host_inv n s"
  shows "host_inv n t"
  using assms(2,3)
  by (cases c) (auto simp: log_call_action_def instance_log_def
      intro: lock_and_call_keeps [OF assms(1)])

lemma same_registration_serial:
  "g_data_ready_callback sp = g_data_ready_callback (hal_serial s) \<Longrightarrow>
   g_line_config_callback sp = g_line_config_callback (hal_serial s) \<Longrightarrow>
     same_registration s (s\<lparr>hal_serial := sp\<rparr>)"
  by (simp add: same_registration_def)

lemma hw_begin_frame [simp]:
  "g_data_ready_callback (snd (hw_begin b s)) = g_data_ready_callback s"
  "g_line_config_callback (snd (hw_begin b s)) = g_line_config_callback s"
  by (cases b; simp add: set_line_baud_def set_line_config_def)+

lemma serial_write_frame [simp]:
  "g_data_ready_callback (snd (snd (serial_write bs s))) = g_data_ready_callback s"
  "g_line_config_callback (snd (snd (serial_write bs s))) = g_line_config_callback s"
  by (simp_all add: serial_write_def Let_def)

lemma fw_step_keeps:
  assumes "fw_step hs h opr s = Inr t" and "host_inv n s"
  shows "host_inv n t"
proof -
  let ?run = "run_list (call_abi 2 True hs h)"
  have serial: "host_inv n t"
    if "run_list (serial_call_action ?run hs) calls (s\<lparr>hal_serial := sp\<rparr>) = Inr t"
      and "same_registration s (s\<lparr>hal_serial := sp\<rparr>)" for calls sp
    using that(1) host_inv_frame [OF assms(2) that(2)]
    by (rule run_list_preserves [where I = "host_inv n", rotated])
      (rule serial_call_keeps [OF calls_keep])
  show ?thesis
  proof (cases opr)
    case (FwWrite bs)
    then show ?thesis
      using assms(1)
      by (auto simp: fw_step_def split_def Let_def intro!: serial same_registration_serial)
  next
    case FwRead
    then have "t = s\<lparr>hal_serial := snd (serial_read (hal_serial s))\<rparr>"
      using assms(1) by (simp add: fw_step_def)
    then show ?thesis
      by (simp add: host_inv_frame [OF assms(2)] same_registration_serial)
  next
    case (FwDigitalWrite pin val)
    let ?s1 = "s\<lparr>hal_pins := snd (digital_write (uint pin) (uint val) (hal_pins s))\<rparr>"
    have "run_list (signal_call_action ?run hs)
        (fst (digital_write (uint pin) (uint val) (hal_pins s))) ?s1 = Inr t"
      using assms(1) FwDigitalWrite by (simp add: fw_step_def digitalWrite_def split_def Let_def)
    moreover have "host_inv n ?s1"
      using assms(2) by (rule host_inv_frame) (simp add: same_registration_def)
    ultimately show ?thesis
      by (rule run_list_preserves [where I = "host_inv n", rotated])
        (rule signal_call_keeps [OF calls_keep])
  next
    case (FwBegin b)
    then show ?thesis
      using assms(1)
      by (auto simp: fw_step_def split_def Let_def intro!: serial same_registration_serial)
  next
    case (FwDebugPrintf formatted)
    then have "run_list (log_call_action ?run hs) (zimodem_hal_debug_printf formatted (hal_log s)) s = Inr t"
      using assms(1) by (simp add: fw_step_def)
    then show ?thesis
      using assms(2)
      by (rule run_list_preserves [where I = "host_inv n", rotated])
        (rule log_call_keeps [OF calls_keep])
  qed
qed

section \<open>Creation\<close>

text \<open>The one branch of \<open>create\<close> that initialises the network library and then gives up.\<close>

definition allocation_fails ::
  "bool \<Rightarrow> inst_ptr option \<Rightarrow> c_string option \<Rightarrow> host \<Rightarrow> bool" where
  "allocation_fails created allocated cfg s \<longleftrightarrow>
     (case cfg of
        Some (Some data_dir) \<Rightarrow>
          c_view data_dir \<noteq> [] \<and> g_active_instance s = None \<and>
          fst (fs_set_root created (c_view data_dir) (hal_fs s)) \<and> allocated = None
      | _ \<Rightarrow> False)"

lemma create_keeps:
  assumes "zimodem_host_create created alloc cfg s = (r, t)" and "host_inv n s"
  shows "host_inv (if allocation_fails created alloc cfg s then Suc n else n) t"
proof (cases "cfg = None \<or> cfg = Some None \<or> (\<exists>d. cfg = Some (Some d) \<and> c_view d = [])
    \<or> g_active_instance s \<noteq> None")
  case True
  then have "t = s" and "\<not> allocation_fails created alloc cfg s"
    using assms(1) by (auto simp: zimodem_host_create_def allocation_fails_def split: option.splits if_splits)
  then show ?thesis
    using assms(2) by simp
next
  case False
  then obtain d where cfg: "cfg = Some (Some d)" and d: "c_view d \<noteq> []"
    and idle: "g_active_instance s = None"
    by (metis not_None_eq)
  have "heap s = Map.empty"
    using assms(2) idle by (simp add: host_inv_def singleton_inv_def)
  then show ?thesis
    using assms cfg d idle
    by (auto simp: zimodem_host_create_def allocation_fails_def Let_def split_def host_inv_def singleton_inv_def
        callbacks_are_def set_data_ready_callback_def set_line_config_callback_def
        set_signal_callback_def set_sink_def split: if_splits option.splits)
qed

section \<open>Reachable states\<close>

text \<open>
  \<open>host_reachable n s\<close>: some history of ABI calls and firmware actions leads from the start of
  the process to \<open>s\<close>, with \<open>n\<close> failed allocations in it. Steps that end in an error value have
  no successor, except for the escaping exceptions of \<open>create\<close> and \<open>start\<close>, which a caller
  may survive.
\<close>

inductive host_reachable :: "nat \<Rightarrow> host \<Rightarrow> bool" where
  boot: "host_reachable 0 host_init"
| create: "host_reachable n s \<Longrightarrow> zimodem_host_create created alloc cfg s = (r, t) \<Longrightarrow>
     host_reachable (if allocation_fails created alloc cfg s then Suc n else n) t"
| set_callbacks: "host_reachable n s \<Longrightarrow> zimodem_host_set_callbacks h cbs s = Inr t \<Longrightarrow>
     host_reachable n t"
| start: "host_reachable n s \<Longrightarrow> zimodem_host_start spawned h s = (r, t) \<Longrightarrow> host_reachable n t"
| write_serial: "host_reachable n s \<Longrightarrow> zimodem_host_write_serial h bs s = (r, t) \<Longrightarrow>
     host_reachable n t"
| rx_read: "host_reachable n s \<Longrightarrow> zimodem_host_rx_read h s = (r, t) \<Longrightarrow> host_reachable n t"
| set_pin: "host_reachable n s \<Longrightarrow>
     zimodem_host_set_pin (run_list (call_abi 2 w hs i)) hs h pin val s = Inr t \<Longrightarrow>
     host_reachable n t"
| firmware: "host_reachable n s \<Longrightarrow> heap s i = Some inst \<Longrightarrow> worker_joinable inst \<Longrightarrow>
     fw_step hs i opr s = Inr t \<Longrightarrow> host_reachable n t"
| files: "host_reachable n s \<Longrightarrow> host_reachable n (s\<lparr>hal_fs := fs\<rparr>)"
| destroy: "host_reachable n s \<Longrightarrow> zimodem_host_destroy w h s = Inr t \<Longrightarrow> host_reachable n t"

lemma host_inv_init: "host_inv 0 host_init"
  by (simp add: host_inv_def singleton_inv_def callbacks_are_def host_init_def serial_init_def
      pins_init_def log_init_def)

lemma reachable_host_inv: "host_reachable n s \<Longrightarrow> host_inv n s"
proof (induction rule: host_reachable.induct)
  case boot
  show ?case by (rule host_inv_init)
next
  case (create n s created alloc cfg r t)
  then show ?case by (blast intro: create_keeps)
next
  case (set_callbacks n s h cbs t)
  then show ?case by (blast intro: host_inv_frame set_callbacks_same)
next
  case (start n s spawned h r t)
  then show ?case by (blast intro: host_inv_frame start_same)
next
  case (write_serial n s h bs r t)
  then show ?case using host_inv_frame [OF _ write_serial_same, of n s h bs] by simp
next
  case (rx_read n s h r t)
  then show ?case using host_inv_frame [OF _ rx_read_same, of n s h] by simp
next
  case (set_pin n s w hs i h pin val t)
  from calls_keep set_pin.hyps(2) set_pin.IH show ?case by (rule set_pin_keeps)
next
  case (firmware n s i inst hs opr t)
  then show ?case by (blast intro: fw_step_keeps)
next
  case (files n s fs)
  then show ?case by (simp add: host_inv_def singleton_inv_def callbacks_are_def)
next
  case (destroy n s w h t)
  then show ?case by (blast intro: destroy_keeps)
qed

section \<open>The serial line seen through the ABI\<close>

text \<open>The firmware's side of the input queue, as \<open>HardwareSerialCompat::read\<close> uses it.\<close>

definition firmware_read :: "host \<Rightarrow> int \<times> host" where
  "firmware_read s =
     (let (v, sp) = serial_read (hal_serial s) in (v, s\<lparr>hal_serial := sp\<rparr>))"

definition abi_write :: "inst_ptr \<Rightarrow> bytes \<Rightarrow> host \<Rightarrow> host" where
  "abi_write h bs s = snd (zimodem_host_write_serial (Some h) bs s)"

interpretation abi_in: byte_queue "\<lambda>s. g_input (hal_serial s)" "abi_write h" firmware_read
proof
  fix bs s
  show "g_input (hal_serial (abi_write h bs s)) = g_input (hal_serial s) @ bs"
    by (simp add: abi_write_def zimodem_host_write_serial_def)
  show "fst (firmware_read s) = head_or_neg1 (g_input (hal_serial s))"
    by (simp add: firmware_read_def split_def Let_def inq.poll_value)
  show "g_input (hal_serial (snd (firmware_read s))) = tl (g_input (hal_serial s))"
    by (simp add: firmware_read_def split_def Let_def inq.poll_rest)
qed

section \<open>Properties\<close>

text \<open>
  C1: one modem per process, and no dangling callback. In every state that some history of ABI
  calls, by any thread and from any handler, and of firmware actions can reach, the live
  instances are exactly the active one (none or one), every callback slot of the HAL is empty
  or refers to a live instance, and the network library has been initialised once for each live
  instance and once more for each allocation that failed.
\<close>

theorem one_instance_no_dangling_callback:
  assumes "host_reachable n s"
  shows "dom (heap s) = set_option (g_active_instance s)
    \<and> set_option (g_data_ready_callback (hal_serial s))
        \<union> set_option (g_line_config_callback (hal_serial s))
        \<union> set_option (g_callback (hal_pins s)) \<union> set_option (g_sink (hal_log s)) \<subseteq> dom (heap s)
    \<and> net_inits s = int n + int (card (dom (heap s)))"
  using reachable_host_inv [OF assms]
  by (auto simp: host_inv_def singleton_inv_def callbacks_are_def)

theorem one_instance_no_dangling_callback_witness:
  "\<exists>s. host_reachable 0 s \<and> g_active_instance s = Some 5 \<and> dom (heap s) = {5} \<and> net_inits s = 1"
proof -
  obtain s where create: "zimodem_host_create True (Some 5) (Some (Some ''data'')) host_init
      = (Inr (Some 5), s)" and active: "g_active_instance s = Some 5"
    by (simp add: zimodem_host_create_def host_init_def Let_def c_view_def)
  have "\<not> allocation_fails True (Some 5) (Some (Some ''data'')) host_init"
    by (simp add: allocation_fails_def)
  then have reach: "host_reachable 0 s"
    using host_reachable.create [OF host_reachable.boot create] by simp
  show ?thesis
    using one_instance_no_dangling_callback [OF reach] reach active by auto
qed

text \<open>
  \<open>create\<close> on every branch. It returns null and changes nothing for a missing configuration,
  a missing or empty directory, or while an instance exists; otherwise it points the emulated
  flash file system at the directory and either lets the exception of a failed directory
  creation escape, or returns null when allocation fails, or returns the new instance, with its
  lambdas in all four callback slots.
\<close>

theorem create_on_every_branch:
  "zimodem_host_create created alloc cfg s =
     (if cfg = None \<or> cfg = Some None \<or> c_view (the (the cfg)) = [] then (Inr None, s)
      else if g_active_instance s \<noteq> None then (Inr None, s)
      else
        let dir = c_view (the (the cfg)) in
        let (ok, fs) = fs_set_root created dir (hal_fs s) in
        if \<not> ok then (Inl ExceptionEscapes, s\<lparr>hal_fs := fs\<rparr>)
        else (case alloc of
          None \<Rightarrow> (Inr None, s\<lparr>hal_fs := fs, net_inits := net_inits s + 1\<rparr>)
        | Some i \<Rightarrow>
            (Inr (Some i),
             s\<lparr>hal_fs := fs, net_inits := net_inits s + 1,
               heap := (heap s)(i \<mapsto> new_instance),
               hal_serial := (hal_serial s)\<lparr>g_data_ready_callback := Some i,
                                            g_line_config_callback := Some i\<rparr>,
               hal_pins := (hal_pins s)\<lparr>g_callback := Some i\<rparr>,
               hal_log := (hal_log s)\<lparr>g_sink := Some i\<rparr>,
               g_active_instance := Some i\<rparr>)))"
  by (simp add: zimodem_host_create_def Let_def set_data_ready_callback_def
      set_line_config_callback_def set_signal_callback_def set_sink_def split_def split: option.split)

text \<open>
  A failed allocation unbalances the network library for good. \<open>create\<close> returns null after
  \<open>global_init\<close>, no instance exists that would call \<open>global_shutdown\<close>, and in every state
  reachable from then on the library stays initialised at least once more than there are live
  instances.
\<close>

theorem failed_allocation_leaks_network_init:
  assumes "host_reachable n s" and "allocation_fails created alloc cfg s"
  shows "fst (zimodem_host_create created alloc cfg s) = Inr None
    \<and> net_inits (snd (zimodem_host_create created alloc cfg s)) = int n + 1
    \<and> heap (snd (zimodem_host_create created alloc cfg s)) = Map.empty"
  using reachable_host_inv [OF assms(1)] assms(2)
  by (auto simp: allocation_fails_def zimodem_host_create_def Let_def split_def host_inv_def singleton_inv_def
      split: option.splits)

theorem failed_allocation_leaks_network_init_witness:
  "net_inits (snd (zimodem_host_create True None (Some (Some ''d'')) host_init)) = 1"
proof -
  have "allocation_fails True None (Some (Some ''d'')) host_init"
    by (simp add: allocation_fails_def host_init_def c_view_def)
  from failed_allocation_leaks_network_init [OF host_reachable.boot this] show ?thesis
    by simp
qed

text \<open>
  C12: the host's bytes reach the firmware intact. However calls of \<open>zimodem_host_write_serial\<close>
  and the firmware's single-byte reads interleave, the bytes read followed by those still queued
  are the bytes queued at the start followed by the bytes written, in order.
\<close>

theorem host_to_modem_no_loss_in_order:
  assumes "q_run (abi_write h) firmware_read oprs s = (vs, t)"
  shows "delivered vs @ map uint (g_input (hal_serial t)) = map uint (g_input (hal_serial s) @ pushed oprs)"
  using assms by (rule abi_in.no_loss_in_order)

theorem host_to_modem_no_loss_in_order_witness:
  "delivered [- 1, 65] @ map uint (g_input (hal_serial (abi_write 1 [84] host_init))) = [65, 84]"
proof -
  have run: "q_run (abi_write 1) firmware_read [Poll, Push [65, 84], Poll] host_init
      = ([- 1, 65], abi_write 1 [84] host_init)"
    by (simp add: abi_write_def firmware_read_def zimodem_host_write_serial_def serial_read_def
        feed_input_def host_init_def serial_init_def Let_def)
  show ?thesis
    using host_to_modem_no_loss_in_order [OF run] by (simp add: host_init_def serial_init_def)
qed

text \<open>
  A thread that cannot be spawned poisons the instance. The exception of \<open>std::thread\<close>
  escapes \<open>zimodem_host_start\<close> with \<open>started\<close> and \<open>running\<close> already set, so the instance
  claims to run although no thread does, and every later attempt to start it is refused.
\<close>

theorem failed_spawn_poisons_instance:
  assumes "heap s h = Some inst" and "\<not> started inst"
    and "zimodem_host_start False (Some h) s = (r, t)"
  shows "r = Inl ExceptionEscapes
    \<and> heap t h = Some (inst\<lparr>started := True, running := True\<rparr>)
    \<and> zimodem_host_start spawned (Some h) t = (Inr (- 1), t)"
  using assms by (auto simp: zimodem_host_start_def)

theorem failed_spawn_poisons_instance_witness:
  "zimodem_host_start True (Some 1) (snd (zimodem_host_start False (Some 1) sample_host))
     = (Inr (- 1), snd (zimodem_host_start False (Some 1) sample_host))"
proof -
  have inst: "heap sample_host 1 = Some (the (heap sample_host 1))"
    and fresh: "\<not> started (the (heap sample_host 1))"
    by (simp_all add: sample_host_def new_instance_def)
  obtain r t where start: "zimodem_host_start False (Some 1) sample_host = (r, t)"
    by (cases "zimodem_host_start False (Some 1) sample_host")
  show ?thesis
    using failed_spawn_poisons_instance [OF inst fresh start, of True] start by simp
qed

text \<open>
  A new instance inherits the old one's serial line. Destroying an instance and creating
  the next clears neither byte queue, nor the pins, nor the recorded line settings: bytes the old
  modem queued are delivered to the new instance's host, and its firmware's power-on \<open>begin\<close>
  with the settings the old one had last is taken for a redundant one, so \<open>on_line_config\<close> is
  not called for it.
\<close>

theorem recreated_instance_inherits_serial_state:
  assumes "zimodem_host_destroy w (Some h) s = Inr t"
    and "zimodem_host_create created alloc cfg t = (Inr (Some j), u)"
    and "g_line_baud (hal_serial s) = baud" and "g_line_config (hal_serial s) = config"
  shows "g_input (hal_serial u) = g_input (hal_serial s)
    \<and> g_rx_queue (hal_serial u) = g_rx_queue (hal_serial s)
    \<and> g_value (hal_pins u) = g_value (hal_pins s)
    \<and> fw_step hs j (FwBegin (BeginConfig baud config)) u = Inr u"
proof -
  have t: "hal_serial t = (hal_serial s)\<lparr>g_data_ready_callback := None, g_line_config_callback := None\<rparr>"
    and tp: "g_value (hal_pins t) = g_value (hal_pins s)"
    using assms(1)
    by (auto simp: zimodem_host_destroy_def Let_def set_data_ready_callback_def
        set_line_config_callback_def set_signal_callback_def split: option.splits if_splits)
  have u: "hal_serial u = (hal_serial t)\<lparr>g_data_ready_callback := Some j, g_line_config_callback := Some j\<rparr>"
    and up: "g_value (hal_pins u) = g_value (hal_pins t)"
    using assms(2)
    by (auto simp: zimodem_host_create_def Let_def split_def set_data_ready_callback_def
        set_line_config_callback_def set_signal_callback_def split: option.splits if_splits)
  show ?thesis
    using assms(3,4) by (simp add: t u tp up fw_step_def set_line_config_def)
qed

theorem recreated_instance_inherits_serial_state_witness:
  "g_rx_queue (hal_serial (snd (zimodem_host_create True (Some 2) (Some (Some ''d''))
       (projr (zimodem_host_destroy False (Some 1)
         (sample_host\<lparr>hal_serial := (hal_serial sample_host)\<lparr>g_rx_queue := [79, 75]\<rparr>\<rparr>)))))) = [79, 75]"
proof -
  let ?s = "sample_host\<lparr>hal_serial := (hal_serial sample_host)\<lparr>g_rx_queue := [79, 75]\<rparr>\<rparr>"
  let ?t = "projr (zimodem_host_destroy False (Some 1) ?s)"
  let ?u = "snd (zimodem_host_create True (Some 2) (Some (Some ''d'')) ?t)"
  have gone: "zimodem_host_destroy False (Some 1) ?s = Inr ?t"
    by (simp add: zimodem_host_destroy_def sample_host_def new_instance_def Let_def)
  have again: "zimodem_host_create True (Some 2) (Some (Some ''d'')) ?t = (Inr (Some 2), ?u)"
    by (simp add: zimodem_host_create_def zimodem_host_destroy_def sample_host_def host_init_def
        new_instance_def Let_def c_view_def)
  show ?thesis
    using recreated_instance_inherits_serial_state [OF gone again refl refl] by simp
qed

end
