(* ===== verification/HostThreads.thy ===== *)
theory HostThreads
  imports HostLifecycle
begin

text \<open>
  The threads of \<open>native/wrapper/src/zimodem_host.cpp\<close>, one atomic access at a time: the
  background thread in \<open>run\<close>, the owner in \<open>zimodem_host_start\<close> and \<open>zimodem_host_destroy\<close>, and a
  third thread in \<open>zimodem_host_set_pin\<close>. The firmware's \<open>setup()\<close> and \<open>loop()\<close>, which are not in
  this repository, return or throw, as they please; that they do one or the other is the only
  thing assumed of them. \<open>thread_step\<close> interleaves the three arbitrarily.
\<close>

section \<open>Program counters and state\<close>

text \<open>The background thread: where it stands in \<open>run\<close>. \<open>WNone\<close> is not spawned.\<close>

datatype worker_pc =
    WNone | WSetup | WSetupLog | WSetupStop | WTest | WLoop | WLoopLog | WSleep | WEnd | WDone

text \<open>The owner, between and inside the two calls; \<open>OGone\<close> after the instance is deleted.\<close>

datatype owner_pc = OIdle | OStart | OSpawn | OStop | OJoin | OClear | OUnregister | ODelete | OGone

text \<open>The third thread: inside \<open>digital_write\<close>, with its copy of the callback or without.\<close>

datatype pin_pc = PIdle | PWrite | PCall

record threads =
  t_worker :: worker_pc
  t_owner :: owner_pc
  t_pin :: pin_pc
  t_started :: bool
  t_running :: bool
  t_registered :: bool
  t_active :: bool
  t_alive :: bool
  t_setups :: nat
  t_loops :: nat
  t_logged :: nat
  worker_uaf :: bool
  pin_uaf :: bool

text \<open>After \<open>zimodem_host_create\<close>.\<close>

definition threads_created :: threads where
  "threads_created =
     \<lparr>t_worker = WNone, t_owner = OIdle, t_pin = PIdle, t_started = False, t_running = False,
      t_registered = True, t_active = True, t_alive = True, t_setups = 0, t_loops = 0,
      t_logged = 0, worker_uaf = False, pin_uaf = False\<rparr>"

datatype actor = Worker | Owner | Pin

text \<open>An access of the background thread to the instance.\<close>

definition touch :: "threads \<Rightarrow> threads" where
  "touch s = s\<lparr>worker_uaf := worker_uaf s \<or> \<not> t_alive s\<rparr>"

inductive thread_step :: "actor \<Rightarrow> threads \<Rightarrow> threads \<Rightarrow> bool" where
  setup_returns: "t_worker s = WSetup \<Longrightarrow>
     thread_step Worker s ((touch s)\<lparr>t_worker := WTest, t_setups := t_setups s + 1\<rparr>)"
| setup_throws: "t_worker s = WSetup \<Longrightarrow>
     thread_step Worker s ((touch s)\<lparr>t_worker := WSetupLog, t_setups := t_setups s + 1\<rparr>)"
| setup_logs: "t_worker s = WSetupLog \<Longrightarrow>
     thread_step Worker s ((touch s)\<lparr>t_worker := WSetupStop, t_logged := t_logged s + 1\<rparr>)"
| setup_stops: "t_worker s = WSetupStop \<Longrightarrow>
     thread_step Worker s ((touch s)\<lparr>t_worker := WDone, t_running := False\<rparr>)"
| test_running: "t_worker s = WTest \<Longrightarrow> t_running s \<Longrightarrow>
     thread_step Worker s ((touch s)\<lparr>t_worker := WLoop\<rparr>)"
| test_stopped: "t_worker s = WTest \<Longrightarrow> \<not> t_running s \<Longrightarrow>
     thread_step Worker s ((touch s)\<lparr>t_worker := WEnd\<rparr>)"
| loop_returns: "t_worker s = WLoop \<Longrightarrow>
     thread_step Worker s ((touch s)\<lparr>t_worker := WSleep, t_loops := t_loops s + 1\<rparr>)"
| loop_throws: "t_worker s = WLoop \<Longrightarrow>
     thread_step Worker s ((touch s)\<lparr>t_worker := WLoopLog, t_loops := t_loops s + 1\<rparr>)"
| loop_logs: "t_worker s = WLoopLog \<Longrightarrow>
     thread_step Worker s ((touch s)\<lparr>t_worker := WEnd, t_logged := t_logged s + 1\<rparr>)"
| loop_sleeps: "t_worker s = WSleep \<Longrightarrow> thread_step Worker s (s\<lparr>t_worker := WTest\<rparr>)"
| run_ends: "t_worker s = WEnd \<Longrightarrow>
     thread_step Worker s ((touch s)\<lparr>t_worker := WDone, t_running := False\<rparr>)"
| start_exchange: "t_owner s = OIdle \<Longrightarrow>
     thread_step Owner s (if t_started s then s else s\<lparr>t_owner := OStart, t_started := True\<rparr>)"
| start_running: "t_owner s = OStart \<Longrightarrow>
     thread_step Owner s (s\<lparr>t_owner := OSpawn, t_running := True\<rparr>)"
| start_spawns: "t_owner s = OSpawn \<Longrightarrow>
     thread_step Owner s (s\<lparr>t_owner := OIdle, t_worker := WSetup\<rparr>)"
| destroy_stops: "t_owner s = OIdle \<Longrightarrow>
     thread_step Owner s (s\<lparr>t_owner := OJoin, t_running := False\<rparr>)"
| destroy_joins: "t_owner s = OJoin \<Longrightarrow> t_worker s = WNone \<or> t_worker s = WDone \<Longrightarrow>
     thread_step Owner s (s\<lparr>t_owner := OClear\<rparr>)"
| destroy_clears: "t_owner s = OClear \<Longrightarrow>
     thread_step Owner s (s\<lparr>t_owner := OUnregister, t_registered := False\<rparr>)"
| destroy_unregisters: "t_owner s = OUnregister \<Longrightarrow>
     thread_step Owner s (s\<lparr>t_owner := ODelete, t_active := False\<rparr>)"
| destroy_deletes: "t_owner s = ODelete \<Longrightarrow>
     thread_step Owner s (s\<lparr>t_owner := OGone, t_alive := False\<rparr>)"
| pin_enters: "t_pin s = PIdle \<Longrightarrow> t_alive s \<Longrightarrow> thread_step Pin s (s\<lparr>t_pin := PWrite\<rparr>)"
| pin_copies: "t_pin s = PWrite \<Longrightarrow>
     thread_step Pin s (s\<lparr>t_pin := (if t_registered s then PCall else PIdle)\<rparr>)"
| pin_calls: "t_pin s = PCall \<Longrightarrow>
     thread_step Pin s (s\<lparr>t_pin := PIdle, pin_uaf := pin_uaf s \<or> \<not> t_alive s\<rparr>)"

inductive_cases worker_stepE: "thread_step Worker s t"
inductive_cases owner_stepE: "thread_step Owner s t"
inductive_cases pin_stepE: "thread_step Pin s t"

inductive threads_reachable :: "threads \<Rightarrow> bool" where
  created: "threads_reachable threads_created"
| moved: "threads_reachable s \<Longrightarrow> thread_step a s t \<Longrightarrow> threads_reachable t"

section \<open>The invariant\<close>

definition worker_off :: "threads \<Rightarrow> bool" where
  "worker_off s \<longleftrightarrow> t_worker s = WNone \<or> t_worker s = WDone"

definition starting :: "threads \<Rightarrow> bool" where
  "starting s \<longleftrightarrow> t_owner s = OStart \<or> t_owner s = OSpawn"

definition past_join :: "threads \<Rightarrow> bool" where
  "past_join s \<longleftrightarrow> t_owner s = OClear \<or> t_owner s = OUnregister \<or> t_owner s = ODelete \<or> t_owner s = OGone"

definition threads_inv :: "threads \<Rightarrow> bool" where
  "threads_inv s \<longleftrightarrow>
     (past_join s \<longrightarrow> worker_off s)
     \<and> (t_alive s \<longleftrightarrow> t_owner s \<noteq> OGone)
     \<and> \<not> worker_uaf s
     \<and> (\<not> t_started s \<longrightarrow> t_worker s = WNone \<and> \<not> starting s)
     \<and> (starting s \<longrightarrow> t_worker s = WNone)
     \<and> (t_worker s = WNone \<or> t_worker s = WSetup \<longrightarrow> t_setups s = 0 \<and> t_loops s = 0)
     \<and> (t_worker s \<noteq> WNone \<and> t_worker s \<noteq> WSetup \<longrightarrow> t_setups s = 1)
     \<and> (t_owner s = OJoin \<or> past_join s \<longrightarrow> \<not> t_running s)
     \<and> (t_registered s \<longleftrightarrow> t_owner s \<notin> {OUnregister, ODelete, OGone})"

lemmas threads_inv_unfolded = threads_inv_def worker_off_def starting_def past_join_def touch_def

lemma worker_step_inv: "thread_step Worker s t \<Longrightarrow> threads_inv s \<Longrightarrow> threads_inv t"
  by (erule worker_stepE) (auto simp: threads_inv_unfolded)

lemma owner_step_inv: "thread_step Owner s t \<Longrightarrow> threads_inv s \<Longrightarrow> threads_inv t"
  by (erule owner_stepE) (auto simp: threads_inv_unfolded split: if_splits)

lemma pin_step_inv: "thread_step Pin s t \<Longrightarrow> threads_inv s \<Longrightarrow> threads_inv t"
  by (erule pin_stepE) (auto simp: threads_inv_unfolded split: if_splits)

lemma reachable_threads_inv: "threads_reachable s \<Longrightarrow> threads_inv s"
proof (induction rule: threads_reachable.induct)
  case created
  then show ?case
    by (simp add: threads_created_def threads_inv_unfolded)
next
  case (moved s a t)
  then show ?case
    by (cases a) (auto dest: worker_step_inv owner_step_inv pin_step_inv)
qed

section \<open>The join ends\<close>

text \<open>How many accesses the background thread still makes once \<open>running\<close> is false, at most.\<close>

primrec rank :: "worker_pc \<Rightarrow> nat" where
  "rank WNone = 0"
| "rank WSetup = 3"
| "rank WSetupLog = 2"
| "rank WSetupStop = 1"
| "rank WTest = 2"
| "rank WLoop = 4"
| "rank WLoopLog = 2"
| "rank WSleep = 3"
| "rank WEnd = 1"
| "rank WDone = 0"

lemma rank_le_4: "rank w \<le> 4"
  by (cases w) simp_all

lemma worker_step_rank:
  "thread_step Worker s t \<Longrightarrow> \<not> t_running s \<Longrightarrow>
     rank (t_worker t) < rank (t_worker s) \<and> \<not> t_running t \<and> t_owner t = t_owner s"
  by (erule worker_stepE) (auto simp: touch_def)

lemma pin_step_frame:
  "thread_step Pin s t \<Longrightarrow>
     t_worker t = t_worker s \<and> t_running t = t_running s \<and> t_owner t = t_owner s"
  by (erule pin_stepE) auto

lemma worker_can_step: "\<not> worker_off s \<Longrightarrow> \<exists>t. thread_step Worker s t"
  by (cases "t_worker s"; cases "t_running s") (auto simp: worker_off_def intro: thread_step.intros)

primrec thread_exec :: "actor list \<Rightarrow> threads \<Rightarrow> threads \<Rightarrow> bool" where
  "thread_exec [] s t \<longleftrightarrow> t = s"
| "thread_exec (a # as) s t \<longleftrightarrow> (\<exists>u. thread_step a s u \<and> thread_exec as u t)"

definition worker_steps :: "actor list \<Rightarrow> nat" where
  "worker_steps as = length (filter (\<lambda>a. a = Worker) as)"

lemma exec_rank:
  "thread_exec as s t \<Longrightarrow> Owner \<notin> set as \<Longrightarrow> \<not> t_running s \<Longrightarrow>
     worker_steps as + rank (t_worker t) \<le> rank (t_worker s) \<and> t_owner t = t_owner s"
proof (induction as arbitrary: s)
  case Nil
  then show ?case
    by (simp add: worker_steps_def)
next
  case (Cons a as)
  then obtain u where u: "thread_step a s u" "thread_exec as u t"
    by auto
  have "a = Worker \<or> a = Pin"
    using Cons.prems(2) by (cases a) auto
  then show ?case
  proof
    assume a: "a = Worker"
    with worker_step_rank u(1) Cons.prems(3)
    have "rank (t_worker u) < rank (t_worker s)" "\<not> t_running u" "t_owner u = t_owner s"
      by auto
    with Cons.IH [OF u(2)] Cons.prems(2) a show ?thesis
      by (simp add: worker_steps_def)
  next
    assume a: "a = Pin"
    with pin_step_frame u(1) Cons.prems(3)
    have "t_worker u = t_worker s" "\<not> t_running u" "t_owner u = t_owner s"
      by auto
    with Cons.IH [OF u(2)] Cons.prems(2) a show ?thesis
      by (simp add: worker_steps_def)
  qed
qed

section \<open>Properties\<close>

text \<open>
  C4: the background thread runs \<open>setup()\<close> once, before any \<open>loop()\<close>, and never touches a deleted
  instance. In every interleaving with the owner's start and destroy and with \<open>set_pin\<close> calls, no
  access of the thread falls after the deletion, which comes only when the thread has ended or was
  never spawned.
\<close>

theorem worker_never_outlives_instance:
  assumes "threads_reachable s"
  shows "\<not> worker_uaf s \<and> (\<not> t_alive s \<longrightarrow> t_worker s = WNone \<or> t_worker s = WDone)
    \<and> t_setups s \<le> 1 \<and> (0 < t_loops s \<longrightarrow> t_setups s = 1)"
  using reachable_threads_inv [OF assms]
  by (cases "t_worker s = WNone \<or> t_worker s = WSetup") (auto simp: threads_inv_unfolded)

theorem worker_never_outlives_instance_witness:
  "\<exists>s. threads_reachable s \<and> t_worker s = WSetup \<and> \<not> worker_uaf s"
proof -
  let ?a = "threads_created\<lparr>t_owner := OStart, t_started := True\<rparr>"
  let ?b = "?a\<lparr>t_owner := OSpawn, t_running := True\<rparr>"
  let ?c = "?b\<lparr>t_owner := OIdle, t_worker := WSetup\<rparr>"
  have "thread_step Owner threads_created ?a"
    using start_exchange [of threads_created] by (simp add: threads_created_def)
  moreover have "thread_step Owner ?a ?b"
    by (rule start_running) simp
  moreover have "thread_step Owner ?b ?c"
    by (rule start_spawns) simp
  ultimately have "threads_reachable ?c"
    by (meson threads_reachable.intros)
  with worker_never_outlives_instance [OF this] show ?thesis
    by (intro exI [of _ ?c]) simp
qed

text \<open>
  C5: \<open>zimodem_host_destroy\<close> returns. Once it has cleared \<open>running\<close> and waits in \<open>join\<close>, the background
  thread makes at most four more accesses, wherever it stood and however \<open>set_pin\<close> calls
  interleave, provided \<open>setup()\<close> and \<open>loop()\<close> return or throw; it can always make the next one until
  it has ended, and then the owner's step past the join is enabled.
\<close>

theorem destroy_join_returns:
  assumes "threads_reachable s" and "t_owner s = OJoin"
    and "thread_exec as s t" and "Owner \<notin> set as"
  shows "worker_steps as \<le> 4
    \<and> (if worker_off t then \<exists>u. thread_step Owner t u else \<exists>u. thread_step Worker t u)"
proof -
  have "\<not> t_running s"
    using reachable_threads_inv [OF assms(1)] assms(2) by (simp add: threads_inv_def)
  note r = exec_rank [OF assms(3,4) this]
  have "worker_steps as \<le> 4"
    using r rank_le_4 [of "t_worker s"] by linarith
  moreover have "\<exists>u. thread_step Owner t u" if "worker_off t"
    using destroy_joins [of t] that r assms(2) by (auto simp: worker_off_def)
  ultimately show ?thesis
    using worker_can_step [of t] by simp
qed

theorem destroy_join_returns_witness:
  "\<exists>s t. threads_reachable s \<and> t_owner s = OJoin \<and> t_worker s = WLoop
     \<and> thread_exec [Worker, Pin, Worker, Worker, Pin, Worker] s t
     \<and> worker_steps [Worker, Pin, Worker, Worker, Pin, Worker] \<le> 4
     \<and> t_worker t = WDone \<and> (\<exists>u. thread_step Owner t u \<and> t_owner u = OClear)"
proof -
  let ?a = "threads_created\<lparr>t_owner := OStart, t_started := True\<rparr>"
  let ?b = "?a\<lparr>t_owner := OSpawn, t_running := True\<rparr>"
  let ?c = "?b\<lparr>t_owner := OIdle, t_worker := WSetup\<rparr>"
  let ?d = "?c\<lparr>t_worker := WTest, t_setups := 1\<rparr>"
  let ?e = "?d\<lparr>t_worker := WLoop\<rparr>"
  let ?s = "?e\<lparr>t_owner := OJoin, t_running := False\<rparr>"
  let ?f = "?s\<lparr>t_worker := WSleep, t_loops := 1\<rparr>"
  let ?g = "?f\<lparr>t_pin := PWrite\<rparr>"
  let ?h = "?g\<lparr>t_worker := WTest\<rparr>"
  let ?i = "?h\<lparr>t_worker := WEnd\<rparr>"
  let ?j = "?i\<lparr>t_pin := PCall\<rparr>"
  let ?t = "?j\<lparr>t_worker := WDone, t_running := False\<rparr>"
  let ?as = "[Worker, Pin, Worker, Worker, Pin, Worker]"
  have "thread_step Owner threads_created ?a"
    using start_exchange [of threads_created] by (simp add: threads_created_def)
  moreover have "thread_step Owner ?a ?b" "thread_step Owner ?b ?c"
    by (rule start_running start_spawns, simp)+
  moreover have "thread_step Worker ?c ?d"
    using setup_returns [of ?c] by (simp add: threads_created_def touch_def)
  moreover have "thread_step Worker ?d ?e"
    using test_running [of ?d] by (simp add: threads_created_def touch_def)
  moreover have "thread_step Owner ?e ?s"
    by (rule destroy_stops) simp
  ultimately have reach: "threads_reachable ?s"
    by (meson threads_reachable.intros)
  have "thread_step Worker ?s ?f"
    using loop_returns [of ?s] by (simp add: threads_created_def touch_def)
  moreover have "thread_step Pin ?f ?g"
    by (rule pin_enters) (simp_all add: threads_created_def)
  moreover have "thread_step Worker ?g ?h"
    by (rule loop_sleeps) simp
  moreover have "thread_step Worker ?h ?i"
    using test_stopped [of ?h] by (simp add: threads_created_def touch_def)
  moreover have "thread_step Pin ?i ?j"
    using pin_copies [of ?i] by (simp add: threads_created_def)
  moreover have "thread_step Worker ?j ?t"
    using run_ends [of ?j] by (simp add: threads_created_def touch_def)
  ultimately have exec: "thread_exec ?as ?s ?t"
    by (simp only: thread_exec.simps) blast
  have "worker_steps ?as \<le> 4 \<and> (\<exists>u. thread_step Owner ?t u)"
    using destroy_join_returns [OF reach _ exec] by (simp add: worker_off_def)
  moreover have "thread_step Owner ?t u \<Longrightarrow> t_owner u = OClear" for u
    by (erule owner_stepE) simp_all
  ultimately show ?thesis
    using reach exec by (intro exI [of _ ?s] exI [of _ ?t]) auto
qed

text \<open>
  C35: \<open>zimodem_host_set_pin\<close> on one thread and \<open>zimodem_host_destroy\<close> on another can touch a freed
  instance. \<open>digital_write\<close> calls its copy of the callback after it released the lock, and \<open>destroy\<close>
  waits for the background thread only: an interleaving in which the call was made on a live handle
  ends with the callback locking the mutex of a deleted instance.
\<close>

theorem set_pin_races_with_destroy:
  "\<exists>s. threads_reachable s \<and> pin_uaf s"
proof -
  let ?a = "threads_created\<lparr>t_pin := PWrite\<rparr>"
  let ?b = "?a\<lparr>t_pin := PCall\<rparr>"
  let ?c = "?b\<lparr>t_owner := OJoin, t_running := False\<rparr>"
  let ?d = "?c\<lparr>t_owner := OClear\<rparr>"
  let ?e = "?d\<lparr>t_owner := OUnregister, t_registered := False\<rparr>"
  let ?f = "?e\<lparr>t_owner := ODelete, t_active := False\<rparr>"
  let ?g = "?f\<lparr>t_owner := OGone, t_alive := False\<rparr>"
  let ?h = "?g\<lparr>t_pin := PIdle, pin_uaf := pin_uaf ?g \<or> \<not> t_alive ?g\<rparr>"
  have "threads_reachable ?a"
    by (rule moved [OF created pin_enters]) (simp_all add: threads_created_def)
  moreover have "thread_step Pin ?a ?b"
    using pin_copies [of ?a] by (simp add: threads_created_def)
  ultimately have "threads_reachable ?b"
    by (rule moved)
  moreover have "thread_step Owner ?b ?c"
    by (rule destroy_stops) (simp add: threads_created_def)
  ultimately have "threads_reachable ?c"
    by (rule moved)
  then have "threads_reachable ?d"
    by (rule moved [OF _ destroy_joins]) (simp_all add: threads_created_def)
  then have "threads_reachable ?e"
    by (rule moved [OF _ destroy_clears]) simp
  then have "threads_reachable ?f"
    by (rule moved [OF _ destroy_unregisters]) simp
  then have "threads_reachable ?g"
    by (rule moved [OF _ destroy_deletes]) simp
  then have "threads_reachable ?h"
    by (rule moved [OF _ pin_calls]) simp
  moreover have "pin_uaf ?h"
    by simp
  ultimately show ?thesis
    by blast
qed

end
