(* ===== verification/Mutex.thy ===== *)
theory Mutex
  imports Prelude "HOL-Library.Multiset"
begin

text \<open>
  What the files of \<open>native/hal/src\<close> with a \<open>g_mutex\<close> have in common. A function takes the
  mutex, touches the globals in a few accesses, may copy a callback, releases the mutex and calls
  the callback afterwards. \<open>mutex_step\<close> interleaves any number of threads that make such calls,
  access by access; a callback may call the functions again. The locale says what one function's
  accesses must add up to when nobody interferes; its lemmas say that then nobody does: every
  interleaving has the effect and the results of the calls made one after another, in the order
  in which they released the mutex.
\<close>

section \<open>Threads and one mutex\<close>

text \<open>What a thread is doing, innermost call first.\<close>

datatype ('op, 'l, 'r, 'c) frame =
    Waiting 'op \<comment> \<open>before the constructor of \<open>lock_guard\<close> returns\<close>
  | Inside 'op 'l \<comment> \<open>holding the mutex\<close>
  | Calling 'op 'r "'c list" \<comment> \<open>after the release: the result and the callbacks still to call\<close>
  | Callback 'c \<comment> \<open>in a callback\<close>

record ('op, 'l, 'r, 'c, 's) locked_run =
  stacks :: "nat \<Rightarrow> ('op, 'l, 'r, 'c) frame list"
  owner :: "nat option"
  globals :: 's
  finished :: "(nat \<times> 'op \<times> 'r \<times> 'c list) list"
  called :: "(nat \<times> 'c) list"

definition locked_start :: "'s \<Rightarrow> ('op, 'l, 'r, 'c, 's) locked_run" where
  "locked_start s = \<lparr>stacks = (\<lambda>t. []), owner = None, globals = s, finished = [], called = []\<rparr>"

definition move :: "nat \<Rightarrow> ('op, 'l, 'r, 'c) frame list \<Rightarrow> ('op, 'l, 'r, 'c, 's) locked_run
    \<Rightarrow> ('op, 'l, 'r, 'c, 's) locked_run" where
  "move t st c = c\<lparr>stacks := (stacks c)(t := st)\<rparr>"

text \<open>A call comes from outside the HAL or from a callback.\<close>

fun may_call :: "('op, 'l, 'r, 'c) frame list \<Rightarrow> bool" where
  "may_call [] \<longleftrightarrow> True"
| "may_call (Callback c # st) \<longleftrightarrow> True"
| "may_call (f # st) \<longleftrightarrow> False"

text \<open>
  \<open>micro\<close> is one access of a function to the globals, \<open>ready\<close> the result once there are no more.
\<close>

inductive mutex_step ::
  "('op \<Rightarrow> 'l \<Rightarrow> 's \<Rightarrow> 'l \<times> 's) \<Rightarrow> ('l \<Rightarrow> ('r \<times> 'c list) option) \<Rightarrow> 'l \<Rightarrow> nat
     \<Rightarrow> ('op, 'l, 'r, 'c, 's) locked_run \<Rightarrow> ('op, 'l, 'r, 'c, 's) locked_run \<Rightarrow> bool"
  for micro ready start t
where
  enter: "may_call (stacks c t) \<Longrightarrow>
     mutex_step micro ready start t c (move t (Waiting opr # stacks c t) c)"
| lock: "stacks c t = Waiting opr # st \<Longrightarrow> owner c = None \<Longrightarrow>
     mutex_step micro ready start t c ((move t (Inside opr start # st) c)\<lparr>owner := Some t\<rparr>)"
| access: "stacks c t = Inside opr l # st \<Longrightarrow> ready l = None \<Longrightarrow> micro opr l (globals c) = (l', s') \<Longrightarrow>
     mutex_step micro ready start t c ((move t (Inside opr l' # st) c)\<lparr>globals := s'\<rparr>)"
| unlock: "stacks c t = Inside opr l # st \<Longrightarrow> ready l = Some (r, cs) \<Longrightarrow>
     mutex_step micro ready start t c
       ((move t (Calling opr r cs # st) c)\<lparr>owner := None, finished := finished c @ [(t, opr, r, cs)]\<rparr>)"
| call_back: "stacks c t = Calling opr r (cb # cs) # st \<Longrightarrow>
     mutex_step micro ready start t c
       ((move t (Callback cb # Calling opr r cs # st) c)\<lparr>called := called c @ [(t, cb)]\<rparr>)"
| callback_returns: "stacks c t = Callback cb # st \<Longrightarrow> mutex_step micro ready start t c (move t st c)"
| return: "stacks c t = Calling opr r [] # st \<Longrightarrow> mutex_step micro ready start t c (move t st c)"

inductive locked_reachable ::
  "('op \<Rightarrow> 'l \<Rightarrow> 's \<Rightarrow> 'l \<times> 's) \<Rightarrow> ('l \<Rightarrow> ('r \<times> 'c list) option) \<Rightarrow> 'l \<Rightarrow> 's
     \<Rightarrow> ('op, 'l, 'r, 'c, 's) locked_run \<Rightarrow> bool"
  for micro ready start s
where
  initially: "locked_reachable micro ready start s (locked_start s)"
| stepped: "locked_reachable micro ready start s c \<Longrightarrow> mutex_step micro ready start t c d \<Longrightarrow>
     locked_reachable micro ready start s d"

section \<open>Schedules\<close>

text \<open>The steps as functions: a thread that is outside or in a callback calls, any other goes on.\<close>

datatype 'op choice = Call nat 'op | Go nat

definition go ::
  "('op \<Rightarrow> 'l \<Rightarrow> 's \<Rightarrow> 'l \<times> 's) \<Rightarrow> ('l \<Rightarrow> ('r \<times> 'c list) option) \<Rightarrow> 'l \<Rightarrow> nat
     \<Rightarrow> ('op, 'l, 'r, 'c, 's) locked_run \<Rightarrow> ('op, 'l, 'r, 'c, 's) locked_run option" where
  "go micro ready start t c =
     (case stacks c t of
        [] \<Rightarrow> None
      | f # st \<Rightarrow>
          (case f of
             Waiting opr \<Rightarrow>
               if owner c = None then Some ((move t (Inside opr start # st) c)\<lparr>owner := Some t\<rparr>) else None
           | Inside opr l \<Rightarrow>
               (case ready l of
                  None \<Rightarrow>
                    let (l', s') = micro opr l (globals c)
                    in Some ((move t (Inside opr l' # st) c)\<lparr>globals := s'\<rparr>)
                | Some (r, cs) \<Rightarrow>
                    Some ((move t (Calling opr r cs # st) c)
                      \<lparr>owner := None, finished := finished c @ [(t, opr, r, cs)]\<rparr>))
           | Calling opr r cs \<Rightarrow>
               (case cs of
                  [] \<Rightarrow> Some (move t st c)
                | cb # rest \<Rightarrow>
                    Some ((move t (Callback cb # Calling opr r rest # st) c)\<lparr>called := called c @ [(t, cb)]\<rparr>))
           | Callback cb \<Rightarrow> Some (move t st c)))"

primrec schedule ::
  "('op \<Rightarrow> 'l \<Rightarrow> 's \<Rightarrow> 'l \<times> 's) \<Rightarrow> ('l \<Rightarrow> ('r \<times> 'c list) option) \<Rightarrow> 'l \<Rightarrow> 'op choice list
     \<Rightarrow> ('op, 'l, 'r, 'c, 's) locked_run \<Rightarrow> ('op, 'l, 'r, 'c, 's) locked_run option" where
  "schedule micro ready start [] c = Some c"
| "schedule micro ready start (ch # chs) c =
     (case (case ch of
              Call t opr \<Rightarrow> if may_call (stacks c t) then Some (move t (Waiting opr # stacks c t) c) else None
            | Go t \<Rightarrow> go micro ready start t c) of
        None \<Rightarrow> None
      | Some d \<Rightarrow> schedule micro ready start chs d)"

lemma go_step: "go micro ready start t c = Some d \<Longrightarrow> mutex_step micro ready start t c d"
  by (auto simp: go_def Let_def intro: mutex_step.intros
      split: list.splits frame.splits option.splits prod.splits if_splits)

lemma schedule_reachable:
  "locked_reachable micro ready start s c \<Longrightarrow> schedule micro ready start chs c = Some d \<Longrightarrow>
     locked_reachable micro ready start s d"
proof (induction chs arbitrary: c)
  case Nil
  then show ?case by simp
next
  case (Cons ch chs)
  obtain e where rest: "schedule micro ready start chs e = Some d"
    and one: "\<exists>t. mutex_step micro ready start t c e"
    using Cons.prems(2)
    by (cases ch) (auto dest: go_step intro: enter split: option.splits if_splits)
  from one Cons.prems(1) have "locked_reachable micro ready start s e"
    by (blast intro: stepped)
  from Cons.IH [OF this rest] show ?case .
qed

lemma schedule_reaches:
  "schedule micro ready start chs (locked_start s) = Some d \<Longrightarrow> locked_reachable micro ready start s d"
  by (rule schedule_reachable [OF initially])

section \<open>One call alone, and calls one after another\<close>

inductive runs_to ::
  "('op \<Rightarrow> 'l \<Rightarrow> 's \<Rightarrow> 'l \<times> 's) \<Rightarrow> ('l \<Rightarrow> ('r \<times> 'c list) option) \<Rightarrow> 'op \<Rightarrow> 'l \<Rightarrow> 's
     \<Rightarrow> 'r \<times> 'c list \<times> 's \<Rightarrow> bool"
  for micro ready opr
where
  runs_done: "ready l = Some (r, cs) \<Longrightarrow> runs_to micro ready opr l s (r, cs, s)"
| runs_more: "ready l = None \<Longrightarrow> micro opr l s = (l', s') \<Longrightarrow> runs_to micro ready opr l' s' res \<Longrightarrow>
     runs_to micro ready opr l s res"

inductive_cases runs_toE: "runs_to micro ready opr l s res"

lemma runs_to_access:
  "runs_to micro ready opr l s res \<Longrightarrow> ready l = None \<Longrightarrow> micro opr l s = (l', s') \<Longrightarrow>
     runs_to micro ready opr l' s' res"
  by (erule runs_toE) auto

lemma runs_to_ready:
  "runs_to micro ready opr l s res \<Longrightarrow> ready l = Some (r, cs) \<Longrightarrow> res = (r, cs, s)"
  by (erule runs_toE) auto

text \<open>As rewriting: execute one access, or stop.\<close>

lemma runs_to_more:
  "ready l = None \<Longrightarrow>
     runs_to micro ready opr l s res \<longleftrightarrow> runs_to micro ready opr (fst (micro opr l s)) (snd (micro opr l s)) res"
  by (metis prod.collapse runs_more runs_to_access)

lemma runs_to_done:
  "ready l = Some out \<Longrightarrow> runs_to micro ready opr l s res \<longleftrightarrow> res = (fst out, snd out, s)"
  by (cases out) (auto intro: runs_done dest: runs_to_ready)

lemmas runs_to_exec = runs_to_more runs_to_done

primrec replay ::
  "('op \<Rightarrow> 's \<Rightarrow> 'r \<times> 'c list \<times> 's) \<Rightarrow> 'op list \<Rightarrow> 's \<Rightarrow> ('op \<times> 'r \<times> 'c list) list \<times> 's" where
  "replay atomic [] s = ([], s)"
| "replay atomic (opr # oprs) s =
     (let (r, cs, s1) = atomic opr s; (outs, s2) = replay atomic oprs s1 in ((opr, r, cs) # outs, s2))"

lemma replay_snoc:
  "replay atomic oprs s = (outs, s1) \<Longrightarrow> atomic opr s1 = (r, cs, s2) \<Longrightarrow>
     replay atomic (oprs @ [opr]) s = (outs @ [(opr, r, cs)], s2)"
  by (induction oprs arbitrary: s outs) (auto simp: Let_def split: prod.splits)

section \<open>The discipline\<close>

text \<open>Only the innermost call of a thread can wait for the mutex or hold it.\<close>

fun between_calls :: "('op, 'l, 'r, 'c) frame \<Rightarrow> bool" where
  "between_calls (Calling opr r cs) \<longleftrightarrow> True"
| "between_calls (Callback c) \<longleftrightarrow> True"
| "between_calls f \<longleftrightarrow> False"

fun holds :: "('op, 'l, 'r, 'c) frame list \<Rightarrow> bool" where
  "holds (Inside opr l # st) \<longleftrightarrow> True"
| "holds st \<longleftrightarrow> False"

text \<open>The callbacks a thread has still to call.\<close>

primrec owed :: "('op, 'l, 'r, 'c) frame list \<Rightarrow> 'c multiset" where
  "owed [] = {#}"
| "owed (f # st) = (case f of Calling opr r cs \<Rightarrow> mset cs | _ \<Rightarrow> {#}) + owed st"

definition calls_due :: "nat \<Rightarrow> (nat \<times> 'op \<times> 'r \<times> 'c list) list \<Rightarrow> 'c multiset" where
  "calls_due t fin = mset (concat (map (\<lambda>(u, opr, r, cs). if u = t then cs else []) fin))"

definition calls_made :: "nat \<Rightarrow> (nat \<times> 'c) list \<Rightarrow> 'c multiset" where
  "calls_made t cd = mset (concat (map (\<lambda>(u, c). if u = t then [c] else []) cd))"

lemma calls_due_snoc [simp]:
  "calls_due t (fin @ [(u, opr, r, cs)]) = calls_due t fin + (if u = t then mset cs else {#})"
  by (simp add: calls_due_def)

lemma calls_made_snoc [simp]:
  "calls_made t (cd @ [(u, c)]) = calls_made t cd + (if u = t then {#c#} else {#})"
  by (simp add: calls_made_def)

lemma calls_Nil [simp]: "calls_due t [] = {#}" "calls_made t [] = {#}"
  by (simp_all add: calls_due_def calls_made_def)

lemma move_simps [simp]:
  "stacks (move t st c) = (stacks c)(t := st)"
  "owner (move t st c) = owner c"
  "globals (move t st c) = globals c"
  "finished (move t st c) = finished c"
  "called (move t st c) = called c"
  by (simp_all add: move_def)

text \<open>Who holds the mutex; and every callback that became due was or will be called, once.\<close>

definition disciplined :: "('op, 'l, 'r, 'c, 's) locked_run \<Rightarrow> bool" where
  "disciplined c \<longleftrightarrow>
     (\<forall>t. list_all between_calls (tl (stacks c t)))
     \<and> (\<forall>t. holds (stacks c t) \<longleftrightarrow> owner c = Some t)"

definition accounted :: "('op, 'l, 'r, 'c, 's) locked_run \<Rightarrow> bool" where
  "accounted c \<longleftrightarrow> (\<forall>t. calls_made t (called c) + owed (stacks c t) = calls_due t (finished c))"

lemma may_call_between: "may_call st \<Longrightarrow> list_all between_calls (tl st) \<Longrightarrow> list_all between_calls st"
  by (induction st rule: may_call.induct) simp_all

lemma may_call_holds: "may_call st \<Longrightarrow> \<not> holds st"
  by (induction st rule: may_call.induct) simp_all

lemma between_holds: "list_all between_calls st \<Longrightarrow> \<not> holds st"
  by (cases st rule: holds.cases) auto

lemma disciplined_step:
  assumes "mutex_step micro ready start t c d" and "disciplined c"
  shows "disciplined d"
proof -
  have below: "list_all between_calls (tl (stacks c u))" and own: "holds (stacks c u) \<longleftrightarrow> owner c = Some u" for u
    using assms(2) by (simp_all add: disciplined_def)
  show ?thesis
    using assms(1)
  proof cases
    case (enter opr)
    then show ?thesis
      using below own may_call_between [OF enter(2) below] may_call_holds [OF enter(2)]
      by (auto simp: disciplined_def)
  next
    case (lock opr st)
    then show ?thesis
      using below [of t] below own by (auto simp: disciplined_def)
  next
    case (access opr l st l' s')
    then show ?thesis
      using below [of t] below own own [of t] by (auto simp: disciplined_def)
  next
    case (unlock opr l st r cs)
    then show ?thesis
      using below [of t] below own own [of t] by (auto simp: disciplined_def)
  next
    case (call_back opr r cb cs st)
    then show ?thesis
      using below [of t] below own own [of t] by (auto simp: disciplined_def)
  next
    case (callback_returns cb st)
    then show ?thesis
      using below [of t] below own own [of t] between_holds [of st]
      by (cases st) (auto simp: disciplined_def)
  next
    case (return opr r st)
    then show ?thesis
      using below [of t] below own own [of t] between_holds [of st]
      by (cases st) (auto simp: disciplined_def)
  qed
qed

lemma accounted_step:
  assumes "mutex_step micro ready start t c d" and "accounted c"
  shows "accounted d"
proof -
  have acc: "calls_made u (called c) + owed (stacks c u) = calls_due u (finished c)" for u
    using assms(2) by (simp add: accounted_def)
  show ?thesis
    using assms(1) by cases (use acc acc [of t] in \<open>auto simp: accounted_def ac_simps\<close>)
qed

lemma disciplined_start: "disciplined (locked_start s)"
  by (simp add: disciplined_def locked_start_def)

lemma accounted_start: "accounted (locked_start s)"
  by (simp add: accounted_def locked_start_def)

lemma reachable_disciplined:
  "locked_reachable micro ready start s c \<Longrightarrow> disciplined c \<and> accounted c"
  by (induction rule: locked_reachable.induct)
    (auto simp: disciplined_start accounted_start intro: disciplined_step accounted_step)

section \<open>Objects behind a mutex\<close>

locale locked_object =
  fixes micro :: "'op \<Rightarrow> 'l \<Rightarrow> 's \<Rightarrow> 'l \<times> 's"
    and ready :: "'l \<Rightarrow> ('r \<times> 'c list) option"
    and start :: 'l
    and atomic :: "'op \<Rightarrow> 's \<Rightarrow> 'r \<times> 'c list \<times> 's"
  assumes alone: "runs_to micro ready opr start s (atomic opr s)"
begin

text \<open>
  \<open>base\<close> is what the calls that released the mutex so far add up to; a thread that holds it is on
  its way from there to the effect of its own call.
\<close>

definition linear :: "'s \<Rightarrow> ('op, 'l, 'r, 'c, 's) locked_run \<Rightarrow> 's \<Rightarrow> bool" where
  "linear s c base \<longleftrightarrow>
     replay atomic (map (\<lambda>(t, opr, out). opr) (finished c)) s = (map snd (finished c), base)
     \<and> (owner c = None \<longrightarrow> globals c = base)
     \<and> (\<forall>t opr l st. stacks c t = Inside opr l # st \<longrightarrow>
          runs_to micro ready opr l (globals c) (atomic opr base))"

lemma linear_step:
  assumes step: "mutex_step micro ready start t c d" and dis: "disciplined c" and lin: "linear s c base"
  shows "\<exists>base'. linear s d base'"
proof -
  have own: "holds (stacks c u) \<longleftrightarrow> owner c = Some u" and below: "list_all between_calls (tl (stacks c u))" for u
    using dis by (simp_all add: disciplined_def)
  have only: "u \<noteq> t \<Longrightarrow> stacks c u \<noteq> Inside opr l # st" if "owner c = Some t" for u opr l st
    using own [of u] that by auto
  have kept: "linear s (move t st c) base" if "\<not> holds st" "owner c \<noteq> Some t \<or> owner c = None" for st
    using lin that by (cases st rule: holds.cases) (auto simp: linear_def)
  show ?thesis
    using step
  proof cases
    case (enter opr)
    then show ?thesis
      using kept [of "Waiting opr # stacks c t"] own [of t] may_call_holds [OF enter(2)] by auto
  next
    case (lock opr st)
    have "\<not> holds (stacks c u)" for u
      using own lock by simp
    then have "stacks c u \<noteq> Inside o' l # st'" for u o' l st'
      by (metis holds.simps(1))
    then have "linear s d base"
      using lin lock alone by (auto simp: linear_def)
    then show ?thesis ..
  next
    case (access opr l st l' s')
    have "owner c = Some t"
      using own [of t] access by simp
    moreover have "runs_to micro ready opr l (globals c) (atomic opr base)"
      using lin access(2) unfolding linear_def by blast
    from runs_to_access [OF this access(3,4)]
    have "runs_to micro ready opr l' s' (atomic opr base)" .
    ultimately have "linear s d base"
      using lin access(1) only by (simp add: linear_def)
    then show ?thesis ..
  next
    case (unlock opr l st r cs)
    have "owner c = Some t"
      using own [of t] unlock by simp
    note others = only [OF this]
    have "runs_to micro ready opr l (globals c) (atomic opr base)"
      using lin unlock(2) unfolding linear_def by blast
    then have "atomic opr base = (r, cs, globals c)"
      using unlock by (auto dest: runs_to_ready)
    then have "replay atomic (map (\<lambda>(t, opr, out). opr) (finished c) @ [opr]) s
        = (map snd (finished c) @ [(opr, r, cs)], globals c)"
      using lin by (intro replay_snoc) (auto simp: linear_def)
    then have "linear s d (globals c)"
      using unlock(1) others by (simp add: linear_def)
    then show ?thesis ..
  next
    case (call_back opr r cb cs st)
    then have "\<not> holds (stacks c t)" by simp
    then show ?thesis
      using kept [of "Callback cb # Calling opr r cs # st"] own [of t] call_back by (auto simp: linear_def)
  next
    case (callback_returns cb st)
    then have "\<not> holds st" "\<not> holds (stacks c t)"
      using below [of t] between_holds by auto
    then show ?thesis
      using kept [of st] own [of t] callback_returns by auto
  next
    case (return opr r st)
    then have "\<not> holds st" "\<not> holds (stacks c t)"
      using below [of t] between_holds by auto
    then show ?thesis
      using kept [of st] own [of t] return by auto
  qed
qed

lemma reachable_linear:
  "locked_reachable micro ready start s c \<Longrightarrow> \<exists>base. linear s c base"
proof (induction rule: locked_reachable.induct)
  case initially
  have "linear s (locked_start s) s"
    by (simp add: linear_def locked_start_def)
  then show ?case ..
next
  case (stepped c t d)
  then obtain base where "linear s c base" by blast
  from linear_step [OF stepped.hyps(2) _ this] reachable_disciplined [OF stepped.hyps(1)]
  show ?case by simp
qed

lemma calls_linearize:
  assumes "locked_reachable micro ready start s c" and "owner c = None"
  shows "replay atomic (map (\<lambda>(t, opr, out). opr) (finished c)) s = (map snd (finished c), globals c)"
  using reachable_linear [OF assms(1)] assms(2) by (auto simp: linear_def)

lemma one_holder:
  assumes "locked_reachable micro ready start s c"
    and "stacks c t = Inside opr l # st" and "stacks c u = Inside opr' l' # st'"
  shows "t = u"
  using reachable_disciplined [OF assms(1)] assms(2,3)
  by (auto simp: disciplined_def) (metis holds.simps(1) option.inject)

text \<open>No deadlock: unless every thread is outside, some thread can go on with what it began.\<close>

lemma can_go_on:
  assumes "locked_reachable micro ready start s c" and "stacks c t \<noteq> []"
  shows "\<exists>u d. mutex_step micro ready start u c d \<and> (\<nexists>opr. stacks d u = Waiting opr # stacks c u)"
proof (cases "owner c")
  case None
  obtain f st where top: "stacks c t = f # st"
    using assms(2) by (cases "stacks c t") auto
  have "\<not> holds (stacks c t)"
    using reachable_disciplined [OF assms(1)] None by (simp add: disciplined_def)
  show ?thesis
  proof (cases f)
    case (Waiting opr)
    from mutex_step.lock [OF top [unfolded this] None, of micro ready start] top Waiting
    show ?thesis by (intro exI conjI) auto
  next
    case (Inside opr l)
    with top \<open>\<not> holds (stacks c t)\<close> show ?thesis by simp
  next
    case (Calling opr r cs)
    show ?thesis
    proof (cases cs)
      case Nil
      from mutex_step.return [OF top [unfolded Calling Nil], of micro ready start] top Calling
      show ?thesis by (intro exI conjI) auto
    next
      case (Cons cb rest)
      from mutex_step.call_back [OF top [unfolded Calling Cons], of micro ready start] top Calling
      show ?thesis by (intro exI conjI) auto
    qed
  next
    case (Callback cb)
    from mutex_step.callback_returns [OF top [unfolded this], of micro ready start] top Callback
    show ?thesis by (intro exI conjI) auto
  qed
next
  case (Some u)
  then have "holds (stacks c u)"
    using reachable_disciplined [OF assms(1)] by (simp add: disciplined_def)
  then obtain opr l st where st: "stacks c u = Inside opr l # st"
    by (cases "stacks c u" rule: holds.cases) auto
  show ?thesis
  proof (cases "ready l")
    case None
    obtain l' s' where "micro opr l (globals c) = (l', s')"
      by (cases "micro opr l (globals c)")
    from mutex_step.access [of c u opr l st ready micro l' s' start, OF st None this] st show ?thesis
      by (intro exI conjI) auto
  next
    case (Some out)
    obtain r cs where "out = (r, cs)"
      by (cases out)
    from mutex_step.unlock [of c u opr l st ready r cs micro start, OF st Some [unfolded this]] st show ?thesis
      by (intro exI conjI) auto
  qed
qed

text \<open>When every thread is back outside, each callback has been called as often as it was due.\<close>

lemma all_called:
  assumes "locked_reachable micro ready start s c" and "stacks c t = []"
  shows "calls_made t (called c) = calls_due t (finished c)"
  using reachable_disciplined [OF assms(1)] assms(2) by (simp add: accounted_def) (metis add.right_neutral owed.simps(1))

end

end
