(* ===== verification/HalThreads.thy ===== *)
theory HalThreads
  imports Mutex SerialPort Pins LogSink
begin

text \<open>
  The files with a \<open>g_mutex\<close> that host threads and the background thread share,
  \<open>serial_port.cpp\<close>, \<open>pins.cpp\<close> and \<open>log.cpp\<close>, access by access: every test of a queue, every
  \<open>push_back\<close>, \<open>pop_front\<close> and assignment between the construction and the destruction of the
  \<open>lock_guard\<close> is a step of its own. The interpretations of \<open>locked_object\<close> show that the
  accesses of each function add up to its definition in \<open>SerialPort\<close>, \<open>Pins\<close> or \<open>LogSink\<close>; that
  the functions are atomic follows.
\<close>

section \<open>The serial port\<close>

datatype 'cb serial_op =
    OpSetDataReady "'cb option" | OpFeed bytes | OpAvailable | OpRead | OpPeek
  | OpWrite bytes | OpRxAvailable | OpRxRead
  | OpSetLine u64 u32 | OpSetBaud u64 | OpGetLine "u64 option" "u32 option"
  | OpSetLineCallback "'cb option" | OpReset

datatype serial_result =
    RVoid | RCount nat | RInt int | RBool bool | RLine "u64 option" "u32 option"

text \<open>Where a thread stands in a function's critical section, with its local variables.\<close>

datatype 'cb serial_local =
    SAt nat
  | SPush bytes \<comment> \<open>the bytes the loop has still to push\<close>
  | SFront u8 \<comment> \<open>the copy of \<open>front()\<close>, before \<open>pop_front()\<close>\<close>
  | SBaud "u64 option"
  | SConfig u32
  | SOut serial_result "'cb serial_call list"

definition line_calls :: "'cb option \<Rightarrow> u64 \<Rightarrow> u32 \<Rightarrow> 'cb serial_call list" where
  "line_calls cb baud config = (case cb of Some f \<Rightarrow> [LineConfigCall f baud config] | None \<Rightarrow> [])"

definition ready_calls :: "'cb option \<Rightarrow> bytes \<Rightarrow> 'cb serial_call list" where
  "ready_calls cb bs =
     (case cb of Some f \<Rightarrow> if 0 < length bs then [DataReadyCall f] else [] | None \<Rightarrow> [])"

primrec serial_micro ::
  "'cb serial_op \<Rightarrow> 'cb serial_local \<Rightarrow> 'cb serial_port \<Rightarrow> 'cb serial_local \<times> 'cb serial_port" where
  "serial_micro (OpSetDataReady cb) l s = (SOut RVoid [], s\<lparr>g_data_ready_callback := cb\<rparr>)"
| "serial_micro (OpFeed bs) l s =
     (case l of
        SPush rest \<Rightarrow>
          (case rest of
             [] \<Rightarrow> (SOut RVoid [], s)
           | b # rest1 \<Rightarrow> (SPush rest1, s\<lparr>g_input := g_input s @ [b]\<rparr>))
      | _ \<Rightarrow> (SPush bs, s))"
| "serial_micro OpAvailable l s = (SOut (RInt (int_of_size (length (g_input s)))) [], s)"
| "serial_micro OpRead l s =
     (case l of
        SFront b \<Rightarrow> (SOut (RInt (uint b)) [], s\<lparr>g_input := tl (g_input s)\<rparr>)
      | _ \<Rightarrow> (if g_input s = [] then SOut (RInt (- 1)) [] else SFront (hd (g_input s)), s))"
| "serial_micro OpPeek l s =
     (case l of
        SFront b \<Rightarrow> (SOut (RInt (uint b)) [], s)
      | _ \<Rightarrow> (if g_input s = [] then SOut (RInt (- 1)) [] else SFront (hd (g_input s)), s))"
| "serial_micro (OpWrite bs) l s =
     (case l of
        SPush rest \<Rightarrow>
          (case rest of
             [] \<Rightarrow> (SOut (RCount (length bs)) (ready_calls (g_data_ready_callback s) bs), s)
           | b # rest1 \<Rightarrow> (SPush rest1, s\<lparr>g_rx_queue := g_rx_queue s @ [b]\<rparr>))
      | _ \<Rightarrow> (SPush bs, s))"
| "serial_micro OpRxAvailable l s = (SOut (RBool (g_rx_queue s \<noteq> [])) [], s)"
| "serial_micro OpRxRead l s =
     (case l of
        SFront b \<Rightarrow> (SOut (RInt (uint b)) [], s\<lparr>g_rx_queue := tl (g_rx_queue s)\<rparr>)
      | _ \<Rightarrow> (if g_rx_queue s = [] then SOut (RInt (- 1)) [] else SFront (hd (g_rx_queue s)), s))"
| "serial_micro (OpSetLine baud config) l s =
     (case l of
        SAt n \<Rightarrow>
          (if n = 0
           then (if g_line_baud s = baud \<and> g_line_config s = config then SOut RVoid [] else SAt 1, s)
           else if n = 1 then (SAt 2, s\<lparr>g_line_baud := baud\<rparr>)
           else if n = 2 then (SAt 3, s\<lparr>g_line_config := config\<rparr>)
           else (SOut RVoid (line_calls (g_line_config_callback s) baud config), s))
      | _ \<Rightarrow> (SAt 0, s))"
| "serial_micro (OpSetBaud baud) l s =
     (case l of
        SAt n \<Rightarrow>
          (if n = 0 then (if g_line_baud s = baud then SOut RVoid [] else SAt 1, s)
           else if n = 1 then (SAt 2, s\<lparr>g_line_baud := baud\<rparr>)
           else (SConfig (g_line_config s), s))
      | SConfig config \<Rightarrow> (SOut RVoid (line_calls (g_line_config_callback s) baud config), s)
      | _ \<Rightarrow> (SAt 0, s))"
| "serial_micro (OpGetLine baud config) l s =
     (case l of
        SBaud b \<Rightarrow> (SOut (RLine b (map_option (\<lambda>_. g_line_config s) config)) [], s)
      | _ \<Rightarrow> (SBaud (map_option (\<lambda>_. g_line_baud s) baud), s))"
| "serial_micro (OpSetLineCallback cb) l s = (SOut RVoid [], s\<lparr>g_line_config_callback := cb\<rparr>)"
| "serial_micro OpReset l s =
     (case l of
        SAt n \<Rightarrow>
          (if n = 0 then (SAt 1, s\<lparr>g_input := []\<rparr>)
           else if n = 1 then (SAt 2, s\<lparr>g_rx_queue := []\<rparr>)
           else if n = 2 then (SAt 3, s\<lparr>g_data_ready_callback := None\<rparr>)
           else if n = 3 then (SAt 4, s\<lparr>g_line_baud := 0\<rparr>)
           else if n = 4 then (SAt 5, s\<lparr>g_line_config := 0\<rparr>)
           else (SOut RVoid [], s\<lparr>g_line_config_callback := None\<rparr>))
      | _ \<Rightarrow> (SAt 0, s))"

fun serial_ready :: "'cb serial_local \<Rightarrow> (serial_result \<times> 'cb serial_call list) option" where
  "serial_ready (SOut r cs) = Some (r, cs)"
| "serial_ready l = None"

text \<open>The functions as \<open>SerialPort\<close> defines them.\<close>

fun serial_atomic ::
  "'cb serial_op \<Rightarrow> 'cb serial_port \<Rightarrow> serial_result \<times> 'cb serial_call list \<times> 'cb serial_port" where
  "serial_atomic (OpSetDataReady cb) s = (RVoid, [], set_data_ready_callback cb s)"
| "serial_atomic (OpFeed bs) s = (RVoid, [], feed_input bs s)"
| "serial_atomic OpAvailable s = (RInt (serial_available s), [], s)"
| "serial_atomic OpRead s = (let (v, s1) = serial_read s in (RInt v, [], s1))"
| "serial_atomic OpPeek s = (RInt (serial_peek s), [], s)"
| "serial_atomic (OpWrite bs) s = (let (n, cs, s1) = serial_write bs s in (RCount n, cs, s1))"
| "serial_atomic OpRxAvailable s = (RBool (rx_available s), [], s)"
| "serial_atomic OpRxRead s = (let (v, s1) = rx_read s in (RInt v, [], s1))"
| "serial_atomic (OpSetLine baud config) s = (let (cs, s1) = set_line_config baud config s in (RVoid, cs, s1))"
| "serial_atomic (OpSetBaud baud) s = (let (cs, s1) = set_line_baud baud s in (RVoid, cs, s1))"
| "serial_atomic (OpGetLine baud config) s =
     (let (b, c) = get_line_config baud config s in (RLine b c, [], s))"
| "serial_atomic (OpSetLineCallback cb) s = (RVoid, [], set_line_config_callback cb s)"
| "serial_atomic OpReset s = (RVoid, [], serial_reset_for_testing s)"

lemma feed_runs:
  "runs_to serial_micro serial_ready (OpFeed bs) (SPush rest) s (RVoid, [], s\<lparr>g_input := g_input s @ rest\<rparr>)"
proof (induction rest arbitrary: s)
  case Nil
  show ?case by (simp add: runs_to_exec)
next
  case (Cons b rest)
  from Cons [of "s\<lparr>g_input := g_input s @ [b]\<rparr>"] show ?case
    by (subst runs_to_more) simp_all
qed

lemma write_runs:
  "runs_to serial_micro serial_ready (OpWrite bs) (SPush rest) s
     (RCount (length bs), ready_calls (g_data_ready_callback s) bs, s\<lparr>g_rx_queue := g_rx_queue s @ rest\<rparr>)"
proof (induction rest arbitrary: s)
  case Nil
  show ?case by (simp add: runs_to_exec)
next
  case (Cons b rest)
  from Cons [of "s\<lparr>g_rx_queue := g_rx_queue s @ [b]\<rparr>"] show ?case
    by (subst runs_to_more) simp_all
qed

lemma serial_alone: "runs_to serial_micro serial_ready opr (SAt 0) s (serial_atomic opr s)"
proof (cases opr)
  case (OpFeed bs)
  then show ?thesis
    using feed_runs [of bs bs s] by (subst runs_to_more) (simp_all add: feed_input_def)
next
  case (OpWrite bs)
  then show ?thesis
    using write_runs [of bs bs s]
    by (subst runs_to_more) (simp_all add: serial_write_def ready_calls_def Let_def)
next
  case OpRead
  then show ?thesis
    by (cases "g_input s") (simp_all add: runs_to_exec serial_read_def)
next
  case OpPeek
  then show ?thesis
    by (cases "g_input s") (simp_all add: runs_to_exec serial_peek_def)
next
  case OpRxRead
  then show ?thesis
    by (cases "g_rx_queue s") (simp_all add: runs_to_exec rx_read_def)
next
  case (OpSetLine baud config)
  then show ?thesis
    by (cases "g_line_baud s = baud"; cases "g_line_config s = config";
        simp add: runs_to_exec set_line_config_def line_calls_def)
next
  case (OpSetBaud baud)
  then show ?thesis
    by (cases "g_line_baud s = baud") (simp_all add: runs_to_exec set_line_baud_def line_calls_def)
qed (simp_all add: runs_to_exec set_data_ready_callback_def serial_available_def rx_available_def
    get_line_config_def set_line_config_callback_def serial_reset_for_testing_def)

interpretation serial_lock: locked_object serial_micro serial_ready "SAt 0" serial_atomic
  by unfold_locales (rule serial_alone)

section \<open>The pins\<close>

datatype 'cb pin_op =
    OpPinMode int int | OpDigitalWrite int int | OpDigitalRead int
  | OpSetSignal "'cb option" | OpPinsReset

datatype 'cb pin_local =
    PAt nat
  | PFound bool \<comment> \<open>\<open>changed\<close>\<close>
  | PStored bool
  | POut "int option" "'cb signal_call list"

fun pin_micro :: "'cb pin_op \<Rightarrow> 'cb pin_local \<Rightarrow> 'cb pins \<Rightarrow> 'cb pin_local \<times> 'cb pins" where
  "pin_micro (OpPinMode pin mode) l s = (POut None [], s\<lparr>g_mode := (g_mode s)(pin \<mapsto> mode)\<rparr>)"
| "pin_micro (OpDigitalWrite pin val) (PFound changed) s =
     (PStored changed, s\<lparr>g_value := (g_value s)(pin \<mapsto> val)\<rparr>)"
| "pin_micro (OpDigitalWrite pin val) (PStored changed) s =
     (POut None (case g_callback s of Some f \<Rightarrow> if changed then [SignalCall f pin val] else [] | None \<Rightarrow> []), s)"
| "pin_micro (OpDigitalWrite pin val) l s =
     (PFound (case g_value s pin of None \<Rightarrow> True | Some old \<Rightarrow> old \<noteq> val), s)"
| "pin_micro (OpDigitalRead pin) l s = (POut (Some (case g_value s pin of None \<Rightarrow> 0 | Some v \<Rightarrow> v)) [], s)"
| "pin_micro (OpSetSignal cb) l s = (POut None [], s\<lparr>g_callback := cb\<rparr>)"
| "pin_micro OpPinsReset (PAt n) s =
     (if n = 0 then (PAt 1, s\<lparr>g_mode := Map.empty\<rparr>)
      else if n = 1 then (PAt 2, s\<lparr>g_value := Map.empty\<rparr>)
      else (POut None [], s\<lparr>g_callback := None\<rparr>))"
| "pin_micro OpPinsReset l s = (PAt 0, s)"

fun pin_ready :: "'cb pin_local \<Rightarrow> (int option \<times> 'cb signal_call list) option" where
  "pin_ready (POut r cs) = Some (r, cs)"
| "pin_ready l = None"

fun pin_atomic :: "'cb pin_op \<Rightarrow> 'cb pins \<Rightarrow> int option \<times> 'cb signal_call list \<times> 'cb pins" where
  "pin_atomic (OpPinMode pin mode) s = (None, [], pin_mode pin mode s)"
| "pin_atomic (OpDigitalWrite pin val) s = (let (cs, s1) = digital_write pin val s in (None, cs, s1))"
| "pin_atomic (OpDigitalRead pin) s = (Some (digital_read pin s), [], s)"
| "pin_atomic (OpSetSignal cb) s = (None, [], set_signal_callback cb s)"
| "pin_atomic OpPinsReset s = (None, [], pins_reset_for_testing s)"

lemma pin_alone: "runs_to pin_micro pin_ready opr (PAt 0) s (pin_atomic opr s)"
  by (cases opr)
    (simp_all add: runs_to_exec pin_mode_def digital_write_def digital_read_def set_signal_callback_def
      pins_reset_for_testing_def Let_def)

interpretation pin_lock: locked_object pin_micro pin_ready "PAt 0" pin_atomic
  by unfold_locales (rule pin_alone)

section \<open>The log\<close>

datatype 'cb log_op = OpSetSink "'cb option" | OpLogWrite string

datatype 'cb log_local = LStart | LOut "'cb log_call list"

fun log_micro :: "'cb log_op \<Rightarrow> 'cb log_local \<Rightarrow> 'cb log_state \<Rightarrow> 'cb log_local \<times> 'cb log_state" where
  "log_micro (OpSetSink sink) l s = (LOut [], s\<lparr>g_sink := sink\<rparr>)"
| "log_micro (OpLogWrite message) l s =
     (LOut (case g_sink s of Some f \<Rightarrow> [LogCall f message] | None \<Rightarrow> []), s)"

fun log_ready :: "'cb log_local \<Rightarrow> (unit \<times> 'cb log_call list) option" where
  "log_ready (LOut cs) = Some ((), cs)"
| "log_ready LStart = None"

fun log_atomic :: "'cb log_op \<Rightarrow> 'cb log_state \<Rightarrow> unit \<times> 'cb log_call list \<times> 'cb log_state" where
  "log_atomic (OpSetSink sink) s = ((), [], set_sink sink s)"
| "log_atomic (OpLogWrite message) s = ((), log_write message s, s)"

interpretation log_lock: locked_object log_micro log_ready LStart log_atomic
proof
  fix opr and s :: "'cb log_state"
  show "runs_to log_micro log_ready opr LStart s (log_atomic opr s)"
    by (cases opr) (simp_all add: runs_to_exec set_sink_def log_write_def)
qed

section \<open>The queues under concurrency\<close>

fun written :: "'cb serial_op \<Rightarrow> bytes" where
  "written (OpWrite bs) = bs"
| "written opr = []"

fun fed :: "'cb serial_op \<Rightarrow> bytes" where
  "fed (OpFeed bs) = bs"
| "fed opr = []"

text \<open>What the calls of one kind answered, other than \<open>-1\<close>.\<close>

primrec answers ::
  "'cb serial_op \<Rightarrow> ('cb serial_op \<times> serial_result \<times> 'cb serial_call list) list \<Rightarrow> int list" where
  "answers wanted [] = []"
| "answers wanted (e # es) =
     (case e of (opr, RInt v, cs) \<Rightarrow> if opr = wanted then delivered [v] else [] | _ \<Rightarrow> []) @ answers wanted es"

lemma delivered_head: "delivered [head_or_neg1 q] @ map uint (tl q) = map uint q"
  by (cases q) simp_all

lemma replay_queue:
  assumes pop: "\<And>s. \<exists>s1. serial_atomic pop s = (RInt (head_or_neg1 (q s)), [], s1) \<and> q s1 = tl (q s)"
    and push: "\<And>opr s. opr \<noteq> pop \<Longrightarrow> opr \<noteq> OpReset \<Longrightarrow> q (snd (snd (serial_atomic opr s))) = q s @ adds opr"
    and "adds pop = []"
  shows "replay serial_atomic oprs s = (outs, s') \<Longrightarrow> OpReset \<notin> set oprs \<Longrightarrow>
     answers pop outs @ map uint (q s') = map uint (q s @ concat (map adds oprs))"
proof (induction oprs arbitrary: s outs)
  case Nil
  then show ?case by simp
next
  case (Cons opr oprs)
  obtain r cs s1 where one: "serial_atomic opr s = (r, cs, s1)"
    by (cases "serial_atomic opr s")
  obtain outs1 where rest: "replay serial_atomic oprs s1 = (outs1, s')" and outs: "outs = (opr, r, cs) # outs1"
    using Cons.prems(1) one by (auto split: prod.splits)
  have ih: "answers pop outs1 @ map uint (q s') = map uint (q s1 @ concat (map adds oprs))"
    using Cons.IH [OF rest] Cons.prems(2) by simp
  show ?case
  proof (cases "opr = pop")
    case True
    then have "r = RInt (head_or_neg1 (q s))" "q s1 = tl (q s)"
      using one pop [of s] by auto
    then show ?thesis
      using True ih outs delivered_head [of "q s"] assms(3) by simp
  next
    case False
    then have "q s1 = q s @ adds opr"
      using one Cons.prems(2) push [of opr s] by auto
    moreover have "answers pop outs = answers pop outs1"
      using False outs by (simp split: serial_result.split)
    ultimately show ?thesis
      using ih by simp
  qed
qed

lemma rx_read_pair: "rx_read s = (head_or_neg1 (g_rx_queue s), snd (rx_read s))"
  by (metis prod.collapse rxq.poll_value)

lemma serial_read_pair: "serial_read s = (head_or_neg1 (g_input s), snd (serial_read s))"
  by (metis prod.collapse inq.poll_value)

lemmas serial_settings_def = set_data_ready_callback_def set_line_config_callback_def set_line_config_def
  set_line_baud_def

lemma replay_rx:
  "replay serial_atomic oprs s = (outs, s') \<Longrightarrow> OpReset \<notin> set oprs \<Longrightarrow>
     answers OpRxRead outs @ map uint (g_rx_queue s') = map uint (g_rx_queue s @ concat (map written oprs))"
proof (rule replay_queue)
  fix s :: "'a serial_port" and opr :: "'a serial_op"
  show "\<exists>s1. serial_atomic OpRxRead s = (RInt (head_or_neg1 (g_rx_queue s)), [], s1) \<and> g_rx_queue s1 = tl (g_rx_queue s)"
    using rx_read_pair [of s] by (simp add: Let_def split_def rxq.poll_rest rxq.poll_value)
  assume "opr \<noteq> OpRxRead" and "opr \<noteq> OpReset"
  then show "g_rx_queue (snd (snd (serial_atomic opr s))) = g_rx_queue s @ written opr"
    by (cases opr) (simp_all add: serial_settings_def Let_def split_def)
qed simp_all

lemma replay_input:
  "replay serial_atomic oprs s = (outs, s') \<Longrightarrow> OpReset \<notin> set oprs \<Longrightarrow>
     answers OpRead outs @ map uint (g_input s') = map uint (g_input s @ concat (map fed oprs))"
proof (rule replay_queue)
  fix s :: "'a serial_port" and opr :: "'a serial_op"
  show "\<exists>s1. serial_atomic OpRead s = (RInt (head_or_neg1 (g_input s)), [], s1) \<and> g_input s1 = tl (g_input s)"
    using serial_read_pair [of s] by (simp add: Let_def split_def inq.poll_rest inq.poll_value)
  assume "opr \<noteq> OpRead" and "opr \<noteq> OpReset"
  then show "g_input (snd (snd (serial_atomic opr s))) = g_input s @ fed opr"
    by (cases opr) (simp_all add: serial_settings_def Let_def split_def)
qed simp_all

text \<open>Wake-ups: how many data-ready calls the writes of thread \<open>t\<close> owe to \<open>f\<close>.\<close>

definition nonempty_writes :: "nat \<Rightarrow> (nat \<times> 'cb serial_op \<times> serial_result \<times> 'cb serial_call list) list \<Rightarrow> nat" where
  "nonempty_writes t fin =
     length (filter (\<lambda>(u, opr, out). u = t \<and> (case opr of OpWrite bs \<Rightarrow> bs \<noteq> [] | _ \<Rightarrow> False)) fin)"

fun keeps_registration :: "'cb serial_op \<Rightarrow> bool" where
  "keeps_registration (OpSetDataReady cb) \<longleftrightarrow> False"
| "keeps_registration OpReset \<longleftrightarrow> False"
| "keeps_registration opr \<longleftrightarrow> True"

lemma replay_wakes:
  "replay serial_atomic (map (\<lambda>(t, opr, out). opr) fin) s = (map snd fin, s') \<Longrightarrow>
     list_all keeps_registration (map (\<lambda>(t, opr, out). opr) fin) \<Longrightarrow>
     g_data_ready_callback s = Some f \<Longrightarrow>
     count (calls_due t fin) (DataReadyCall f) = nonempty_writes t fin"
proof (induction fin arbitrary: s)
  case Nil
  then show ?case by (simp add: nonempty_writes_def)
next
  case (Cons e fin)
  obtain u opr r cs where e: "e = (u, opr, r, cs)"
    by (cases e)
  obtain s1 where one: "serial_atomic opr s = (r, cs, s1)"
    and rest: "replay serial_atomic (map (\<lambda>(t, opr, out). opr) fin) s1 = (map snd fin, s')"
    using Cons.prems(1) e by (auto simp: Let_def split: prod.splits)
  have keeps: "keeps_registration opr"
    using Cons.prems(2) e by simp
  have reg: "g_data_ready_callback s1 = Some f"
    using one keeps Cons.prems(3)
    by (cases opr) (auto simp: serial_settings_def serial_write_def feed_input_def Let_def rx_read_def
        serial_read_def split: prod.splits if_splits list.splits)
  have "count (mset cs) (DataReadyCall f) = (case opr of OpWrite bs \<Rightarrow> if bs = [] then 0 else 1 | _ \<Rightarrow> 0)"
    using one keeps Cons.prems(3)
    by (cases opr) (auto simp: serial_settings_def serial_write_def Let_def
        split: prod.splits if_splits option.splits)
  then show ?case
    using Cons.IH [OF rest _ reg] Cons.prems(2) e
    by (cases opr) (auto simp: nonempty_writes_def calls_due_def)
qed

section \<open>Properties\<close>

text \<open>
  C8: the functions of the serial port are atomic. However the accesses of any number of threads
  interleave, with callbacks that call the port again, at most one thread is between its accesses
  at a time; and whenever no thread is, the port and all the results answered so far are those of
  the finished calls executed one after another, each as \<open>SerialPort\<close> defines it, in the order in
  which they released the mutex.
\<close>

theorem serial_calls_are_atomic:
  assumes "locked_reachable serial_micro serial_ready (SAt 0) s c"
  shows "(owner c = None \<longrightarrow>
      replay serial_atomic (map (\<lambda>(t, opr, out). opr) (finished c)) s = (map snd (finished c), globals c))
    \<and> (\<forall>t u opr opr' l l' st st'. stacks c t = Inside opr l # st \<longrightarrow> stacks c u = Inside opr' l' # st' \<longrightarrow> t = u)"
  using serial_lock.calls_linearize [OF assms] serial_lock.one_holder [OF assms] by blast

theorem serial_calls_are_atomic_witness:
  "\<exists>c. schedule serial_micro serial_ready (SAt 0)
       [Call 1 (OpWrite [65]), Go 1, Call 2 OpRxRead, Go 1, Go 1, Go 1, Go 1, Go 2, Go 2, Go 2, Go 2]
       (locked_start (serial_init :: nat serial_port)) = Some c
     \<and> replay serial_atomic [OpWrite [65], OpRxRead] (serial_init :: nat serial_port)
       = ([(OpWrite [65], RCount 1, []), (OpRxRead, RInt 65, [])], globals c)"
proof -
  obtain c where run: "schedule serial_micro serial_ready (SAt 0)
      [Call 1 (OpWrite [65]), Go 1, Call 2 OpRxRead, Go 1, Go 1, Go 1, Go 1, Go 2, Go 2, Go 2, Go 2]
      (locked_start (serial_init :: nat serial_port)) = Some c"
    and fin: "finished c = [(1, OpWrite [65], RCount 1, []), (2, OpRxRead, RInt 65, [])]" and "owner c = None"
    by (simp add: go_def locked_start_def serial_init_def move_def Let_def ready_calls_def)
  then show ?thesis
    using serial_calls_are_atomic [OF schedule_reaches [OF run]] by auto
qed

text \<open>
  The serial port does not deadlock. While some thread is inside a function of the port, in a
  callback of it, or in a function called from such a callback, some thread can go on with what
  it began, without anybody starting a new call. So the mutex is not held across a callback, and
  is never waited for by its own holder.
\<close>

theorem serial_never_deadlocks:
  assumes "locked_reachable serial_micro serial_ready (SAt 0) s c" and "stacks c t \<noteq> []"
  shows "\<exists>u d. mutex_step serial_micro serial_ready (SAt 0) u c d \<and> (\<nexists>opr. stacks d u = Waiting opr # stacks c u)"
  using assms by (rule serial_lock.can_go_on)

theorem serial_never_deadlocks_witness:
  "\<exists>c u d. schedule serial_micro serial_ready (SAt 0)
       [Call 1 (OpWrite [65]), Go 1, Go 1, Go 1, Go 1, Go 1, Go 1, Call 1 OpRxRead]
       (locked_start ((serial_init :: nat serial_port)\<lparr>g_data_ready_callback := Some 7\<rparr>)) = Some c
     \<and> stacks c 1 = [Waiting OpRxRead, Callback (DataReadyCall 7), Calling (OpWrite [65]) (RCount 1) []]
     \<and> mutex_step serial_micro serial_ready (SAt 0) u c d"
proof -
  obtain c where run: "schedule serial_micro serial_ready (SAt 0)
      [Call 1 (OpWrite [65]), Go 1, Go 1, Go 1, Go 1, Go 1, Go 1, Call 1 OpRxRead]
      (locked_start ((serial_init :: nat serial_port)\<lparr>g_data_ready_callback := Some 7\<rparr>)) = Some c"
    and st: "stacks c 1 = [Waiting OpRxRead, Callback (DataReadyCall 7), Calling (OpWrite [65]) (RCount 1) []]"
    by (simp add: go_def locked_start_def serial_init_def move_def Let_def ready_calls_def)
  have "stacks c 1 \<noteq> []"
    unfolding st by simp
  from serial_never_deadlocks [OF schedule_reaches [OF run] this] run st show ?thesis
    by blast
qed

text \<open>
  C9: neither queue loses, duplicates or reorders a byte under concurrency. Take the finished calls
  of all threads in the order in which they released the mutex: the bytes \<open>rx_read\<close> answered,
  followed by those still queued, are the initial ones followed by those of the writes; and
  likewise for \<open>read\<close> and what was fed in. So the bytes of one write are never separated by
  those of another.
\<close>

theorem concurrent_calls_lose_no_byte:
  assumes "locked_reachable serial_micro serial_ready (SAt 0) s c" and "owner c = None"
    and "OpReset \<notin> set (map (\<lambda>(t, opr, out). opr) (finished c))"
  shows "answers OpRxRead (map snd (finished c)) @ map uint (g_rx_queue (globals c))
      = map uint (g_rx_queue s @ concat (map (\<lambda>(t, opr, out). written opr) (finished c)))
    \<and> answers OpRead (map snd (finished c)) @ map uint (g_input (globals c))
      = map uint (g_input s @ concat (map (\<lambda>(t, opr, out). fed opr) (finished c)))"
proof -
  note replayed = serial_lock.calls_linearize [OF assms(1,2)]
  have ops: "map f (map (\<lambda>(t, opr, out). opr) fin) = map (\<lambda>(t, opr, out). f opr) fin" for f :: "_ \<Rightarrow> bytes" and fin
    by (induction fin) auto
  show ?thesis
    using replay_rx [OF replayed assms(3)] replay_input [OF replayed assms(3)] unfolding ops by blast
qed

theorem concurrent_calls_lose_no_byte_witness:
  "\<exists>c. schedule serial_micro serial_ready (SAt 0)
       [Call 1 (OpWrite [65, 66]), Call 2 (OpWrite [67]), Go 2, Go 2, Go 2, Go 2, Go 2, Go 1, Go 1,
        Call 3 OpRxRead, Go 1, Go 1, Go 1, Go 1, Go 3, Go 3, Go 3, Go 3]
       (locked_start (serial_init :: nat serial_port)) = Some c
     \<and> g_rx_queue (globals c) = [65, 66] \<and> answers OpRxRead (map snd (finished c)) = [67]"
proof -
  obtain c where run: "schedule serial_micro serial_ready (SAt 0)
       [Call 1 (OpWrite [65, 66]), Call 2 (OpWrite [67]), Go 2, Go 2, Go 2, Go 2, Go 2, Go 1, Go 1,
        Call 3 OpRxRead, Go 1, Go 1, Go 1, Go 1, Go 3, Go 3, Go 3, Go 3]
       (locked_start (serial_init :: nat serial_port)) = Some c"
    and fin: "finished c = [(2, OpWrite [67], RCount 1, []), (1, OpWrite [65, 66], RCount 2, []), (3, OpRxRead, RInt 67, [])]"
    and free: "owner c = None"
    by (simp add: go_def locked_start_def serial_init_def move_def Let_def ready_calls_def)
  have "map uint (g_rx_queue (globals c)) = map uint ([65, 66] :: bytes)"
    using concurrent_calls_lose_no_byte [OF schedule_reaches [OF run] free] fin
    by (simp add: serial_init_def)
  then have "map (word_of_int :: int \<Rightarrow> u8) (map uint (g_rx_queue (globals c)))
      = map word_of_int (map uint ([65, 66] :: bytes))"
    by (rule arg_cong)
  then have "g_rx_queue (globals c) = [65, 66]"
    by (simp add: comp_def)
  then show ?thesis
    using run fin by auto
qed

text \<open>
  C10: every write wakes the host. While a data-ready callback is registered, a thread that is back
  outside has called it exactly once for each non-empty write it made, after the bytes were in the
  queue and the mutex free, whatever other threads did in the meantime.
\<close>

theorem every_write_wakes_the_host:
  assumes "locked_reachable serial_micro serial_ready (SAt 0) s c" and "owner c = None"
    and "stacks c t = []" and "g_data_ready_callback s = Some f"
    and "list_all keeps_registration (map (\<lambda>(t, opr, out). opr) (finished c))"
  shows "count (calls_made t (called c)) (DataReadyCall f) = nonempty_writes t (finished c)"
  using replay_wakes [OF serial_lock.calls_linearize [OF assms(1,2)] assms(5,4)]
    serial_lock.all_called [OF assms(1,3)] by simp

theorem every_write_wakes_the_host_witness:
  "\<exists>c. schedule serial_micro serial_ready (SAt 0)
       [Call 1 (OpWrite [65]), Go 1, Go 1, Go 1, Go 1, Go 1, Call 2 (OpWrite []), Go 1, Go 1, Go 1,
        Go 2, Go 2, Go 2, Go 2, Go 2]
       (locked_start ((serial_init :: nat serial_port)\<lparr>g_data_ready_callback := Some 7\<rparr>)) = Some c
     \<and> count (calls_made 1 (called c)) (DataReadyCall 7) = 1"
proof -
  obtain c where run: "schedule serial_micro serial_ready (SAt 0)
       [Call 1 (OpWrite [65]), Go 1, Go 1, Go 1, Go 1, Go 1, Call 2 (OpWrite []), Go 1, Go 1, Go 1,
        Go 2, Go 2, Go 2, Go 2, Go 2]
       (locked_start ((serial_init :: nat serial_port)\<lparr>g_data_ready_callback := Some 7\<rparr>)) = Some c"
    and fin: "finished c = [(1, OpWrite [65], RCount 1, [DataReadyCall 7]), (2, OpWrite [], RCount 0, [])]"
    and free: "owner c = None" "stacks c 1 = []"
    by (simp add: go_def locked_start_def serial_init_def move_def Let_def ready_calls_def)
  have "count (calls_made 1 (called c)) (DataReadyCall 7) = nonempty_writes 1 (finished c)"
    using every_write_wakes_the_host [OF schedule_reaches [OF run] free] fin by simp
  then show ?thesis
    using run fin by (simp add: nonempty_writes_def)
qed

text \<open>
  C37: under concurrency a signal listener can end with a wrong picture. \<open>digital_write\<close> calls the
  callback after it releases the mutex, so two threads that drive one pin can call it in the
  opposite order of their writes: the last call reports the older value, and no further one
  corrects it.
\<close>

theorem signals_can_arrive_out_of_order:
  "\<exists>c. locked_reachable pin_micro pin_ready (PAt 0) (pins_init\<lparr>g_callback := Some (7 :: nat)\<rparr>) c
     \<and> (\<forall>t. stacks c t = []) \<and> g_value (globals c) kPinRts = Some 1
     \<and> map snd (called c) = [SignalCall 7 kPinRts 1, SignalCall 7 kPinRts 0]"
proof -
  let ?chs = "[Call 1 (OpDigitalWrite kPinRts 0), Go 1, Go 1, Go 1, Go 1, Go 1,
      Call 2 (OpDigitalWrite kPinRts 1), Go 2, Go 2, Go 2, Go 2, Go 2, Go 2, Go 2, Go 2, Go 1, Go 1, Go 1]"
  obtain c where run: "schedule pin_micro pin_ready (PAt 0) ?chs
      (locked_start (pins_init\<lparr>g_callback := Some (7 :: nat)\<rparr>)) = Some c"
    and "\<forall>t. stacks c t = []" and "g_value (globals c) kPinRts = Some 1"
    and "map snd (called c) = [SignalCall 7 kPinRts 1, SignalCall 7 kPinRts 0]"
    by (simp add: go_def locked_start_def pins_init_def move_def Let_def)
  with schedule_reaches [OF run] show ?thesis
    by (intro exI [of _ c] conjI)
qed

end
