(* ===== verification/CallbackThreads.thy ===== *)
theory CallbackThreads
  imports HostCallbacks
begin

text \<open>
  The callbacks under concurrency. \<open>HostAbi\<close> runs one call of the interface from beginning to
  end; here any number of host threads and the firmware's thread take turns, each function of the
  HAL being one step (\<open>HalThreads\<close> shows that they are atomic) and \<open>callback_mutex\<close> a mutex that
  a thread waits for. The instance is alive throughout: creation and destruction are the subject
  of \<open>HostLifecycle\<close> and \<open>HostThreads\<close>, so a thread that calls \<open>zimodem_host_destroy\<close> stops here.
\<close>

section \<open>Threads\<close>

datatype act = ByHost host_call | ByFirmware fw_op

text \<open>The callbacks a function of the HAL calls once it has released its mutex.\<close>

datatype due =
    DueSerial "inst_ptr serial_call"
  | DueSignal "inst_ptr signal_call"
  | DueLog "inst_ptr log_call"

datatype event_kind = KSerialOut | KSignal | KLog

text \<open>What a thread has still to do, innermost first.\<close>

datatype task =
    Acts "act list"
  | Dues "due list"
  | Running event_kind inst_ptr fn_ptr nat \<comment> \<open>in a host function, with \<open>callback_mutex\<close> held\<close>
  | Copied fn_ptr host_event \<comment> \<open>the line-settings lambda, after it released the mutex\<close>

record conc =
  process :: host
  tasks :: "nat \<Rightarrow> task list"

definition conc_start :: "host \<Rightarrow> (nat \<Rightarrow> act list) \<Rightarrow> conc" where
  "conc_start s progs = \<lparr>process = s, tasks = (\<lambda>t. [Acts (progs t)])\<rparr>"

text \<open>
  One call up to the point where it calls back: the callbacks due and the new state. \<open>None\<close>
  where the thread waits, for the mutex or (\<open>CallDestroy\<close>) outside this model.
\<close>

definition act_step :: "inst_ptr \<Rightarrow> act \<Rightarrow> host \<Rightarrow> (due list \<times> host) option" where
  "act_step i a s =
     (case a of
        ByHost c \<Rightarrow>
          (case c of
             CallWriteSerial bs \<Rightarrow> Some ([], snd (zimodem_host_write_serial (Some i) bs s))
           | CallRxAvailable \<Rightarrow> Some ([], s)
           | CallRxRead \<Rightarrow> Some ([], snd (zimodem_host_rx_read (Some i) s))
           | CallSetPin pin val \<Rightarrow>
               let (calls, p) = digital_write pin val (hal_pins s)
               in Some (map DueSignal calls, s\<lparr>hal_pins := p\<rparr>)
           | CallGetLineConfig \<Rightarrow> Some ([], s)
           | CallSetCallbacks cbs \<Rightarrow>
               (case zimodem_host_set_callbacks (Some i) cbs s of Inl e \<Rightarrow> None | Inr s1 \<Rightarrow> Some ([], s1))
           | CallStart \<Rightarrow>
               (case zimodem_host_start True (Some i) s of (Inl e, s1) \<Rightarrow> None | (Inr r, s1) \<Rightarrow> Some ([], s1))
           | CallDestroy \<Rightarrow> None)
      | ByFirmware opr \<Rightarrow>
          (case opr of
             FwWrite bs \<Rightarrow>
               let (n, calls, sp) = serial_write bs (hal_serial s)
               in Some (map DueSerial calls, s\<lparr>hal_serial := sp\<rparr>)
           | FwRead \<Rightarrow> Some ([], s\<lparr>hal_serial := snd (serial_read (hal_serial s))\<rparr>)
           | FwDigitalWrite pin val \<Rightarrow>
               let (calls, p) = digitalWrite pin val (hal_pins s)
               in Some (map DueSignal calls, s\<lparr>hal_pins := p\<rparr>)
           | FwBegin b \<Rightarrow>
               let (calls, sp) = hw_begin b (hal_serial s)
               in Some (map DueSerial calls, s\<lparr>hal_serial := sp\<rparr>)
           | FwDebugPrintf formatted \<Rightarrow>
               Some (map DueLog (zimodem_hal_debug_printf formatted (hal_log s)), s)))"

text \<open>The function registered for an event.\<close>

primrec registered :: "event_kind \<Rightarrow> zimodem_instance \<Rightarrow> fn_ptr option" where
  "registered KSerialOut inst = on_serial_out inst"
| "registered KSignal inst = on_signal inst"
| "registered KLog inst = on_log inst"

text \<open>A lambda that calls under the mutex, up to the call; it waits while the mutex is held.\<close>

definition lock_and_enter ::
  "handlers \<Rightarrow> event_kind \<Rightarrow> inst_ptr \<Rightarrow> (fn_ptr \<Rightarrow> nat \<Rightarrow> host_event) \<Rightarrow> host
     \<Rightarrow> (task list \<times> host) option" where
  "lock_and_enter hs k i event s =
     (case heap s i of
        None \<Rightarrow> None
      | Some inst \<Rightarrow>
          if callback_mutex_held inst then None
          else
            (case registered k inst of
               None \<Rightarrow> Some ([], s)
             | Some f \<Rightarrow>
                 Some ([Acts (map ByHost (hs f)), Running k i f (user_context inst)],
                   s\<lparr>heap := (heap s)(i \<mapsto> inst\<lparr>callback_mutex_held := True\<rparr>),
                      events := events s @ [event f (user_context inst)]\<rparr>)))"

text \<open>The line-settings lambda, up to the release of the mutex.\<close>

definition lock_and_copy ::
  "inst_ptr \<Rightarrow> u64 \<Rightarrow> u32 \<Rightarrow> host \<Rightarrow> (task list \<times> host) option" where
  "lock_and_copy i baud config s =
     (case heap s i of
        None \<Rightarrow> None
      | Some inst \<Rightarrow>
          if callback_mutex_held inst then None
          else
            (case on_line_config inst of
               None \<Rightarrow> Some ([], s)
             | Some f \<Rightarrow>
                 let (d, p, t) = decode_serial_config config (Some 0) (Some 0) (Some 0)
                 in Some ([Copied f (LineConfig f (user_context inst) (int_of_ulong baud) (the d) (the p) (the t))], s)))"

definition due_step :: "handlers \<Rightarrow> due \<Rightarrow> host \<Rightarrow> (task list \<times> host) option" where
  "due_step hs d s =
     (case d of
        DueSerial c \<Rightarrow>
          (case c of
             DataReadyCall i \<Rightarrow> lock_and_enter hs KSerialOut i SerialOut s
           | LineConfigCall i baud config \<Rightarrow> lock_and_copy i baud config s)
      | DueSignal c \<Rightarrow>
          (case c of SignalCall i pin val \<Rightarrow>
             lock_and_enter hs KSignal i (\<lambda>f ctx. Signal f ctx pin val) s)
      | DueLog c \<Rightarrow>
          (case c of LogCall i message \<Rightarrow>
             lock_and_enter hs KLog i (\<lambda>f ctx. LogLine f ctx (c_view message)) s))"

definition release_mutex :: "inst_ptr \<Rightarrow> host \<Rightarrow> host" where
  "release_mutex i s =
     (case heap s i of
        None \<Rightarrow> s
      | Some inst \<Rightarrow> s\<lparr>heap := (heap s)(i \<mapsto> inst\<lparr>callback_mutex_held := False\<rparr>)\<rparr>)"

text \<open>The next step of a thread; \<open>None\<close> while it waits, and once it is done.\<close>

definition task_step :: "handlers \<Rightarrow> inst_ptr \<Rightarrow> task \<Rightarrow> host \<Rightarrow> (task list \<times> host) option" where
  "task_step hs i task s =
     (case task of
        Acts as \<Rightarrow>
          (case as of
             [] \<Rightarrow> Some ([], s)
           | a # rest \<Rightarrow>
               map_option (\<lambda>(dues, s1). ((if dues = [] then [] else [Dues dues]) @ [Acts rest], s1)) (act_step i a s))
      | Dues ds \<Rightarrow>
          (case ds of
             [] \<Rightarrow> Some ([], s)
           | d # rest \<Rightarrow> map_option (\<lambda>(new, s1). (new @ [Dues rest], s1)) (due_step hs d s))
      | Running k j f ctx \<Rightarrow> Some ([], release_mutex j s)
      | Copied f event \<Rightarrow> Some ([Acts (map ByHost (hs f))], s\<lparr>events := events s @ [event]\<rparr>))"

definition advance :: "handlers \<Rightarrow> inst_ptr \<Rightarrow> nat \<Rightarrow> conc \<Rightarrow> conc option" where
  "advance hs i t c =
     (case tasks c t of
        [] \<Rightarrow> None
      | task # rest \<Rightarrow>
          map_option (\<lambda>(new, s1). \<lparr>process = s1, tasks = (tasks c)(t := new @ rest)\<rparr>)
            (task_step hs i task (process c)))"

inductive conc_reachable :: "handlers \<Rightarrow> inst_ptr \<Rightarrow> conc \<Rightarrow> conc \<Rightarrow> bool" for hs i c0 where
  conc_init: "conc_reachable hs i c0 c0"
| conc_step: "conc_reachable hs i c0 c \<Longrightarrow> advance hs i t c = Some d \<Longrightarrow> conc_reachable hs i c0 d"

primrec turns :: "handlers \<Rightarrow> inst_ptr \<Rightarrow> nat list \<Rightarrow> conc \<Rightarrow> conc option" where
  "turns hs i [] c = Some c"
| "turns hs i (t # ts) c = (case advance hs i t c of None \<Rightarrow> None | Some d \<Rightarrow> turns hs i ts d)"

lemma turns_from:
  "conc_reachable hs i c0 c \<Longrightarrow> turns hs i ts c = Some d \<Longrightarrow> conc_reachable hs i c0 d"
  by (induction ts arbitrary: c) (auto intro: conc_step split: option.splits)

lemmas turns_reach = turns_from [OF conc_init]

lemma advance_cases:
  assumes "advance hs i t c = Some d"
  obtains task rest new s1 where "tasks c t = task # rest" and "task_step hs i task (process c) = Some (new, s1)"
    and "d = \<lparr>process = s1, tasks = (tasks c)(t := new @ rest)\<rparr>"
  using assms by (auto simp: advance_def split: list.splits)

section \<open>Who holds the mutex\<close>

primrec is_running :: "task \<Rightarrow> bool" where
  "is_running (Acts as) \<longleftrightarrow> False"
| "is_running (Dues ds) \<longleftrightarrow> False"
| "is_running (Running k j f ctx) \<longleftrightarrow> True"
| "is_running (Copied f event) \<longleftrightarrow> False"

primrec due_of :: "inst_ptr \<Rightarrow> due \<Rightarrow> bool" where
  "due_of i (DueSerial c) \<longleftrightarrow> (case c of DataReadyCall j \<Rightarrow> j = i | LineConfigCall j baud config \<Rightarrow> j = i)"
| "due_of i (DueSignal c) \<longleftrightarrow> (case c of SignalCall j pin val \<Rightarrow> j = i)"
| "due_of i (DueLog c) \<longleftrightarrow> (case c of LogCall j message \<Rightarrow> j = i)"

primrec task_of :: "inst_ptr \<Rightarrow> task \<Rightarrow> bool" where
  "task_of i (Acts as) \<longleftrightarrow> True"
| "task_of i (Dues ds) \<longleftrightarrow> list_all (due_of i) ds"
| "task_of i (Running k j f ctx) \<longleftrightarrow> True"
| "task_of i (Copied f event) \<longleftrightarrow> True"

definition running :: "conc \<Rightarrow> nat \<Rightarrow> task list" where
  "running c t = filter is_running (tasks c t)"

text \<open>
  The mutex is held exactly while one thread is in one host function, which is one that is
  registered, with its context.
\<close>

definition mutex_ok :: "inst_ptr \<Rightarrow> conc \<Rightarrow> bool" where
  "mutex_ok i c \<longleftrightarrow>
     attached_to i (process c) \<and> (\<forall>t. list_all (task_of i) (tasks c t))
     \<and> (case heap (process c) i of
          None \<Rightarrow> False
        | Some inst \<Rightarrow>
            if callback_mutex_held inst
            then \<exists>t k f. running c t = [Running k i f (user_context inst)] \<and> registered k inst = Some f
              \<and> (\<forall>u. u \<noteq> t \<longrightarrow> running c u = [])
            else \<forall>t. running c t = [])"

lemma serial_calls_of:
  "attached_to i s \<Longrightarrow> list_all (due_of i) (map DueSerial (fst (snd (serial_write bs (hal_serial s)))))"
  by (auto simp: attached_to_def serial_write_def Let_def split: option.splits)

lemma line_calls_of:
  "attached_to i s \<Longrightarrow> list_all (due_of i) (map DueSerial (fst (hw_begin b (hal_serial s))))"
  by (cases b) (auto simp: attached_to_def set_line_config_def set_line_baud_def split: option.splits)

lemma signal_calls_of:
  "attached_to i s \<Longrightarrow> list_all (due_of i) (map DueSignal (fst (digital_write pin val (hal_pins s))))"
  by (auto simp: attached_to_def digital_write_def Let_def split: option.splits)

lemma log_calls_of:
  assumes "attached_to i s"
  shows "list_all (due_of i) (map DueLog (zimodem_hal_debug_printf formatted (hal_log s)))"
proof -
  have "list_all (due_of i) (map DueLog (log_write m (hal_log s)))" for m
    using assms by (auto simp: attached_to_def log_write_def split: option.splits)
  then show ?thesis
    by (simp add: zimodem_hal_debug_printf_def vwritef_def Let_def)
qed

lemma hw_begin_slots:
  "g_data_ready_callback (snd (hw_begin b sp)) = g_data_ready_callback sp"
  "g_line_config_callback (snd (hw_begin b sp)) = g_line_config_callback sp"
  by (cases b; simp add: set_line_config_def set_line_baud_def)+

lemma queue_slots:
  "g_data_ready_callback (snd (snd (serial_write bs sp))) = g_data_ready_callback sp"
  "g_line_config_callback (snd (snd (serial_write bs sp))) = g_line_config_callback sp"
  "g_data_ready_callback (snd (serial_read sp)) = g_data_ready_callback sp"
  "g_line_config_callback (snd (serial_read sp)) = g_line_config_callback sp"
  "g_data_ready_callback (snd (SerialPort.rx_read sp)) = g_data_ready_callback sp"
  "g_line_config_callback (snd (SerialPort.rx_read sp)) = g_line_config_callback sp"
  "g_data_ready_callback (feed_input bs sp) = g_data_ready_callback sp"
  "g_line_config_callback (feed_input bs sp) = g_line_config_callback sp"
  by (simp_all add: serial_write_def serial_read_def rx_read_def feed_input_def Let_def split: list.split)

lemma pin_slot: "g_callback (snd (digital_write pin val ps)) = g_callback ps"
  by (simp add: digital_write_def Let_def)

text \<open>What a call may change of the instance: nothing that matters while the mutex is held.\<close>

definition same_while_held :: "zimodem_instance \<Rightarrow> zimodem_instance \<Rightarrow> bool" where
  "same_while_held inst inst1 \<longleftrightarrow>
     callback_mutex_held inst1 = callback_mutex_held inst
     \<and> (callback_mutex_held inst \<longrightarrow>
          user_context inst1 = user_context inst \<and> (\<forall>k. registered k inst1 = registered k inst))"

lemma same_while_held_refl [simp]: "same_while_held inst inst"
  by (simp add: same_while_held_def)

lemma start_frame:
  assumes "zimodem_host_start True (Some i) s = (r, s1)" and "heap s i = Some inst"
  shows "\<exists>inst1. heap s1 i = Some inst1 \<and> same_while_held inst inst1"
proof -
  have "registered k (inst\<lparr>started := a, running := b, worker_joinable := w\<rparr>) = registered k inst" for k a b w
    by (cases k) simp_all
  then show ?thesis
    using assms by (auto simp: zimodem_host_start_def same_while_held_def Let_def split: if_splits)
qed

lemma act_step_frame:
  assumes "act_step i a s = Some (dues, s1)" and inst: "heap s i = Some inst" and att: "attached_to i s"
  shows "attached_to i s1 \<and> list_all (due_of i) dues \<and> (\<exists>inst1. heap s1 i = Some inst1 \<and> same_while_held inst inst1)"
proof (cases a)
  case (ByHost c)
  show ?thesis
  proof (cases c)
    case (CallWriteSerial bs)
    then show ?thesis
      using ByHost assms attached_to_serial [OF att queue_slots(7,8)]
      by (auto simp: act_step_def zimodem_host_write_serial_def)
  next
    case (CallSetPin pin val)
    then show ?thesis
      using ByHost assms signal_calls_of [OF att, of pin val] attached_to_pins [OF att pin_slot]
      by (auto simp: act_step_def split_def Let_def)
  next
    case CallRxRead
    then show ?thesis
      using ByHost assms attached_to_serial [OF att queue_slots(5,6)]
      by (auto simp: act_step_def zimodem_host_rx_read_def split_def Let_def)
  next
    case (CallSetCallbacks cbs)
    then show ?thesis
      using ByHost assms
      by (auto simp: act_step_def same_while_held_def zimodem_host_set_callbacks_def split: if_splits)
  next
    case CallStart
    obtain r s2 where start: "zimodem_host_start True (Some i) s = (r, s2)"
      by (cases "zimodem_host_start True (Some i) s")
    then have "attached_to i s2"
      using attached_to_start [of i True i s] att by simp
    then show ?thesis
      using CallStart ByHost assms start start_frame [OF start inst]
      by (auto simp: act_step_def split: sum.splits)
  qed (use ByHost assms in \<open>auto simp: act_step_def\<close>)
next
  case (ByFirmware opr)
  show ?thesis
  proof (cases opr)
    case (FwWrite bs)
    then show ?thesis
      using ByFirmware assms serial_calls_of [OF att, of bs] attached_to_serial [OF att queue_slots(1,2)]
      by (auto simp: act_step_def split_def Let_def)
  next
    case FwRead
    then show ?thesis
      using ByFirmware assms attached_to_serial [OF att queue_slots(3,4)] by (auto simp: act_step_def)
  next
    case (FwDigitalWrite pin val)
    then show ?thesis
      using ByFirmware assms signal_calls_of [OF att, of "uint pin" "uint val"]
        attached_to_pins [OF att pin_slot]
      by (auto simp: act_step_def digitalWrite_def split_def Let_def)
  next
    case (FwBegin b)
    then show ?thesis
      using ByFirmware assms line_calls_of [OF att, of b] attached_to_serial [OF att hw_begin_slots]
      by (auto simp: act_step_def split_def Let_def)
  next
    case (FwDebugPrintf formatted)
    then show ?thesis
      using ByFirmware assms log_calls_of [OF att, of formatted] by (auto simp: act_step_def)
  qed
qed

lemma mutex_ok_alive: "mutex_ok i c \<Longrightarrow> \<exists>inst. heap (process c) i = Some inst"
  by (auto simp: mutex_ok_def split: option.splits)

lemma mutex_ok_tasks: "mutex_ok i c \<Longrightarrow> tasks c t = task # rest \<Longrightarrow> task_of i task \<and> list_all (task_of i) rest"
  by (auto simp: mutex_ok_def dest!: spec [of _ t])

text \<open>Every step but those that enter and leave a host function under the mutex.\<close>

lemma mutex_ok_quiet:
  assumes ok: "mutex_ok i c" and top: "tasks c t = task # rest" and "\<not> is_running task"
    and new: "filter is_running new = []" "list_all (task_of i) new"
    and s1: "attached_to i s1" "heap (process c) i = Some inst" "heap s1 i = Some inst1" "same_while_held inst inst1"
  shows "mutex_ok i \<lparr>process = s1, tasks = (tasks c)(t := new @ rest)\<rparr>" (is "mutex_ok i ?d")
proof -
  have same: "running ?d u = running c u" for u
    using top assms(3) new(1) by (simp add: running_def)
  have "list_all (task_of i) (tasks ?d u)" for u
    using ok mutex_ok_tasks [OF ok top] new(2) by (simp add: mutex_ok_def)
  then show ?thesis
    using ok s1 by (auto simp: mutex_ok_def same same_while_held_def split: if_splits)
qed

lemma enter_cases:
  assumes "lock_and_enter hs k i event s = Some (new, s1)"
  obtains "new = []" and "s1 = s"
  | inst f where "heap s i = Some inst" and "\<not> callback_mutex_held inst" and "registered k inst = Some f"
      and "new = [Acts (map ByHost (hs f)), Running k i f (user_context inst)]"
      and "s1 = s\<lparr>heap := (heap s)(i \<mapsto> inst\<lparr>callback_mutex_held := True\<rparr>),
                   events := events s @ [event f (user_context inst)]\<rparr>"
  using assms by (auto simp: lock_and_enter_def split: option.splits if_splits)

text \<open>What a callback that is due does: nothing, enter a registered function, or copy one.\<close>

lemma due_step_cases:
  assumes "due_step hs d s = Some (new, s1)" and "due_of i d"
  obtains "new = []" and "s1 = s"
  | f event where "new = [Copied f event]" and "s1 = s"
      and "\<exists>inst. heap s i = Some inst \<and> on_line_config inst = Some f"
  | k inst f ev where "heap s i = Some inst" and "\<not> callback_mutex_held inst" and "registered k inst = Some f"
      and "new = [Acts (map ByHost (hs f)), Running k i f (user_context inst)]"
      and "s1 = s\<lparr>heap := (heap s)(i \<mapsto> inst\<lparr>callback_mutex_held := True\<rparr>), events := events s @ [ev]\<rparr>"
proof (cases d)
  case (DueSerial c)
  show ?thesis
  proof (cases c)
    case (DataReadyCall j)
    then have "lock_and_enter hs KSerialOut i SerialOut s = Some (new, s1)"
      using assms DueSerial by (simp add: due_step_def)
    then show ?thesis
      by (rule enter_cases) (rule that(1), assumption+, rule that(3), assumption+)
  next
    case (LineConfigCall j baud config)
    then show ?thesis
      using assms DueSerial that(1,2)
      by (auto simp: due_step_def lock_and_copy_def split_def Let_def split: option.splits if_splits)
  qed
next
  case (DueSignal c)
  obtain j pin val where c: "c = SignalCall j pin val"
    by (cases c)
  then have "lock_and_enter hs KSignal i (\<lambda>f ctx. Signal f ctx pin val) s = Some (new, s1)"
    using assms DueSignal by (simp add: due_step_def)
  then show ?thesis
    by (rule enter_cases) (rule that(1), assumption+, rule that(3), assumption+)
next
  case (DueLog c)
  obtain j message where c: "c = LogCall j message"
    by (cases c)
  then have "lock_and_enter hs KLog i (\<lambda>f ctx. LogLine f ctx (c_view message)) s = Some (new, s1)"
    using assms DueLog by (simp add: due_step_def)
  then show ?thesis
    by (rule enter_cases) (rule that(1), assumption+, rule that(3), assumption+)
qed

lemma mutex_ok_enter:
  assumes ok: "mutex_ok i c" and top: "tasks c t = Dues (x # ds) # rest"
    and inst: "heap (process c) i = Some inst" "\<not> callback_mutex_held inst" "registered k inst = Some f"
  shows "mutex_ok i \<lparr>process = (process c)\<lparr>heap := (heap (process c))(i \<mapsto> inst\<lparr>callback_mutex_held := True\<rparr>),
           events := events (process c) @ [ev]\<rparr>,
         tasks = (tasks c)(t := [Acts (map ByHost (hs f)), Running k i f (user_context inst)] @ Dues ds # rest)\<rparr>"
    (is "mutex_ok i ?d")
proof -
  have none: "running c u = []" for u
    using ok inst(1,2) by (simp add: mutex_ok_def)
  have reg: "registered k (inst\<lparr>callback_mutex_held := True\<rparr>) = Some f"
    using inst(3) by (cases k) simp_all
  have "filter is_running rest = []"
    using none [of t] top by (simp add: running_def)
  then have "running ?d t = [Running k i f (user_context inst)]"
    by (simp add: running_def)
  moreover have "u \<noteq> t \<Longrightarrow> running ?d u = []" for u
    using none [of u] by (simp add: running_def)
  moreover have "list_all (task_of i) (tasks ?d u)" for u
    using ok mutex_ok_tasks [OF ok top] by (simp add: mutex_ok_def)
  ultimately show ?thesis
    using ok reg by (auto simp: mutex_ok_def)
qed

lemma mutex_ok_release:
  assumes ok: "mutex_ok i c" and top: "tasks c t = Running k j f ctx # rest"
  shows "mutex_ok i \<lparr>process = release_mutex j (process c), tasks = (tasks c)(t := rest)\<rparr>" (is "mutex_ok i ?d")
proof -
  obtain inst where inst: "heap (process c) i = Some inst"
    using mutex_ok_alive [OF ok] by blast
  have mine: "running c t = Running k j f ctx # filter is_running rest"
    using top by (simp add: running_def)
  have "callback_mutex_held inst"
    using ok inst mine by (auto simp: mutex_ok_def split: if_splits)
  then obtain u k' f' where u: "running c u = [Running k' i f' (user_context inst)]"
    and others: "\<And>v. v \<noteq> u \<Longrightarrow> running c v = []"
    using ok inst by (auto simp: mutex_ok_def)
  have "u = t"
    using others [of t] mine by auto
  with u mine have "j = i" "filter is_running rest = []"
    by simp_all
  then have "running ?d v = []" for v
    using others \<open>u = t\<close> by (simp add: running_def)
  moreover have "list_all (task_of i) (tasks ?d v)" for v
    using ok mutex_ok_tasks [OF ok top] by (simp add: mutex_ok_def)
  ultimately show ?thesis
    using ok inst \<open>j = i\<close> by (simp add: mutex_ok_def release_mutex_def)
qed

lemma mutex_ok_step:
  assumes "advance hs i t c = Some d" and ok: "mutex_ok i c"
  shows "mutex_ok i d"
  using assms(1)
proof (rule advance_cases)
  fix task rest new s1
  assume top: "tasks c t = task # rest" and one: "task_step hs i task (process c) = Some (new, s1)"
    and d: "d = \<lparr>process = s1, tasks = (tasks c)(t := new @ rest)\<rparr>"
  obtain inst where inst: "heap (process c) i = Some inst"
    using mutex_ok_alive [OF ok] by blast
  have att: "attached_to i (process c)"
    using ok by (simp add: mutex_ok_def)
  note quiet = mutex_ok_quiet [OF ok top _ _ _ _ inst] and of_i = mutex_ok_tasks [OF ok top]
  show ?thesis
  proof (cases task)
    case (Acts as)
    show ?thesis
    proof (cases as)
      case Nil
      then show ?thesis
        using quiet [of new s1 inst] one Acts att inst d by (simp add: task_step_def)
    next
      case (Cons a rest')
      then obtain dues where step: "act_step i a (process c) = Some (dues, s1)"
        and new: "new = (if dues = [] then [] else [Dues dues]) @ [Acts rest']"
        using one Acts by (auto simp: task_step_def)
      from act_step_frame [OF step inst att] show ?thesis
        using quiet [of new s1] new Acts d by (auto split: if_splits)
    qed
  next
    case (Dues ds)
    show ?thesis
    proof (cases ds)
      case Nil
      then show ?thesis
        using quiet [of new s1 inst] one Dues att inst d by (simp add: task_step_def)
    next
      case (Cons x ds')
      then obtain added where step: "due_step hs x (process c) = Some (added, s1)" and new: "new = added @ [Dues ds']"
        using one Dues by (auto simp: task_step_def)
      have x: "due_of i x" "list_all (due_of i) ds'"
        using of_i Dues Cons by simp_all
      have same: "mutex_ok i d" if "filter is_running added = []" "list_all (task_of i) added" "s1 = process c"
        using quiet [of new s1 inst] that new Dues att inst d x(2) by simp
      from step x(1) show ?thesis
      proof (rule due_step_cases)
        fix k inst1 f ev
        assume "heap (process c) i = Some inst1" "\<not> callback_mutex_held inst1" "registered k inst1 = Some f"
          "added = [Acts (map ByHost (hs f)), Running k i f (user_context inst1)]"
          "s1 = (process c)\<lparr>heap := (heap (process c))(i \<mapsto> inst1\<lparr>callback_mutex_held := True\<rparr>),
             events := events (process c) @ [ev]\<rparr>"
        with mutex_ok_enter [OF ok, of t x ds' rest inst1 k f ev hs] show ?thesis
          using top Dues Cons d new by simp
      qed (use same in simp_all)
    qed
  next
    case (Running k j f ctx)
    then show ?thesis
      using mutex_ok_release [OF ok, of t k j f ctx rest] top one d by (simp add: task_step_def)
  next
    case (Copied f event)
    then show ?thesis
      using quiet [of new s1 inst] one att inst d by (auto simp: task_step_def)
  qed
qed

lemma mutex_ok_start:
  "attached_to i s \<Longrightarrow> heap s i = Some inst \<Longrightarrow> \<not> callback_mutex_held inst \<Longrightarrow> mutex_ok i (conc_start s progs)"
  by (simp add: mutex_ok_def conc_start_def running_def)

lemma mutex_ok_reachable: "conc_reachable hs i c0 c \<Longrightarrow> mutex_ok i c0 \<Longrightarrow> mutex_ok i c"
  by (induction rule: conc_reachable.induct) (auto intro: mutex_ok_step)

section \<open>Nobody waits for ever\<close>

text \<open>
  The rules for the host: nothing is destroyed while threads are in the interface, functions
  registered at any time keep to the calls that are safe where they are called.
\<close>

definition safe_callbacks :: "handlers \<Rightarrow> callbacks \<Rightarrow> bool" where
  "safe_callbacks hs cbs \<longleftrightarrow>
     pred_option (\<lambda>f. list_all safe_under_mutex (hs f)) (cb_serial_out cbs) \<and>
     pred_option (\<lambda>f. list_all safe_under_mutex (hs f)) (cb_signal cbs) \<and>
     pred_option (\<lambda>f. list_all safe_under_mutex (hs f)) (cb_log cbs) \<and>
     pred_option (\<lambda>f. list_all safe_in_line_config (hs f)) (cb_line_config cbs)"

definition safe_act :: "handlers \<Rightarrow> act \<Rightarrow> bool" where
  "safe_act hs a =
     (case a of
        ByHost c \<Rightarrow> (case c of CallDestroy \<Rightarrow> False | CallSetCallbacks cbs \<Rightarrow> safe_callbacks hs cbs | _ \<Rightarrow> True)
      | ByFirmware opr \<Rightarrow> True)"

definition quick_act :: "act \<Rightarrow> bool" where
  "quick_act a = (case a of ByHost c \<Rightarrow> safe_under_mutex c | ByFirmware opr \<Rightarrow> False)"

primrec safe_task :: "handlers \<Rightarrow> task \<Rightarrow> bool" where
  "safe_task hs (Acts as) \<longleftrightarrow> list_all (safe_act hs) as"
| "safe_task hs (Dues ds) \<longleftrightarrow> True"
| "safe_task hs (Running k j f ctx) \<longleftrightarrow> True"
| "safe_task hs (Copied f event) \<longleftrightarrow> list_all safe_in_line_config (hs f)"

text \<open>A thread in a host function under the mutex has nothing to do there that needs the mutex.\<close>

fun calm :: "task list \<Rightarrow> bool" where
  "calm (Running k j f ctx # st) \<longleftrightarrow> filter is_running st = []"
| "calm (Acts as # Running k j f ctx # st) \<longleftrightarrow> list_all quick_act as \<and> filter is_running st = []"
| "calm st \<longleftrightarrow> filter is_running st = []"

definition rules_kept :: "handlers \<Rightarrow> inst_ptr \<Rightarrow> conc \<Rightarrow> bool" where
  "rules_kept hs i c \<longleftrightarrow>
     pred_option (handlers_ok hs) (heap (process c) i)
     \<and> (\<forall>t. list_all (safe_task hs) (tasks c t) \<and> calm (tasks c t))"

lemma calm_none: "filter is_running st = [] \<Longrightarrow> calm st"
  by (cases st rule: calm.cases) auto

lemma calm_acts:
  "calm (Acts as # rest) \<Longrightarrow>
     (\<exists>k j f ctx st. rest = Running k j f ctx # st \<and> list_all quick_act as \<and> filter is_running st = [])
     \<or> filter is_running rest = []"
  by (cases "Acts as # rest" rule: calm.cases) auto

lemma calm_other: "calm (task # rest) \<Longrightarrow> (\<And>as. task \<noteq> Acts as) \<Longrightarrow> filter is_running rest = []"
  by (cases "task # rest" rule: calm.cases) auto

lemma safe_acts:
  "list_all safe_under_mutex cs \<Longrightarrow> list_all (safe_act hs) (map ByHost cs) \<and> list_all quick_act (map ByHost cs)"
  "list_all safe_in_line_config cs \<Longrightarrow> list_all (safe_act hs) (map ByHost cs)"
  by (auto simp: list_all_iff safe_act_def quick_act_def safe_under_mutex_def safe_in_line_config_def
      split: host_call.splits)

lemma quick_act_runs:
  "quick_act a \<Longrightarrow> heap s i = Some inst \<Longrightarrow> \<exists>s1. act_step i a s = Some ([], s1)"
  by (auto simp: quick_act_def safe_under_mutex_def act_step_def zimodem_host_start_def Let_def
      split: act.splits host_call.splits)

lemma safe_act_runs:
  "safe_act hs a \<Longrightarrow> heap s i = Some inst \<Longrightarrow> \<not> callback_mutex_held inst \<Longrightarrow> \<exists>r. act_step i a s = Some r"
  by (auto simp: safe_act_def act_step_def zimodem_host_start_def zimodem_host_set_callbacks_def split_def Let_def
      split: act.splits host_call.splits fw_op.splits)

lemma due_runs:
  "due_of i d \<Longrightarrow> heap s i = Some inst \<Longrightarrow> \<not> callback_mutex_held inst \<Longrightarrow> \<exists>r. due_step hs d s = Some r"
  by (cases d) (auto simp: due_step_def lock_and_enter_def lock_and_copy_def split_def Let_def
      split: serial_call.splits signal_call.splits log_call.splits option.splits)

lemma handlers_ok_act:
  assumes "act_step i a s = Some (dues, s1)" and "safe_act hs a" and "pred_option (handlers_ok hs) (heap s i)"
  shows "pred_option (handlers_ok hs) (heap s1 i)"
  using assms
  by (auto simp: act_step_def safe_act_def safe_callbacks_def handlers_ok_def zimodem_host_write_serial_def
      zimodem_host_rx_read_def zimodem_host_start_def zimodem_host_set_callbacks_def split_def Let_def
      split: act.splits host_call.splits fw_op.splits option.splits if_splits sum.splits)

lemma calm_step:
  assumes "calm (task # rest)" and "task_step hs i task s = Some (new, s1)"
    and "safe_task hs task" and "pred_option (handlers_ok hs) (heap s i)" and "task_of i task"
    and "heap s i = Some inst"
  shows "calm (new @ rest) \<and> list_all (safe_task hs) new"
proof (cases task)
  case (Acts as)
  show ?thesis
  proof (cases as)
    case Nil
    then show ?thesis
      using assms(1,2) Acts calm_acts [of as rest] by (auto simp: task_step_def intro: calm_none)
  next
    case (Cons a as')
    obtain dues where step: "act_step i a s = Some (dues, s1)"
      and new: "new = (if dues = [] then [] else [Dues dues]) @ [Acts as']"
      using assms(2) Acts Cons by (auto simp: task_step_def)
    have "dues = []" if "quick_act a"
      using quick_act_runs [OF that assms(6)] step by auto
    then show ?thesis
      using calm_acts [of as rest] assms(1,3) Acts Cons new by (auto intro: calm_none)
  qed
next
  case (Dues ds)
  have none: "filter is_running rest = []"
    using calm_other [OF assms(1)] Dues by simp
  show ?thesis
  proof (cases ds)
    case Nil
    then show ?thesis
      using assms(2) Dues none by (auto simp: task_step_def intro: calm_none)
  next
    case (Cons x ds')
    obtain added where step: "due_step hs x s = Some (added, s1)" and new: "new = added @ [Dues ds']"
      using assms(2) Dues Cons by (auto simp: task_step_def)
    have "due_of i x"
      using assms(5) Dues Cons by simp
    with step show ?thesis
    proof (rule due_step_cases)
      fix f event
      assume "added = [Copied f event]" "\<exists>inst. heap s i = Some inst \<and> on_line_config inst = Some f"
      then show ?thesis
        using new none assms(4) by (auto simp: handlers_ok_def intro!: calm_none)
    next
      fix k inst1 f
      assume "heap s i = Some inst1" "registered k inst1 = Some f"
        "added = [Acts (map ByHost (hs f)), Running k i f (user_context inst1)]"
      then show ?thesis
        using new none assms(4) safe_acts(1) [of "hs f" hs]
        by (cases k) (auto simp: handlers_ok_def)
    qed (use new none in \<open>auto intro: calm_none\<close>)
  qed
next
  case (Running k j f ctx)
  then show ?thesis
    using assms(2) calm_other [OF assms(1)] by (auto simp: task_step_def intro: calm_none)
next
  case (Copied f event)
  then show ?thesis
    using assms(2,3) calm_other [OF assms(1)] safe_acts(2) [of "hs f" hs]
    by (auto simp: task_step_def intro!: calm_none)
qed

lemma rules_kept_step:
  assumes "advance hs i t c = Some d" and ok: "mutex_ok i c" and kept: "rules_kept hs i c"
  shows "rules_kept hs i d"
  using assms(1)
proof (rule advance_cases)
  fix task rest new s1
  assume top: "tasks c t = task # rest" and one: "task_step hs i task (process c) = Some (new, s1)"
    and d: "d = \<lparr>process = s1, tasks = (tasks c)(t := new @ rest)\<rparr>"
  obtain inst where inst: "heap (process c) i = Some inst"
    using mutex_ok_alive [OF ok] by blast
  have hs: "pred_option (handlers_ok hs) (heap (process c) i)"
    and mine: "list_all (safe_task hs) (task # rest)" "calm (task # rest)"
    and all: "\<And>u. list_all (safe_task hs) (tasks c u) \<and> calm (tasks c u)"
    using kept top by (auto simp: rules_kept_def dest: spec [of _ t])
  have "safe_task hs task"
    using mine(1) by simp
  from calm_step [OF mine(2) one this hs _ inst] mutex_ok_tasks [OF ok top]
  have new: "calm (new @ rest)" "list_all (safe_task hs) new"
    by simp_all
  have "pred_option (handlers_ok hs) (heap s1 i)"
  proof (cases task)
    case (Acts as)
    then show ?thesis
      using one hs mine(1) handlers_ok_act by (auto simp: task_step_def split: list.splits)
  next
    case (Dues ds)
    show ?thesis
      using one hs Dues
      by (auto simp: task_step_def due_step_def lock_and_enter_def lock_and_copy_def handlers_ok_def split_def Let_def
          split: list.splits due.splits serial_call.splits signal_call.splits log_call.splits option.splits if_splits)
  qed (use one hs in \<open>auto simp: task_step_def release_mutex_def handlers_ok_def split: option.splits\<close>)
  then show ?thesis
    using new all mine(1) d by (simp add: rules_kept_def)
qed

lemma rules_kept_reachable:
  "conc_reachable hs i c0 c \<Longrightarrow> mutex_ok i c0 \<Longrightarrow> rules_kept hs i c0 \<Longrightarrow> rules_kept hs i c"
  by (induction rule: conc_reachable.induct) (auto intro: rules_kept_step mutex_ok_reachable)

lemma rules_kept_start:
  "heap s i = Some inst \<Longrightarrow> handlers_ok hs inst \<Longrightarrow> (\<And>t. list_all (safe_act hs) (progs t)) \<Longrightarrow>
     rules_kept hs i (conc_start s progs)"
  by (simp add: rules_kept_def conc_start_def)

lemma calm_busy:
  assumes "calm st" and "filter is_running st = [Running k j f ctx]"
  shows "(\<exists>st'. st = Running k j f ctx # st') \<or> (\<exists>as st'. st = Acts as # Running k j f ctx # st' \<and> list_all quick_act as)"
  using assms by (cases st rule: calm.cases) (auto split: if_splits)

lemma advance_top:
  "tasks c t = task # rest \<Longrightarrow> task_step hs i task (process c) = Some r \<Longrightarrow> \<exists>d. advance hs i t c = Some d"
  by (simp add: advance_def)

lemma acts_run:
  "heap s i = Some inst \<Longrightarrow>
     (case as of [] \<Rightarrow> True | a # rest \<Rightarrow> quick_act a \<or> safe_act hs a \<and> \<not> callback_mutex_held inst) \<Longrightarrow>
     \<exists>r. task_step hs i (Acts as) s = Some r"
  using quick_act_runs [of _ s i inst] safe_act_runs [of hs _ s i inst]
  by (cases as) (auto simp: task_step_def, blast+)

lemma somebody_advances:
  assumes ok: "mutex_ok i c" and kept: "rules_kept hs i c" and "tasks c t \<noteq> []"
  shows "\<exists>u d. advance hs i u c = Some d"
proof -
  obtain inst where inst: "heap (process c) i = Some inst"
    using mutex_ok_alive [OF ok] by blast
  have calm: "calm (tasks c u)" and safe: "list_all (safe_task hs) (tasks c u)" for u
    using kept by (simp_all add: rules_kept_def)
  show ?thesis
  proof (cases "callback_mutex_held inst")
    case True
    then obtain u k f where "running c u = [Running k i f (user_context inst)]"
      using ok inst by (auto simp: mutex_ok_def)
    from calm_busy [OF calm [of u] this [unfolded running_def]] show ?thesis
    proof (elim disjE exE conjE)
      fix st
      assume top: "tasks c u = Running k i f (user_context inst) # st"
      show ?thesis
        by (intro exI [of _ u] advance_top [OF top]) (simp add: task_step_def)
    next
      fix as st
      assume top: "tasks c u = Acts as # Running k i f (user_context inst) # st" and "list_all quick_act as"
      then have "\<exists>r. task_step hs i (Acts as) (process c) = Some r"
        by (intro acts_run [OF inst]) (auto split: list.split)
      then show ?thesis
        using advance_top [OF top] by blast
    qed
  next
    case False
    obtain task rest where top: "tasks c t = task # rest"
      using assms(3) by (cases "tasks c t") auto
    have "\<exists>r. task_step hs i task (process c) = Some r"
    proof (cases task)
      case (Acts as)
      then have "list_all (safe_act hs) as"
        using safe [of t] top by simp
      then have "\<exists>r. task_step hs i (Acts as) (process c) = Some r"
        using False by (intro acts_run [OF inst, where hs = hs]) (cases as; simp)
      then show ?thesis
        unfolding Acts .
    next
      case (Dues ds)
      then show ?thesis
        using mutex_ok_tasks [OF ok top] due_runs [OF _ inst False, of _ hs]
        by (cases ds) (force simp: task_step_def)+
    qed (simp_all add: task_step_def)
    then show ?thesis
      using advance_top [OF top] by blast
  qed
qed

text \<open>The sample host of \<open>HostCallbacks\<close>, the firmware writing on thread 0, a host on thread 1.\<close>

definition sample_threads :: conc where
  "sample_threads = conc_start sample_host
     (\<lambda>t. if t = 0 then [ByFirmware (FwWrite [65])] else if t = 1 then [ByHost (CallSetPin kPinCts 1)] else [])"

lemma sample_threads_start:
  "attached_to 1 sample_host" "heap sample_host 1 = Some (the (heap sample_host 1))"
  "\<not> callback_mutex_held (the (heap sample_host 1))" "handlers_ok sample_handlers (the (heap sample_host 1))"
  using sample_live by (auto simp: live_with_def split: option.splits)

lemma sample_threads_in_handler:
  "\<exists>c. turns sample_handlers 1 [0, 0] sample_threads = Some c
     \<and> tasks c 0 = [Acts (map ByHost [CallRxAvailable, CallRxRead, CallWriteSerial [65]]), Running KSerialOut 1 10 99, Dues [], Acts []]"
  by (simp add: sample_threads_def conc_start_def sample_host_def new_instance_def advance_def task_step_def
      act_step_def due_step_def lock_and_enter_def serial_write_def set_line_config_callback_def
      set_data_ready_callback_def serial_init_def sample_handlers_def Let_def)

section \<open>Properties\<close>

text \<open>
  C6: host functions run one at a time, and only while they are registered. However the threads of
  the host and the firmware's thread interleave, whatever the host functions call: while some
  thread is in \<open>on_serial_out\<close>, \<open>on_signal\<close> or \<open>on_log\<close>, no other call of one of these three is
  in progress on any thread, the function is the one the instance has registered for the event,
  and the context it was given is the registered one. So once \<open>zimodem_host_set_callbacks\<close> has
  returned, none of the three functions it replaced is running or will be called.
\<close>

theorem host_functions_run_one_at_a_time:
  assumes "conc_reachable hs i (conc_start s progs) c" and "attached_to i s"
    and "heap s i = Some inst0" and "\<not> callback_mutex_held inst0"
    and "Running k j f ctx \<in> set (tasks c t)"
  shows "(\<forall>u k' j' f' ctx'. Running k' j' f' ctx' \<in> set (tasks c u) \<longrightarrow> u = t \<and> k' = k \<and> f' = f)
    \<and> (\<exists>inst. heap (process c) i = Some inst \<and> registered k inst = Some f \<and> user_context inst = ctx)"
proof -
  have ok: "mutex_ok i c"
    using mutex_ok_reachable [OF assms(1) mutex_ok_start [OF assms(2-4)]] .
  then obtain inst where inst: "heap (process c) i = Some inst"
    using mutex_ok_alive by blast
  have in_running: "Running k' j' f' ctx' \<in> set (running c u)" if "Running k' j' f' ctx' \<in> set (tasks c u)" for u k' j' f' ctx'
    using that by (simp add: running_def)
  have "callback_mutex_held inst"
    using ok inst in_running [OF assms(5)] by (auto simp: mutex_ok_def split: if_splits)
  then obtain v k1 f1 where one: "running c v = [Running k1 i f1 (user_context inst)]" "registered k1 inst = Some f1"
    and others: "\<And>u. u \<noteq> v \<Longrightarrow> running c u = []"
    using ok inst by (auto simp: mutex_ok_def)
  have here: "u = v \<and> k' = k1 \<and> f' = f1 \<and> ctx' = user_context inst"
    if "Running k' j' f' ctx' \<in> set (tasks c u)" for u k' j' f' ctx'
    using in_running [OF that] one others [of u] by (cases "u = v") auto
  show ?thesis
    using here [OF assms(5)] here one(2) inst by blast
qed

theorem host_functions_run_one_at_a_time_witness:
  "\<exists>c inst. turns sample_handlers 1 [0, 0] sample_threads = Some c \<and> heap (process c) 1 = Some inst
     \<and> on_serial_out inst = Some 10 \<and> user_context inst = 99"
proof -
  obtain c where run: "turns sample_handlers 1 [0, 0] sample_threads = Some c"
    and "Running KSerialOut 1 10 99 \<in> set (tasks c 0)"
    using sample_threads_in_handler by auto
  then show ?thesis
    using host_functions_run_one_at_a_time
        [OF turns_reach [OF run, unfolded sample_threads_def] sample_threads_start(1-3), of KSerialOut 1 10 99 0]
    by auto
qed

text \<open>
  Threads that follow the rules never block each other for ever. If no call destroys the
  instance and every function that is registered, at the start or later, makes only calls that
  are safe where it is called (those under the mutex none that take it), then in every state that
  any number of threads can reach, as long as one of them has something left to do, one of them
  can go on. No order of taking \<open>callback_mutex\<close> and the mutexes of the HAL deadlocks.
\<close>

theorem callback_threads_never_deadlock:
  assumes "conc_reachable hs i (conc_start s progs) c" and "attached_to i s"
    and "heap s i = Some inst" and "\<not> callback_mutex_held inst" and "handlers_ok hs inst"
    and "\<And>u. list_all (safe_act hs) (progs u)" and "tasks c t \<noteq> []"
  shows "\<exists>u d. advance hs i u c = Some d"
proof (rule somebody_advances [OF _ _ assms(7)])
  have start: "mutex_ok i (conc_start s progs)"
    using mutex_ok_start [OF assms(2-4)] .
  show "mutex_ok i c"
    using mutex_ok_reachable [OF assms(1) start] .
  show "rules_kept hs i c"
    using rules_kept_reachable [OF assms(1) start rules_kept_start [OF assms(3,5,6)]] .
qed

theorem callback_threads_never_deadlock_witness:
  "\<exists>c u d. turns sample_handlers 1 [0, 0] sample_threads = Some c \<and> advance sample_handlers 1 u c = Some d"
proof -
  obtain c where run: "turns sample_handlers 1 [0, 0] sample_threads = Some c" and "tasks c 0 \<noteq> []"
    using sample_threads_in_handler by auto
  then show ?thesis
    using callback_threads_never_deadlock
        [OF turns_reach [OF run, unfolded sample_threads_def] sample_threads_start, of 0]
    by (auto simp: safe_act_def)
qed

text \<open>
  \<open>zimodem_host_set_pin\<close> calls \<open>on_signal\<close> itself, on the thread that called it. When it
  changes the value of a pin and nobody holds the mutex, the calling thread, not the background
  thread, is in the registered function two steps later, told of the change it made.
\<close>

theorem set_pin_calls_back_on_its_own_thread:
  assumes "tasks c t = Acts (ByHost (CallSetPin pin val) # as) # rest"
    and "g_callback (hal_pins (process c)) = Some i" and "g_value (hal_pins (process c)) pin \<noteq> Some val"
    and "heap (process c) i = Some inst" and "\<not> callback_mutex_held inst" and "on_signal inst = Some f"
  shows "\<exists>d. turns hs i [t, t] c = Some d
    \<and> tasks d t = Acts (map ByHost (hs f)) # Running KSignal i f (user_context inst) # Dues [] # Acts as # rest
    \<and> events (process d) = events (process c) @ [Signal f (user_context inst) pin val]"
proof -
  have "fst (digital_write pin val (hal_pins (process c))) = [SignalCall i pin val]"
    using assms(2,3) by (auto simp: digital_write_calls)
  then show ?thesis
    using assms(1,4-6)
    by (simp add: advance_def task_step_def act_step_def due_step_def lock_and_enter_def split_def Let_def)
qed

theorem set_pin_calls_back_on_its_own_thread_witness:
  "\<exists>d. turns sample_handlers 1 [1, 1] (conc_start sample_host (\<lambda>t. if t = 1 then [ByHost (CallSetPin kPinCts 1)] else []))
       = Some d
     \<and> events (process d) = [Signal 11 99 kPinCts 1] \<and> tasks d 1 = [Acts [], Running KSignal 1 11 99, Dues [], Acts []]"
proof -
  let ?c = "conc_start sample_host (\<lambda>t. if t = 1 then [ByHost (CallSetPin kPinCts 1)] else [])"
  let ?inst = "new_instance\<lparr>on_serial_out := Some 10, on_signal := Some 11, on_log := Some 12,
      on_line_config := Some 13, user_context := 99\<rparr>"
  have "tasks ?c 1 = Acts (ByHost (CallSetPin kPinCts 1) # []) # []" "events (process ?c) = []"
    "g_callback (hal_pins (process ?c)) = Some 1" "g_value (hal_pins (process ?c)) kPinCts \<noteq> Some 1"
    "heap (process ?c) 1 = Some ?inst" "\<not> callback_mutex_held ?inst" "on_signal ?inst = Some 11"
    "user_context ?inst = 99" "sample_handlers 11 = []"
    by (simp_all add: conc_start_def sample_host_def sample_handlers_def new_instance_def set_signal_callback_def
        pins_init_def host_init_def)
  with set_pin_calls_back_on_its_own_thread [of ?c 1 kPinCts 1 "[]" "[]" 1 ?inst 11 sample_handlers] show ?thesis
    by (auto simp del: turns.simps)
qed

text \<open>
  C36: the line-settings function is not covered by the mutex. A state can be reached in which the
  host has replaced all its functions by none, and \<open>zimodem_host_set_callbacks\<close> has returned on
  the only host thread; yet the next thing the background thread does is to call the old
  \<open>on_line_config\<close> with the old context.
\<close>

theorem replaced_line_config_function_is_called:
  "\<exists>c d. conc_reachable sample_handlers 1
        (conc_start sample_host (\<lambda>t. if t = 0 then [ByFirmware (FwBegin (BeginConfig 9600 SERIAL_8N1))]
           else if t = 1 then [ByHost (CallSetCallbacks \<lparr>cb_serial_out = None, cb_signal = None, cb_log = None,
             cb_line_config = None, cb_context = 0\<rparr>)] else [])) c
     \<and> tasks c 1 = [] \<and> on_line_config (the (heap (process c) 1)) = None
     \<and> advance sample_handlers 1 0 c = Some d
     \<and> events (process d) = events (process c) @ [LineConfig 13 99 9600 8 ZIMODEM_PARITY_NONE 10]"
proof -
  let ?start = "conc_start sample_host (\<lambda>t. if t = 0 then [ByFirmware (FwBegin (BeginConfig 9600 SERIAL_8N1))]
           else if t = 1 then [ByHost (CallSetCallbacks \<lparr>cb_serial_out = None, cb_signal = None, cb_log = None,
             cb_line_config = None, cb_context = 0\<rparr>)] else [])"
  have decoded: "decode_serial_config SERIAL_8N1 (Some 0) (Some 0) (Some 0) = (Some 8, Some ZIMODEM_PARITY_NONE, Some 10)"
    by code_simp
  have baud: "int_of_ulong (9600 :: u64) = 9600"
    by code_simp
  obtain c where run: "turns sample_handlers 1 [0, 0, 1, 1] ?start = Some c"
    and c: "tasks c 1 = []" "on_line_config (the (heap (process c) 1)) = None"
      "tasks c 0 = [Copied 13 (LineConfig 13 99 9600 8 ZIMODEM_PARITY_NONE 10), Dues [], Acts []]"
    by (simp add: conc_start_def sample_host_def new_instance_def advance_def task_step_def act_step_def due_step_def
        lock_and_copy_def set_line_config_def set_line_config_callback_def set_data_ready_callback_def serial_init_def
        zimodem_host_set_callbacks_def decoded baud Let_def)
  show ?thesis
    using turns_reach [OF run] c by (intro exI conjI) (auto simp: advance_def task_step_def)
qed

end
