(* ===== verification/CallbackAlone.thy ===== *)
theory CallbackAlone
  imports CallbackThreads
begin

text \<open>
  The threads of \<open>CallbackThreads\<close> against the functions of \<open>HostAbi\<close>. There a call runs with
  all the callbacks it causes, as the argument of a nested evaluation; here it takes turns. A
  simulation shows that turns of one thread alone come to the same.
\<close>

section \<open>A thread alone\<close>

text \<open>What one thread's tasks come to when no other thread takes a turn.\<close>

inductive solo :: "handlers \<Rightarrow> inst_ptr \<Rightarrow> task list \<times> host \<Rightarrow> task list \<times> host \<Rightarrow> bool" for hs i where
  solo_done: "solo hs i p p"
| solo_more: "task_step hs i task s = Some (new, s1) \<Longrightarrow> solo hs i (new @ rest, s1) q \<Longrightarrow> solo hs i (task # rest, s) q"

lemma solo_trans: "solo hs i p q \<Longrightarrow> solo hs i q r \<Longrightarrow> solo hs i p r"
  by (induction rule: solo.induct) (auto intro: solo_more)

lemma solo_one: "task_step hs i task s = Some (new, s1) \<Longrightarrow> solo hs i (task # rest, s) (new @ rest, s1)"
  by (auto intro: solo_more solo_done)

lemma solo_turns:
  "solo hs i p q \<Longrightarrow> p = (tasks c t, process c) \<Longrightarrow>
     \<exists>n. turns hs i (replicate n t) c = Some \<lparr>process = snd q, tasks = (tasks c)(t := fst q)\<rparr>"
proof (induction arbitrary: c rule: solo.induct)
  case (solo_done p)
  then have "turns hs i (replicate 0 t) c = Some \<lparr>process = snd p, tasks = (tasks c)(t := fst p)\<rparr>"
    by simp
  then show ?case ..
next
  case (solo_more task s new s1 rest q)
  let ?d = "\<lparr>process = s1, tasks = (tasks c)(t := new @ rest)\<rparr>"
  have "tasks c t = task # rest" "process c = s"
    using solo_more.prems by simp_all
  then have "advance hs i t c = Some ?d"
    using solo_more.hyps(1) by (simp add: advance_def)
  moreover have "(new @ rest, s1) = (tasks ?d t, process ?d)"
    by simp
  then obtain n where "turns hs i (replicate n t) ?d = Some \<lparr>process = snd q, tasks = (tasks ?d)(t := fst q)\<rparr>"
    using solo_more.IH by blast
  moreover have "(tasks ?d)(t := fst q) = (tasks c)(t := fst q)"
    by simp
  ultimately have "turns hs i (replicate (Suc n) t) c = Some \<lparr>process = snd q, tasks = (tasks c)(t := fst q)\<rparr>"
    by simp
  then show ?case ..
qed

text \<open>A runner of \<open>HostAbi\<close> whose successes the tasks reproduce.\<close>

definition runner_of :: "handlers \<Rightarrow> inst_ptr \<Rightarrow> runner \<Rightarrow> bool" where
  "runner_of hs i run \<longleftrightarrow>
     (\<forall>f s s1 rest. run (hs f) s = Inr s1 \<longrightarrow> solo hs i (Acts (map ByHost (hs f)) # rest, s) (rest, s1))"

primrec due_action :: "runner \<Rightarrow> handlers \<Rightarrow> due \<Rightarrow> host \<Rightarrow> host_error + host" where
  "due_action run hs (DueSerial c) s = serial_call_action run hs c s"
| "due_action run hs (DueSignal c) s = signal_call_action run hs c s"
| "due_action run hs (DueLog c) s = log_call_action run hs c s"

lemma enter_solo:
  assumes "runner_of hs i run" and "lock_and_call run hs j (registered k) event s = Inr s1"
    and "\<And>r. lock_and_enter hs k j event s = Some r \<Longrightarrow> due_step hs d s = Some r"
  shows "solo hs i (Dues (d # ds) # rest, s) (Dues ds # rest, s1)"
proof -
  obtain inst where inst: "heap s j = Some inst" "\<not> callback_mutex_held inst"
    using assms(2) by (auto simp: lock_and_call_def split: option.splits if_splits)
  show ?thesis
  proof (cases "registered k inst")
    case None
    then have "s1 = s" "due_step hs d s = Some ([], s)"
      using assms(2) assms(3) [of "([], s)"] inst by (simp_all add: lock_and_call_def lock_and_enter_def)
    then show ?thesis
      using solo_one [of hs i "Dues (d # ds)" s "[Dues ds]" s rest] by (simp add: task_step_def)
  next
    case (Some f)
    let ?s2 = "s\<lparr>heap := (heap s)(j \<mapsto> inst\<lparr>callback_mutex_held := True\<rparr>), events := events s @ [event f (user_context inst)]\<rparr>"
    have "due_step hs d s = Some ([Acts (map ByHost (hs f)), Running k j f (user_context inst)], ?s2)"
      by (rule assms(3)) (simp add: lock_and_enter_def inst Some)
    then have "solo hs i (Dues (d # ds) # rest, s)
        (Acts (map ByHost (hs f)) # Running k j f (user_context inst) # Dues ds # rest, ?s2)"
      using solo_one [of hs i "Dues (d # ds)" s "[Acts (map ByHost (hs f)), Running k j f (user_context inst), Dues ds]" ?s2 rest]
      by (simp add: task_step_def)
    moreover obtain s3 inst3 where ran: "run (hs f) ?s2 = Inr s3" and "heap s3 j = Some inst3"
      and s1: "s1 = s3\<lparr>heap := (heap s3)(j \<mapsto> inst3\<lparr>callback_mutex_held := False\<rparr>)\<rparr>"
      using assms(2) inst Some by (auto simp: lock_and_call_def Let_def split: sum.splits option.splits)
    then have "solo hs i (Acts (map ByHost (hs f)) # Running k j f (user_context inst) # Dues ds # rest, ?s2)
        (Running k j f (user_context inst) # Dues ds # rest, s3)"
      using assms(1) by (simp add: runner_of_def)
    moreover have "solo hs i (Running k j f (user_context inst) # Dues ds # rest, s3) (Dues ds # rest, s1)"
      using solo_one [of hs i "Running k j f (user_context inst)" s3 "[]" s1 "Dues ds # rest"] \<open>heap s3 j = Some inst3\<close> s1
      by (simp add: task_step_def release_mutex_def)
    ultimately show ?thesis
      by (blast intro: solo_trans)
  qed
qed

lemma copy_solo:
  assumes "runner_of hs i run" and "line_config_lambda run hs j baud config s = Inr s1"
    and "due_step hs d s = lock_and_copy j baud config s"
  shows "solo hs i (Dues (d # ds) # rest, s) (Dues ds # rest, s1)"
proof -
  obtain inst where inst: "heap s j = Some inst" "\<not> callback_mutex_held inst"
    using assms(2) by (auto simp: line_config_lambda_def split: option.splits if_splits)
  show ?thesis
  proof (cases "on_line_config inst")
    case None
    then have "s1 = s" "due_step hs d s = Some ([], s)"
      using assms(2,3) inst by (simp_all add: line_config_lambda_def lock_and_copy_def)
    then show ?thesis
      using solo_one [of hs i "Dues (d # ds)" s "[Dues ds]" s rest] by (simp add: task_step_def)
  next
    case (Some f)
    obtain b p t where dec: "decode_serial_config config (Some 0) (Some 0) (Some 0) = (b, p, t)"
      by (cases "decode_serial_config config (Some 0) (Some 0) (Some 0)")
    let ?ev = "LineConfig f (user_context inst) (int_of_ulong baud) (the b) (the p) (the t)"
    let ?s2 = "s\<lparr>events := events s @ [?ev]\<rparr>"
    have "due_step hs d s = Some ([Copied f ?ev], s)"
      by (simp add: assms(3) lock_and_copy_def inst Some dec)
    then have "solo hs i (Dues (d # ds) # rest, s) (Copied f ?ev # Dues ds # rest, s)"
      using solo_one [of hs i "Dues (d # ds)" s "[Copied f ?ev, Dues ds]" s rest] by (simp add: task_step_def)
    moreover have "solo hs i (Copied f ?ev # Dues ds # rest, s) (Acts (map ByHost (hs f)) # Dues ds # rest, ?s2)"
      using solo_one [of hs i "Copied f ?ev" s "[Acts (map ByHost (hs f))]" ?s2 "Dues ds # rest"]
      by (simp add: task_step_def)
    moreover have "run (hs f) ?s2 = Inr s1"
      using assms(2) inst Some dec by (simp add: line_config_lambda_def)
    then have "solo hs i (Acts (map ByHost (hs f)) # Dues ds # rest, ?s2) (Dues ds # rest, s1)"
      using assms(1) by (simp add: runner_of_def)
    ultimately show ?thesis
      by (blast intro: solo_trans)
  qed
qed

lemma registered_functions:
  "registered KSerialOut = on_serial_out" "registered KSignal = on_signal" "registered KLog = on_log"
  by (rule ext, simp)+

lemma due_solo:
  assumes "runner_of hs i run" and "due_action run hs d s = Inr s1"
  shows "solo hs i (Dues (d # ds) # rest, s) (Dues ds # rest, s1)"
proof (cases d)
  case (DueSerial c)
  then show ?thesis
    using assms(2) enter_solo [OF assms(1), of _ KSerialOut SerialOut s s1 d]
      copy_solo [OF assms(1), of _ _ _ s s1 d]
    by (cases c) (auto simp: serial_call_action_def data_ready_lambda_def due_step_def registered_functions)
next
  case (DueSignal c)
  obtain j pin val where "c = SignalCall j pin val"
    by (cases c)
  then show ?thesis
    using DueSignal assms(2) enter_solo [OF assms(1), of j KSignal "\<lambda>f ctx. Signal f ctx pin val" s s1 d]
    by (auto simp: signal_call_action_def signal_lambda_def due_step_def registered_functions)
next
  case (DueLog c)
  obtain j message where "c = LogCall j message"
    by (cases c)
  then show ?thesis
    using DueLog assms(2) enter_solo [OF assms(1), of j KLog "\<lambda>f ctx. LogLine f ctx (c_view message)" s s1 d]
    by (auto simp: log_call_action_def instance_log_def due_step_def registered_functions)
qed

lemma dues_solo:
  assumes "runner_of hs i run"
  shows "run_list (due_action run hs) ds s = Inr s1 \<Longrightarrow> solo hs i (Dues ds # rest, s) (rest, s1)"
proof (induction ds arbitrary: s)
  case Nil
  then show ?case
    using solo_one [of hs i "Dues []" s "[]" s rest] by (simp add: task_step_def)
next
  case (Cons d ds)
  then obtain s2 where "due_action run hs d s = Inr s2" and rest: "run_list (due_action run hs) ds s2 = Inr s1"
    by (auto split: sum.splits)
  from due_solo [OF assms this(1)] Cons.IH [OF rest] show ?case
    by (blast intro: solo_trans)
qed

lemma run_list_map: "(\<And>x. call (g x) = call' x) \<Longrightarrow> run_list call (map g xs) s = run_list call' xs s"
  by (induction xs arbitrary: s) (auto split: sum.splits)

lemma run_list_dues:
  "run_list (due_action run hs) (map DueSerial scs) s = run_list (serial_call_action run hs) scs s"
  "run_list (due_action run hs) (map DueSignal pcs) s = run_list (signal_call_action run hs) pcs s"
  "run_list (due_action run hs) (map DueLog lcs) s = run_list (log_call_action run hs) lcs s"
  by (rule run_list_map, rule ext, simp)+

text \<open>One call with its callbacks.\<close>

lemma act_solo:
  assumes "runner_of hs i run" and "act_step i a s = Some (ds, s1)" and "run_list (due_action run hs) ds s1 = Inr s2"
  shows "solo hs i (Acts (a # as) # rest, s) (Acts as # rest, s2)"
proof -
  have "solo hs i (Acts (a # as) # rest, s) ((if ds = [] then [] else [Dues ds]) @ Acts as # rest, s1)"
    using solo_one [of hs i "Acts (a # as)" s "(if ds = [] then [] else [Dues ds]) @ [Acts as]" s1 rest] assms(2)
    by (auto simp: task_step_def split: if_splits)
  moreover have "solo hs i ((if ds = [] then [] else [Dues ds]) @ Acts as # rest, s1) (Acts as # rest, s2)"
    using dues_solo [OF assms(1,3)] assms(3) by (auto intro: solo_done)
  ultimately show ?thesis
    by (rule solo_trans)
qed

definition no_destroy :: "host_call list \<Rightarrow> bool" where
  "no_destroy cs \<longleftrightarrow> CallDestroy \<notin> set cs"

lemma calls_solo:
  assumes "\<And>c s s1 as rest. call c s = Inr s1 \<Longrightarrow> c \<noteq> CallDestroy \<Longrightarrow>
      solo hs i (Acts (ByHost c # as) # rest, s) (Acts as # rest, s1)"
  shows "run_list call cs s = Inr s1 \<Longrightarrow> no_destroy cs \<Longrightarrow> solo hs i (Acts (map ByHost cs) # rest, s) (rest, s1)"
proof (induction cs arbitrary: s)
  case Nil
  then show ?case
    using solo_one [of hs i "Acts []" s "[]" s rest] by (simp add: task_step_def)
next
  case (Cons c cs)
  then obtain s2 where "call c s = Inr s2" and "run_list call cs s2 = Inr s1"
    by (auto split: sum.splits)
  with assms [of c s s2 "map ByHost cs" rest] Cons show ?case
    by (auto simp: no_destroy_def intro: solo_trans)
qed

lemma call_solo:
  assumes "\<And>f. no_destroy (hs f)"
  shows "call_abi n w hs i c s = Inr s1 \<Longrightarrow> c \<noteq> CallDestroy \<Longrightarrow> solo hs i (Acts (ByHost c # as) # rest, s) (Acts as # rest, s1)"
proof (induction n arbitrary: c s s1 as rest)
  case 0
  then show ?case by simp
next
  case (Suc n)
  have run: "runner_of hs i (run_list (call_abi n w hs i))"
    using calls_solo [OF Suc.IH] assms by (simp add: runner_of_def)
  show ?case
  proof (cases c)
    case (CallSetPin pin val)
    have "run_list (due_action (run_list (call_abi n w hs i)) hs) (map DueSignal (fst (digital_write pin val (hal_pins s))))
        (s\<lparr>hal_pins := snd (digital_write pin val (hal_pins s))\<rparr>) = Inr s1"
      using Suc.prems CallSetPin by (simp add: run_list_dues zimodem_host_set_pin_def split_def Let_def)
    from act_solo [OF run _ this] show ?thesis
      using CallSetPin by (simp add: act_step_def split_def Let_def)
  qed (use Suc.prems act_solo [OF run, of _ s "[]"] in \<open>auto simp: act_step_def split: sum.splits prod.splits\<close>)
qed

lemma call_runner: "(\<And>f. no_destroy (hs f)) \<Longrightarrow> runner_of hs i (run_list (call_abi n w hs i))"
  using calls_solo [OF call_solo] by (simp add: runner_of_def)

lemma firmware_solo:
  assumes "\<And>f. no_destroy (hs f)" and "fw_step hs i opr s = Inr s1"
  shows "solo hs i (Acts (ByFirmware opr # as) # rest, s) (Acts as # rest, s1)"
proof -
  have run: "runner_of hs i (run_list (call_abi 2 True hs i))"
    using call_runner [OF assms(1)] .
  obtain ds s2 where act: "act_step i (ByFirmware opr) s = Some (ds, s2)"
    and due: "run_list (due_action (run_list (call_abi 2 True hs i)) hs) ds s2 = Inr s1"
    using assms(2) by (cases opr) (auto simp: fw_step_def act_step_def run_list_dues split_def Let_def)
  from act_solo [OF run act due] show ?thesis .
qed

lemma firmware_run_solo:
  assumes "\<And>f. no_destroy (hs f)"
  shows "fw_run hs i oprs s = Inr s1 \<Longrightarrow> solo hs i (Acts (map ByFirmware oprs @ as) # rest, s) (Acts as # rest, s1)"
proof (induction oprs arbitrary: s)
  case Nil
  then show ?case
    by (simp add: fw_run_def solo_done)
next
  case (Cons opr oprs)
  then obtain s2 where "fw_step hs i opr s = Inr s2" and "fw_run hs i oprs s2 = Inr s1"
    by (auto simp: fw_run_def split: sum.splits)
  from firmware_solo [of hs, OF assms this(1), of "map ByFirmware oprs @ as" rest] Cons.IH [OF this(2)] show ?case
    by (auto intro: solo_trans)
qed

section \<open>The thread alone\<close>

text \<open>
  Alone, the firmware's thread does what the step functions of the interface say. When the
  sequential model \<open>fw_run\<close>, in which a callback runs to its end inside the call that causes it,
  completes a list of operations, then a thread that has them to do, taking enough turns with
  nobody in between, ends in the same state of the process with these operations done.
\<close>

lemma firmware_alone_runs_as_specified:
  assumes "\<And>f. no_destroy (hs f)" and "fw_run hs i oprs (process c) = Inr s1"
    and "tasks c t = Acts (map ByFirmware oprs @ as) # rest"
  shows "\<exists>n. turns hs i (replicate n t) c = Some \<lparr>process = s1, tasks = (tasks c)(t := Acts as # rest)\<rparr>"
proof -
  have "(Acts (map ByFirmware oprs @ as) # rest, process c) = (tasks c t, process c)"
    using assms(3) by simp
  from solo_turns [OF firmware_run_solo [of hs, OF assms(1,2), of as rest] this] show ?thesis
    by simp
qed

end
