(* ===== verification/HostEvents.thy ===== *)
theory HostEvents
  imports CallbackAlone
begin

unbundle bit_operations_syntax

text \<open>
  What the host hears of the firmware. A specification by itself, in plain arithmetic over the
  operations, says which functions of the host an operation of the firmware calls and with which
  arguments; the firmware's thread of \<open>CallbackThreads\<close> is shown to make exactly these calls, whatever
  other threads of the host do meanwhile.
\<close>

section \<open>What the host should hear\<close>

text \<open>The line settings and the pins, as last applied by the firmware.\<close>

type_synonym desk = "(u64 \<times> u32) \<times> (int \<rightharpoonup> int)"

definition desk_of :: "host \<Rightarrow> desk" where
  "desk_of s = ((g_line_baud (hal_serial s), g_line_config (hal_serial s)), g_value (hal_pins s))"

text \<open>
  A word of settings in numbers: bits 0 and 1 the parity, 2 and 3 the data bits less five, 4 and 5
  the stop bits. The rate is an \<open>int\<close>.
\<close>

definition line_event :: "u64 \<times> u32 \<Rightarrow> fn_ptr \<Rightarrow> nat \<Rightarrow> host_event" where
  "line_event line f ctx =
     (let baud = uint (fst line); word = uint (snd line) in
      LineConfig f ctx ((baud + 2 ^ 31) mod 2 ^ 32 - 2 ^ 31)
        (5 + word div 4 mod 4)
        (if word mod 4 = 3 then 1 else if word mod 4 = 2 then 2 else 0)
        (if word div 16 mod 4 = 3 then 20 else if word div 16 mod 4 = 2 then 15 else 10))"

primrec line_after :: "begin_call \<Rightarrow> u64 \<times> u32 \<Rightarrow> u64 \<times> u32" where
  "line_after (BeginBaud baud) line = (baud, snd line)"
| "line_after (BeginConfig baud config) line = (baud, config)"
| "line_after (BeginPins baud config rx tx) line = (baud, config)"

definition tell :: "bool \<Rightarrow> fn_ptr option \<Rightarrow> (fn_ptr \<Rightarrow> host_event) \<Rightarrow> host_event list" where
  "tell news to event = (case to of None \<Rightarrow> [] | Some f \<Rightarrow> if news then [event f] else [])"

primrec heard :: "zimodem_instance \<Rightarrow> fw_op \<Rightarrow> desk \<Rightarrow> host_event list \<times> desk" where
  "heard inst (FwWrite bs) d =
     (tell (bs \<noteq> []) (on_serial_out inst) (\<lambda>f. SerialOut f (user_context inst)), d)"
| "heard inst FwRead d = ([], d)"
| "heard inst (FwDigitalWrite pin val) d =
     (tell (snd d (uint pin) \<noteq> Some (uint val)) (on_signal inst)
        (\<lambda>f. Signal f (user_context inst) (uint pin) (uint val)),
      (fst d, (snd d)(uint pin \<mapsto> uint val)))"
| "heard inst (FwBegin b) d =
     (tell (line_after b (fst d) \<noteq> fst d) (on_line_config inst)
        (\<lambda>f. line_event (line_after b (fst d)) f (user_context inst)),
      (line_after b (fst d), snd d))"
| "heard inst (FwDebugPrintf formatted) d =
     (case formatted of
        None \<Rightarrow> []
      | Some text \<Rightarrow>
          tell (length text < 2 ^ 31) (on_log inst)
            (\<lambda>f. LogLine f (user_context inst) (takeWhile (\<lambda>c. c \<noteq> CHR 0x00) text)), d)"

primrec heard_all :: "zimodem_instance \<Rightarrow> fw_op list \<Rightarrow> desk \<Rightarrow> host_event list \<times> desk" where
  "heard_all inst [] d = ([], d)"
| "heard_all inst (opr # oprs) d =
     (let (es, d1) = heard inst opr d; (es1, d2) = heard_all inst oprs d1 in (es @ es1, d2))"

section \<open>The settings in numbers\<close>

lemma and_field: "(x :: int) AND push_bit n (mask m) = 2 ^ n * (x div 2 ^ n mod 2 ^ m)"
proof -
  have "x AND push_bit n (mask m) = push_bit n (take_bit m (drop_bit n x))"
    by (rule bit_eqI) (auto simp: bit_simps)
  then show ?thesis
    by (simp add: push_bit_eq_mult take_bit_eq_mod drop_bit_eq_div)
qed

lemma uint_fields:
  "uint (config AND kParityMask) = uint config mod 4"
  "uint (config AND kDataBitsMask) = 4 * (uint config div 4 mod 4)"
  "uint (config AND kStopMask) = 16 * (uint config div 16 mod 4)"
proof -
  have masks: "uint kParityMask = push_bit 0 (mask 2)" "uint kDataBitsMask = push_bit 2 (mask 2)"
    "uint kStopMask = push_bit 4 (mask 2)"
    by (simp_all add: kParityMask_def kDataBitsMask_def kStopMask_def mask_eq_exp_minus_1)
  show "uint (config AND kParityMask) = uint config mod 4"
    "uint (config AND kDataBitsMask) = 4 * (uint config div 4 mod 4)"
    "uint (config AND kStopMask) = 16 * (uint config div 16 mod 4)"
    unfolding unsigned_and_eq masks and_field by simp_all
qed

lemma decoded_fields:
  "decode_data_bits config = 5 + uint config div 4 mod 4"
  "decode_parity config = (if uint config mod 4 = 3 then 1 else if uint config mod 4 = 2 then 2 else 0)"
  "decode_stop_bits_x10 config = (if uint config div 16 mod 4 = 3 then 20 else if uint config div 16 mod 4 = 2 then 15 else 10)"
proof -
  have "uint (drop_bit 2 (config AND kDataBitsMask)) = uint config div 4 mod 4"
    by (simp add: drop_bit_eq_div uint_div_distrib uint_fields)
  moreover have "sint (drop_bit 2 (config AND kDataBitsMask)) = uint (drop_bit 2 (config AND kDataBitsMask))"
    using masked_data_code [of config] by (auto simp: kDataBitsMask_def dest!: data_code_cases)
  ultimately show "decode_data_bits config = 5 + uint config div 4 mod 4"
    by (simp add: decode_data_bits_def)
  have eq: "(a = b) = (uint a = uint b)" for a b :: u32
    by (simp add: word_uint_eq_iff)
  show "decode_parity config = (if uint config mod 4 = 3 then 1 else if uint config mod 4 = 2 then 2 else 0)"
    unfolding decode_parity_def Let_def eq uint_fields
    by (simp add: kParityOdd_def kParityEven_def ZIMODEM_PARITY_ODD_def ZIMODEM_PARITY_EVEN_def ZIMODEM_PARITY_NONE_def)
  show "decode_stop_bits_x10 config = (if uint config div 16 mod 4 = 3 then 20 else if uint config div 16 mod 4 = 2 then 15 else 10)"
    unfolding decode_stop_bits_x10_def Let_def eq uint_fields
    by (simp add: kStop2_def kStop15_def)
qed

lemma line_event_decoded:
  "line_event (baud, config) f ctx = LineConfig f ctx (int_of_ulong baud)
     (decode_data_bits config) (decode_parity config) (decode_stop_bits_x10 config)"
  by (simp add: line_event_def Let_def decoded_fields int_of_ulong_signed)

section \<open>What a thread still owes\<close>

text \<open>
  The events that the tasks of a thread will still produce, and the settings and pins it will leave:
  of a callback that is due, of a line-settings function that is copied and not yet called, of the
  operations to come.
\<close>

definition due_events :: "zimodem_instance \<Rightarrow> due \<Rightarrow> host_event list" where
  "due_events inst d =
     (case d of
        DueSerial c \<Rightarrow>
          (case c of
             DataReadyCall j \<Rightarrow> tell True (on_serial_out inst) (\<lambda>f. SerialOut f (user_context inst))
           | LineConfigCall j baud config \<Rightarrow>
               tell True (on_line_config inst) (\<lambda>f. line_event (baud, config) f (user_context inst)))
      | DueSignal c \<Rightarrow>
          (case c of SignalCall j pin val \<Rightarrow> tell True (on_signal inst) (\<lambda>f. Signal f (user_context inst) pin val))
      | DueLog c \<Rightarrow>
          (case c of LogCall j message \<Rightarrow> tell True (on_log inst) (\<lambda>f. LogLine f (user_context inst) (c_view message))))"

primrec act_owes :: "zimodem_instance \<Rightarrow> act \<Rightarrow> desk \<Rightarrow> host_event list \<times> desk" where
  "act_owes inst (ByHost c) d = ([], d)"
| "act_owes inst (ByFirmware opr) d = heard inst opr d"

primrec acts_owe :: "zimodem_instance \<Rightarrow> act list \<Rightarrow> desk \<Rightarrow> host_event list \<times> desk" where
  "acts_owe inst [] d = ([], d)"
| "acts_owe inst (a # as) d =
     (let (es, d1) = act_owes inst a d; (es1, d2) = acts_owe inst as d1 in (es @ es1, d2))"

primrec task_owes :: "zimodem_instance \<Rightarrow> task \<Rightarrow> desk \<Rightarrow> host_event list \<times> desk" where
  "task_owes inst (Acts as) d = acts_owe inst as d"
| "task_owes inst (Dues ds) d = (concat (map (due_events inst) ds), d)"
| "task_owes inst (Running k j f ctx) d = ([], d)"
| "task_owes inst (Copied f event) d = ([event], d)"

primrec tasks_owe :: "zimodem_instance \<Rightarrow> task list \<Rightarrow> desk \<Rightarrow> host_event list \<times> desk" where
  "tasks_owe inst [] d = ([], d)"
| "tasks_owe inst (task # rest) d =
     (let (es, d1) = task_owes inst task d; (es1, d2) = tasks_owe inst rest d1 in (es @ es1, d2))"

lemma tasks_owe_append:
  "tasks_owe inst (xs @ ys) d =
     (fst (tasks_owe inst xs d) @ fst (tasks_owe inst ys (snd (tasks_owe inst xs d))),
      snd (tasks_owe inst ys (snd (tasks_owe inst xs d))))"
  by (induction xs arbitrary: d) (simp_all add: split_def Let_def)

lemma acts_owe_firmware: "acts_owe inst (map ByFirmware oprs) d = heard_all inst oprs d"
  by (induction oprs arbitrary: d) (simp_all add: split_def Let_def)

lemma acts_owe_host: "acts_owe inst (map ByHost cs) d = ([], d)"
  by (induction cs) (simp_all add: Let_def)

section \<open>The instance that is attached\<close>

text \<open>The callbacks of the HAL are those of \<open>h\<close>, whose functions and context are those of \<open>inst\<close>.\<close>

definition face :: "zimodem_instance \<Rightarrow> (event_kind \<Rightarrow> fn_ptr option) \<times> fn_ptr option \<times> nat" where
  "face inst = ((\<lambda>k. registered k inst), on_line_config inst, user_context inst)"

definition wired :: "inst_ptr \<Rightarrow> host \<Rightarrow> bool" where
  "wired h s \<longleftrightarrow>
     g_data_ready_callback (hal_serial s) = Some h \<and> g_line_config_callback (hal_serial s) = Some h
     \<and> g_callback (hal_pins s) = Some h \<and> g_sink (hal_log s) = Some h"

definition hosts :: "inst_ptr \<Rightarrow> zimodem_instance \<Rightarrow> host \<Rightarrow> bool" where
  "hosts h inst s \<longleftrightarrow> wired h s \<and> map_option face (heap s h) = Some (face inst)"

lemma face_updates [simp]:
  "face (i\<lparr>callback_mutex_held := b\<rparr>) = face i"
  "face (i\<lparr>started := b, running := b', worker_joinable := b''\<rparr>) = face i"
proof -
  have "registered k (i\<lparr>callback_mutex_held := b\<rparr>) = registered k i" for k
    by (cases k) simp_all
  then show "face (i\<lparr>callback_mutex_held := b\<rparr>) = face i"
    by (simp add: face_def)
  have "registered k (i\<lparr>started := b, running := b', worker_joinable := b''\<rparr>) = registered k i" for k
    by (cases k) simp_all
  then show "face (i\<lparr>started := b, running := b', worker_joinable := b''\<rparr>) = face i"
    by (simp add: face_def)
qed

lemma face_functions:
  assumes "face i = face inst"
  shows "on_serial_out i = on_serial_out inst" "on_signal i = on_signal inst" "on_log i = on_log inst"
    "on_line_config i = on_line_config inst" "user_context i = user_context inst"
  using assms fun_cong [of "\<lambda>k. registered k i" "\<lambda>k. registered k inst" KSerialOut]
    fun_cong [of "\<lambda>k. registered k i" "\<lambda>k. registered k inst" KSignal]
    fun_cong [of "\<lambda>k. registered k i" "\<lambda>k. registered k inst" KLog]
  by (simp_all add: face_def)

text \<open>Functions that read and write serial data, ask for the line settings or start the instance.\<close>

definition quiet :: "handlers \<Rightarrow> bool" where
  "quiet hs \<longleftrightarrow> (\<forall>f. list_all safe_under_mutex (hs f))"

primrec quiet_act :: "act \<Rightarrow> bool" where
  "quiet_act (ByHost c) \<longleftrightarrow> safe_under_mutex c"
| "quiet_act (ByFirmware opr) \<longleftrightarrow> True"

primrec quiet_task :: "inst_ptr \<Rightarrow> task \<Rightarrow> bool" where
  "quiet_task h (Acts as) \<longleftrightarrow> list_all quiet_act as"
| "quiet_task h (Dues ds) \<longleftrightarrow> list_all (due_of h) ds"
| "quiet_task h (Running k j f ctx) \<longleftrightarrow> True"
| "quiet_task h (Copied f event) \<longleftrightarrow> True"

lemma quiet_handler: "quiet hs \<Longrightarrow> list_all quiet_act (map ByHost (hs f))"
  by (simp add: quiet_def list_all_iff)

section \<open>The steps of a thread\<close>

lemma queue_lines:
  "g_line_baud (snd (SerialPort.rx_read sp)) = g_line_baud sp"
  "g_line_config (snd (SerialPort.rx_read sp)) = g_line_config sp"
  "g_line_baud (snd (serial_read sp)) = g_line_baud sp"
  "g_line_config (snd (serial_read sp)) = g_line_config sp"
  "g_line_baud (feed_input bs sp) = g_line_baud sp"
  "g_line_config (feed_input bs sp) = g_line_config sp"
  by (simp_all add: serial_read_def rx_read_def feed_input_def split: list.split)

lemma host_act_unheard:
  assumes "act_step h (ByHost c) s = Some (dues, s1)" and "safe_under_mutex c" and "hosts h inst s"
  shows "dues = [] \<and> events s1 = events s \<and> desk_of s1 = desk_of s \<and> hosts h inst s1"
  using assms
  by (cases c)
    (auto simp: act_step_def safe_under_mutex_def zimodem_host_write_serial_def zimodem_host_rx_read_def
      zimodem_host_start_def hosts_def wired_def desk_of_def split_def Let_def queue_lines queue_slots
      split: option.splits if_splits)

lemma tell_False [simp]: "tell False to event = []"
  by (simp add: tell_def split: option.split)

lemma firmware_act_owed:
  assumes run: "act_step h (ByFirmware opr) s = Some (dues, s1)" and hosts: "hosts h inst s"
  shows "events s1 = events s \<and> hosts h inst s1 \<and> list_all (due_of h) dues
    \<and> (concat (map (due_events inst) dues), desk_of s1) = heard inst opr (desk_of s)"
proof -
  have slots: "g_data_ready_callback (hal_serial s) = Some h" "g_line_config_callback (hal_serial s) = Some h"
    "g_callback (hal_pins s) = Some h" "g_sink (hal_log s) = Some h"
    using hosts by (simp_all add: hosts_def wired_def)
  show ?thesis
  proof (cases opr)
    case (FwWrite bs)
    then show ?thesis
      using run hosts
      by (auto simp: act_step_def serial_write_def hosts_def wired_def desk_of_def due_events_def slots Let_def)
  next
    case FwRead
    then show ?thesis
      using run hosts by (auto simp: act_step_def hosts_def wired_def desk_of_def queue_slots queue_lines)
  next
    case (FwDigitalWrite pin val)
    then show ?thesis
      using run hosts
      by (auto simp: act_step_def digitalWrite_def digital_write_def hosts_def wired_def desk_of_def due_events_def
          slots Let_def split: option.splits)
  next
    case (FwBegin b)
    let ?new = "line_after b (fst (desk_of s))"
    have s1: "s1 = s\<lparr>hal_serial := snd (hw_begin b (hal_serial s))\<rparr>"
      and dues: "dues = map DueSerial (fst (hw_begin b (hal_serial s)))"
      using run FwBegin by (auto simp: act_step_def split_def Let_def)
    have "hosts h inst s1"
      using hosts by (simp add: s1 hosts_def wired_def hw_begin_slots)
    moreover have "desk_of s1 = (?new, snd (desk_of s))"
      by (cases b) (auto simp: s1 desk_of_def set_line_baud_def set_line_config_def)
    moreover have "fst (hw_begin b (hal_serial s)) = (if ?new \<noteq> fst (desk_of s) then [LineConfigCall h (fst ?new) (snd ?new)] else [])"
      by (cases b) (auto simp: desk_of_def set_line_baud_def set_line_config_def slots)
    ultimately show ?thesis
      using FwBegin by (simp add: s1 dues due_events_def)
  next
    case (FwDebugPrintf formatted)
    have s1: "s1 = s" and dues: "dues = map DueLog (zimodem_hal_debug_printf formatted (hal_log s))"
      using run FwDebugPrintf by (auto simp: act_step_def)
    have "zimodem_hal_debug_printf formatted (hal_log s)
        = (case formatted of None \<Rightarrow> [] | Some text \<Rightarrow> if length text < 2 ^ 31 then [LogCall h text] else [])"
      by (simp add: zimodem_hal_debug_printf_def vwritef_def vsnprintf_ret_def vsnprintf_buf_def
          log_write_def slots split: option.split)
    then show ?thesis
      using FwDebugPrintf hosts by (simp add: s1 dues due_events_def c_view_def split: option.split)
  qed
qed

lemma enter_owed:
  assumes run: "lock_and_enter hs k h event s = Some (new, s1)" and quiet: "quiet hs" and hosts: "hosts h inst s"
  shows "hosts h inst s1 \<and> desk_of s1 = desk_of s \<and> list_all (quiet_task h) new
    \<and> events s1 @ fst (tasks_owe inst new (desk_of s)) = events s @ tell True (registered k inst) (\<lambda>f. event f (user_context inst))
    \<and> snd (tasks_owe inst new (desk_of s)) = desk_of s"
proof -
  obtain i where i: "heap s h = Some i" and face: "face i = face inst" and free: "\<not> callback_mutex_held i"
    using run hosts by (auto simp: lock_and_enter_def hosts_def split: option.splits if_splits)
  have fn: "registered k i = registered k inst" and ctx: "user_context i = user_context inst"
    using fun_cong [of "\<lambda>k. registered k i" "\<lambda>k. registered k inst" k] face by (simp_all add: face_def)
  show ?thesis
  proof (cases "registered k inst")
    case None
    with run i free fn hosts show ?thesis
      by (auto simp: lock_and_enter_def tell_def)
  next
    case (Some f)
    with run i free fn have new: "new = [Acts (map ByHost (hs f)), Running k h f (user_context i)]"
      and s1: "s1 = s\<lparr>heap := (heap s)(h \<mapsto> i\<lparr>callback_mutex_held := True\<rparr>), events := events s @ [event f (user_context i)]\<rparr>"
      by (simp_all add: lock_and_enter_def)
    have "hosts h inst s1" "desk_of s1 = desk_of s"
      using hosts face by (simp_all add: s1 hosts_def wired_def desk_of_def)
    then show ?thesis
      using Some quiet_handler [OF quiet, of f] by (simp add: new s1 acts_owe_host tell_def ctx)
  qed
qed

lemma copy_owed:
  assumes run: "lock_and_copy h baud config s = Some (new, s1)" and hosts: "hosts h inst s"
  shows "s1 = s \<and> list_all (quiet_task h) new
    \<and> tasks_owe inst new d = (tell True (on_line_config inst) (\<lambda>f. line_event (baud, config) f (user_context inst)), d)"
proof -
  obtain i where i: "heap s h = Some i" and face: "face i = face inst" and free: "\<not> callback_mutex_held i"
    using run hosts by (auto simp: lock_and_copy_def hosts_def split: option.splits if_splits)
  show ?thesis
    using run i free face_functions [OF face]
    by (cases "on_line_config inst")
      (auto simp: lock_and_copy_def decode_serial_config_def line_event_decoded tell_def)
qed

lemma due_owed:
  assumes run: "due_step hs due s = Some (new, s1)" and quiet: "quiet hs" and hosts: "hosts h inst s" and own: "due_of h due"
  shows "hosts h inst s1 \<and> desk_of s1 = desk_of s \<and> list_all (quiet_task h) new
    \<and> events s1 @ fst (tasks_owe inst new (desk_of s)) = events s @ due_events inst due
    \<and> snd (tasks_owe inst new (desk_of s)) = desk_of s"
proof (cases due)
  case (DueSerial c)
  show ?thesis
  proof (cases c)
    case (DataReadyCall j)
    then show ?thesis
      using DueSerial run own enter_owed [OF _ quiet hosts, of KSerialOut SerialOut new s1]
      by (simp add: due_step_def due_events_def)
  next
    case (LineConfigCall j baud config)
    then show ?thesis
      using DueSerial run own hosts copy_owed [OF _ hosts, of baud config new s1]
      by (simp add: due_step_def due_events_def)
  qed
next
  case (DueSignal c)
  then show ?thesis
    using run own enter_owed [OF _ quiet hosts, of KSignal _ new s1]
    by (cases c) (simp add: due_step_def due_events_def)
next
  case (DueLog c)
  then show ?thesis
    using run own enter_owed [OF _ quiet hosts, of KLog _ new s1]
    by (cases c) (simp add: due_step_def due_events_def)
qed

lemma released_hosts:
  "hosts h inst s \<Longrightarrow> hosts h inst (release_mutex j s) \<and> desk_of (release_mutex j s) = desk_of s
     \<and> events (release_mutex j s) = events s"
  by (auto simp: release_mutex_def hosts_def wired_def desk_of_def split: option.split)

text \<open>A step pays exactly what it owes: what was heard and what is owed are together the same.\<close>

lemma task_owed:
  assumes run: "task_step hs h task s = Some (new, s1)" and quiet: "quiet hs" and hosts: "hosts h inst s"
    and task: "quiet_task h task"
  shows "hosts h inst s1 \<and> list_all (quiet_task h) new
    \<and> events s1 @ fst (tasks_owe inst new (desk_of s1)) = events s @ fst (task_owes inst task (desk_of s))
    \<and> snd (tasks_owe inst new (desk_of s1)) = snd (task_owes inst task (desk_of s))"
proof (cases task)
  case (Acts as)
  show ?thesis
  proof (cases as)
    case Nil
    with Acts run hosts show ?thesis
      by (simp add: task_step_def)
  next
    case (Cons a rest)
    obtain dues where act: "act_step h a s = Some (dues, s1)" and new: "new = (if dues = [] then [] else [Dues dues]) @ [Acts rest]"
      using Acts Cons run by (auto simp: task_step_def)
    show ?thesis
    proof (cases a)
      case (ByHost c)
      with Acts Cons act task host_act_unheard [OF _ _ hosts, of c dues s1] new show ?thesis
        by (simp add: split_def Let_def)
    next
      case (ByFirmware opr)
      with firmware_act_owed [OF _ hosts, of opr dues s1] act
      have "events s1 = events s" "hosts h inst s1" "list_all (due_of h) dues"
        "heard inst opr (desk_of s) = (concat (map (due_events inst) dues), desk_of s1)"
        by simp_all
      with Acts Cons ByFirmware task new show ?thesis
        by (simp add: split_def Let_def)
    qed
  qed
next
  case (Dues ds)
  show ?thesis
  proof (cases ds)
    case Nil
    with Dues run hosts show ?thesis
      by (simp add: task_step_def)
  next
    case (Cons due rest)
    obtain mine where due: "due_step hs due s = Some (mine, s1)" and new: "new = mine @ [Dues rest]"
      using Dues Cons run by (auto simp: task_step_def)
    with due_owed [OF due quiet hosts] Dues Cons task show ?thesis
      by (simp add: tasks_owe_append split_def Let_def flip: append_assoc)
  qed
next
  case (Running k j f ctx)
  with run released_hosts [OF hosts, of j] show ?thesis
    by (auto simp: task_step_def)
next
  case (Copied f event)
  with run hosts quiet_handler [OF quiet, of f] show ?thesis
    by (auto simp: task_step_def hosts_def wired_def desk_of_def acts_owe_host Let_def)
qed

section \<open>All threads\<close>

text \<open>Threads other than \<open>t\<close> make calls that start no function of the host.\<close>

primrec host_act :: "act \<Rightarrow> bool" where
  "host_act (ByHost c) \<longleftrightarrow> safe_under_mutex c"
| "host_act (ByFirmware opr) \<longleftrightarrow> False"

primrec host_task :: "task \<Rightarrow> bool" where
  "host_task (Acts as) \<longleftrightarrow> list_all host_act as"
| "host_task (Dues ds) \<longleftrightarrow> False"
| "host_task (Running k j f ctx) \<longleftrightarrow> False"
| "host_task (Copied f event) \<longleftrightarrow> False"

definition one_speaker :: "inst_ptr \<Rightarrow> zimodem_instance \<Rightarrow> nat \<Rightarrow> conc \<Rightarrow> bool" where
  "one_speaker h inst t c \<longleftrightarrow>
     hosts h inst (process c) \<and> list_all (quiet_task h) (tasks c t) \<and> (\<forall>u. u \<noteq> t \<longrightarrow> list_all host_task (tasks c u))"

definition account :: "zimodem_instance \<Rightarrow> nat \<Rightarrow> conc \<Rightarrow> host_event list \<times> desk" where
  "account inst t c =
     (let (owed, d) = tasks_owe inst (tasks c t) (desk_of (process c)) in (events (process c) @ owed, d))"

lemma host_task_unheard:
  assumes "task_step hs h task s = Some (new, s1)" and "host_task task" and "hosts h inst s"
  shows "events s1 = events s \<and> desk_of s1 = desk_of s \<and> hosts h inst s1 \<and> list_all host_task new"
proof (cases task)
  case (Acts as)
  show ?thesis
  proof (cases as)
    case Nil
    with Acts assms show ?thesis
      by (simp add: task_step_def)
  next
    case (Cons a rest)
    then obtain c where a: "a = ByHost c" "safe_under_mutex c"
      using Acts assms(2) by (cases a) auto
    obtain dues where act: "act_step h a s = Some (dues, s1)" and new: "new = (if dues = [] then [] else [Dues dues]) @ [Acts rest]"
      using Acts Cons assms(1) by (auto simp: task_step_def)
    show ?thesis
      using host_act_unheard [OF act [unfolded a(1)] a(2) assms(3)] Acts Cons assms(2) new by simp
  qed
qed (use assms(2) in simp_all)

lemma account_kept:
  assumes step: "advance hs h u c = Some d" and quiet: "quiet hs" and inv: "one_speaker h inst t c"
  shows "one_speaker h inst t d \<and> account inst t d = account inst t c"
proof -
  obtain task rest new s1 where u: "tasks c u = task # rest" and task: "task_step hs h task (process c) = Some (new, s1)"
    and d: "d = \<lparr>process = s1, tasks = (tasks c)(u := new @ rest)\<rparr>"
    using step by (rule advance_cases)
  have hosts: "hosts h inst (process c)"
    using inv by (simp add: one_speaker_def)
  show ?thesis
  proof (cases "u = t")
    case True
    then have "quiet_task h task" "list_all (quiet_task h) rest"
      using inv u by (auto simp: one_speaker_def)
    with task_owed [OF task quiet hosts] True u inv show ?thesis
      by (simp add: d one_speaker_def account_def tasks_owe_append split_def Let_def flip: append_assoc)
  next
    case False
    then have "host_task task" "list_all host_task rest"
      using inv u by (auto simp: one_speaker_def dest!: spec [of _ u])
    with host_task_unheard [OF task _ hosts] False inv show ?thesis
      by (auto simp: d one_speaker_def account_def)
  qed
qed

lemma reachable_account:
  assumes "quiet hs" and "one_speaker h inst t c0"
  shows "conc_reachable hs h c0 c \<Longrightarrow> one_speaker h inst t c \<and> account inst t c = account inst t c0"
proof (induction rule: conc_reachable.induct)
  case conc_init
  then show ?case
    using assms(2) by simp
next
  case (conc_step c u d)
  then show ?case
    using account_kept [OF _ assms(1)] by metis
qed

section \<open>Property\<close>

text \<open>
  C11: the host hears exactly what the firmware does. Let the firmware's thread have a list of
  operations to do on an instance whose callbacks are registered, and let the functions registered
  with it, and any number of other threads of the host, only write and read serial data, ask for
  the line settings or call \<open>start\<close>. However the threads interleave, what the host has heard at any
  moment is the beginning of what the specification says, in that order: \<open>on_serial_out\<close> once for
  each write that is not empty, \<open>on_signal\<close> with pin and value for each write that changes a pin,
  \<open>on_line_config\<close> with rate, data bits, parity and stop bits for each \<open>begin\<close> that changes the
  settings, \<open>on_log\<close> with the text, up to its first NUL, for each line; each with the context
  registered, and none for a function that is not registered. When the thread is done the host has
  heard all of it, and the settings and pins are those of the last changes.
\<close>

theorem host_hears_the_firmware:
  assumes "quiet hs" and "wired h s" and "heap s h = Some inst"
    and "progs t = map ByFirmware oprs" and "\<forall>u. u \<noteq> t \<longrightarrow> list_all host_act (progs u)"
    and "conc_reachable hs h (conc_start s progs) c"
  shows "\<exists>rest. events (process c) @ rest = events s @ fst (heard_all inst oprs (desk_of s))
    \<and> (tasks c t = [] \<longrightarrow> rest = [] \<and> desk_of (process c) = snd (heard_all inst oprs (desk_of s)))"
proof -
  have "one_speaker h inst t (conc_start s progs)"
    using assms(2-5) by (simp add: one_speaker_def conc_start_def hosts_def list_all_iff)
  from reachable_account [OF assms(1) this assms(6)]
  have "account inst t c = account inst t (conc_start s progs)"
    by simp
  then show ?thesis
    using assms(4)
    by (auto simp: account_def conc_start_def acts_owe_firmware split_def Let_def)
qed

text \<open>
  The host queues a byte; the firmware writes, sets the rate, drives a pin twice and logs a line; the
  function for serial data reads and writes.
\<close>

definition scripted :: "fw_op list" where
  "scripted =
     [FwWrite [79], FwWrite [], FwBegin (BeginConfig 115200 SERIAL_8N1), FwDigitalWrite 6 1, FwDigitalWrite 6 1,
      FwDebugPrintf (Some ''on'')]"

definition script_threads :: "nat \<Rightarrow> act list" where
  "script_threads u = (if u = 0 then map ByFirmware scripted else if u = 1 then [ByHost (CallWriteSerial [65])] else [])"

definition script_handlers :: handlers where
  "script_handlers f = (if f = 10 then [CallRxAvailable, CallRxRead, CallWriteSerial [66]] else [])"

lemma script_runs:
  "\<exists>n c. turns script_handlers 1 (1 # replicate n 0 @ [0]) (conc_start sample_host script_threads) = Some c
     \<and> tasks c 0 = []"
proof -
  let ?s = "snd (zimodem_host_write_serial (Some 1) [65] sample_host)"
  let ?c = "\<lparr>process = ?s, tasks = (tasks (conc_start sample_host script_threads))(1 := [Acts []])\<rparr>"
  have one: "advance script_handlers 1 1 (conc_start sample_host script_threads) = Some ?c"
    by (simp add: advance_def conc_start_def script_threads_def task_step_def act_step_def)
  have "live_with False script_handlers 1 sample_host"
    by (simp add: live_with_def sample_host_def script_handlers_def handlers_ok_def attached_to_def
        safe_under_mutex_def safe_in_line_config_def new_instance_def set_sink_def
        set_signal_callback_def set_line_config_callback_def set_data_ready_callback_def)
  then have "live_with False script_handlers 1 ?s"
    by (simp add: zimodem_host_write_serial_def live_with_serial)
  then obtain s1 where "fw_run script_handlers 1 scripted (process ?c) = Inr s1"
    using safe_handlers_run by fastforce
  moreover have "no_destroy (script_handlers f)" for f
    by (simp add: no_destroy_def script_handlers_def)
  moreover have "tasks ?c 0 = Acts (map ByFirmware scripted @ []) # []"
    by (simp add: conc_start_def script_threads_def)
  ultimately obtain n where "turns script_handlers 1 (replicate n 0) ?c
      = Some \<lparr>process = s1, tasks = (tasks ?c)(0 := [Acts []])\<rparr>"
    using firmware_alone_runs_as_specified by blast
  moreover have "turns hs h (ts @ [t]) c = (case turns hs h ts c of None \<Rightarrow> None | Some d \<Rightarrow> advance hs h t d)"
    for hs h ts t c
    by (induction ts arbitrary: c) (auto split: option.split)
  ultimately have "\<exists>c. turns script_handlers 1 (replicate n 0 @ [0]) ?c = Some c \<and> tasks c 0 = []"
    by (simp add: advance_def task_step_def)
  with one show ?thesis
    by auto
qed

theorem host_hears_the_firmware_witness:
  "\<exists>n c. turns script_handlers 1 (1 # replicate n 0 @ [0]) (conc_start sample_host script_threads) = Some c
     \<and> tasks c 0 = []
     \<and> events (process c) = [SerialOut 10 99, LineConfig 13 99 115200 8 0 10, Signal 11 99 6 1, LogLine 12 99 ''on'']"
proof -
  obtain n c where run: "turns script_handlers 1 (1 # replicate n 0 @ [0]) (conc_start sample_host script_threads) = Some c"
    and gone: "tasks c 0 = []"
    using script_runs by blast
  have reach: "conc_reachable script_handlers 1 (conc_start sample_host script_threads) c"
    by (rule turns_reach [OF run])
  let ?inst = "new_instance\<lparr>on_serial_out := Some 10, on_signal := Some 11, on_log := Some 12,
      on_line_config := Some 13, user_context := 99\<rparr>"
  have "quiet script_handlers"
    by (simp add: quiet_def script_handlers_def safe_under_mutex_def)
  moreover have "wired 1 sample_host" "heap sample_host 1 = Some ?inst"
    by (simp_all add: wired_def sample_host_def set_line_config_callback_def set_data_ready_callback_def
        set_signal_callback_def set_sink_def)
  moreover have "script_threads 0 = map ByFirmware scripted" "\<forall>u. u \<noteq> 0 \<longrightarrow> list_all host_act (script_threads u)"
    by (simp_all add: script_threads_def safe_under_mutex_def)
  ultimately have "events (process c) = events sample_host @ fst (heard_all ?inst scripted (desk_of sample_host))"
    using host_hears_the_firmware [OF _ _ _ _ _ reach, of ?inst 0 scripted] gone by auto
  moreover have "events sample_host = []"
    "fst (heard_all ?inst scripted (desk_of sample_host))
      = [SerialOut 10 99, LineConfig 13 99 115200 8 0 10, Signal 11 99 6 1, LogLine 12 99 ''on'']"
    by (simp_all add: sample_host_def host_init_def scripted_def tell_def line_event_def SERIAL_8N1_def desk_of_def
        set_line_config_callback_def set_data_ready_callback_def set_signal_callback_def serial_init_def pins_init_def)
  ultimately show ?thesis
    using run gone by auto
qed

end
