(* ===== verification/CallbackEnd.thy ===== *)
theory CallbackEnd
  imports CallbackThreads
begin

text \<open>
  The threads of \<open>CallbackThreads\<close> end. Every turn of a thread uses up some of a number that is
  known from the calls the thread has to make and the length of the longest host function.
\<close>

section \<open>How many turns are left\<close>

text \<open>\<open>b\<close> bounds the number of calls a host function makes.\<close>

definition line_cost :: "nat \<Rightarrow> nat" where
  "line_cost b = b * (b + 5) + 3"

definition act_cost :: "nat \<Rightarrow> act \<Rightarrow> nat" where
  "act_cost b a =
     (case a of
        ByFirmware opr \<Rightarrow> line_cost b + 2
      | ByHost c \<Rightarrow> (case c of CallSetPin pin val \<Rightarrow> b + 5 | _ \<Rightarrow> 1))"

definition due_cost :: "nat \<Rightarrow> due \<Rightarrow> nat" where
  "due_cost b d =
     (case d of
        DueSerial c \<Rightarrow> (case c of LineConfigCall i baud config \<Rightarrow> line_cost b | DataReadyCall i \<Rightarrow> b + 3)
      | _ \<Rightarrow> b + 3)"

primrec task_cost :: "handlers \<Rightarrow> nat \<Rightarrow> task \<Rightarrow> nat" where
  "task_cost hs b (Acts as) = sum_list (map (act_cost b) as) + 1"
| "task_cost hs b (Dues ds) = sum_list (map (due_cost b) ds) + 1"
| "task_cost hs b (Running k j f ctx) = 1"
| "task_cost hs b (Copied f event) = sum_list (map (\<lambda>c. act_cost b (ByHost c)) (hs f)) + 2"

definition turns_left :: "handlers \<Rightarrow> nat \<Rightarrow> task list \<Rightarrow> nat" where
  "turns_left hs b st = sum_list (map (task_cost hs b) st)"

lemma turns_left_simps [simp]:
  "turns_left hs b [] = 0"
  "turns_left hs b (task # st) = task_cost hs b task + turns_left hs b st"
  "turns_left hs b (st @ st') = turns_left hs b st + turns_left hs b st'"
  by (simp_all add: turns_left_def)

lemma line_cost_ge: "b + 3 \<le> line_cost b"
  by (cases b) (simp_all add: line_cost_def)

lemma due_cost_le: "due_cost b d \<le> line_cost b"
  using line_cost_ge [of b] by (simp add: due_cost_def split: due.split serial_call.split)

lemma one_due:
  "length dues \<le> 1 \<Longrightarrow> sum_list (map (due_cost b) dues) \<le> line_cost b"
  using due_cost_le by (cases dues) auto

lemma hw_begin_one: "length (fst (hw_begin c sp)) \<le> 1"
  by (cases c) (auto simp: set_line_config_def set_line_baud_def split: option.split)

lemma digital_write_one: "length (fst (digital_write pin val ps)) \<le> 1"
  by (simp add: digital_write_calls split: option.split)

lemma serial_write_one: "length (fst (snd (serial_write bs sp))) \<le> 1"
  by (simp add: serial_write_def Let_def split: option.split)

lemma debug_printf_one: "length (zimodem_hal_debug_printf formatted lg) \<le> 1"
  by (simp add: zimodem_hal_debug_printf_def vwritef_def log_write_def Let_def split: option.split)

lemma signal_costs: "sum_list (map (due_cost b) (map DueSignal calls)) = length calls * (b + 3)"
  by (induction calls) (simp_all add: due_cost_def)

text \<open>One call costs more than the callbacks it makes due.\<close>

lemma act_step_cost:
  assumes "act_step i a s = Some (dues, s1)"
  shows "(if dues = [] then 0 else sum_list (map (due_cost b) dues) + 1) < act_cost b a"
proof (cases a)
  case (ByFirmware opr)
  have "length dues \<le> 1"
    using assms ByFirmware hw_begin_one digital_write_one serial_write_one debug_printf_one
    by (cases opr) (auto simp: act_step_def digitalWrite_def split_def Let_def)
  from one_due [OF this, of b] show ?thesis
    using ByFirmware by (simp add: act_cost_def)
next
  case (ByHost c)
  show ?thesis
  proof (cases c)
    case (CallSetPin pin val)
    have dues: "dues = map DueSignal (fst (digital_write pin val (hal_pins s)))"
      using assms ByHost CallSetPin by (auto simp: act_step_def split_def Let_def)
    have "length (fst (digital_write pin val (hal_pins s))) = 0 \<or> length (fst (digital_write pin val (hal_pins s))) = 1"
      using digital_write_one [of pin val "hal_pins s"] by linarith
    then show ?thesis
      unfolding dues signal_costs using ByHost CallSetPin by (elim disjE) (simp_all add: act_cost_def)
  qed (use assms ByHost in \<open>auto simp: act_step_def act_cost_def split: sum.splits prod.splits\<close>)
qed

lemma quick_costs: "list_all safe_under_mutex cs \<Longrightarrow> sum_list (map (act_cost b) (map ByHost cs)) = length cs"
  by (induction cs) (auto simp: act_cost_def safe_under_mutex_def split: host_call.splits)

lemma host_costs: "sum_list (map (\<lambda>c. act_cost b (ByHost c)) cs) \<le> length cs * (b + 5)"
  by (induction cs) (auto simp: act_cost_def split: host_call.splits)

lemma due_step_cost:
  assumes "due_step hs d s = Some (new, s1)" and "due_of i d" and "pred_option (handlers_ok hs) (heap s i)"
    and "\<And>f. length (hs f) \<le> b"
  shows "turns_left hs b new < due_cost b d"
  using assms(1,2)
proof (rule due_step_cases)
  assume "new = []"
  then show ?thesis
    by (simp add: due_cost_def line_cost_def split: due.split serial_call.split)
next
  fix f event
  assume new: "new = [Copied f event]"
  have "sum_list (map (\<lambda>c. act_cost b (ByHost c)) (hs f)) \<le> b * (b + 5)"
    using host_costs [of b "hs f"] mult_le_mono1 [OF assms(4), of f "b + 5"] by (rule le_trans)
  then have "turns_left hs b new < line_cost b"
    by (simp add: new line_cost_def)
  moreover have "due_cost b d = line_cost b"
    using assms(1) new by (auto simp: due_step_def due_cost_def lock_and_enter_def
        split: due.splits serial_call.splits signal_call.splits log_call.splits option.splits if_splits)
  ultimately show ?thesis by simp
next
  fix k inst f
  assume inst: "heap s i = Some inst" "registered k inst = Some f"
    and new: "new = [Acts (map ByHost (hs f)), Running k i f (user_context inst)]"
  have "list_all safe_under_mutex (hs f)"
    using assms(3) inst by (cases k) (auto simp: handlers_ok_def)
  then have "turns_left hs b new = length (hs f) + 2"
    using quick_costs [of "hs f" b] by (simp add: new)
  moreover have "b + 3 \<le> due_cost b d"
    using line_cost_ge [of b] by (simp add: due_cost_def split: due.split serial_call.split)
  ultimately show ?thesis
    using assms(4) [of f] by simp
qed

lemma task_step_cost:
  assumes "task_step hs i task s = Some (new, s1)" and "task_of i task" and "pred_option (handlers_ok hs) (heap s i)"
    and "\<And>f. length (hs f) \<le> b"
  shows "turns_left hs b new < task_cost hs b task"
proof (cases task)
  case (Acts as)
  show ?thesis
  proof (cases as)
    case Nil
    then show ?thesis
      using assms(1) Acts by (simp add: task_step_def)
  next
    case (Cons a rest)
    then obtain dues where step: "act_step i a s = Some (dues, s1)"
      and new: "new = (if dues = [] then [] else [Dues dues]) @ [Acts rest]"
      using assms(1) Acts by (auto simp: task_step_def)
    from act_step_cost [OF step, of b] show ?thesis
      using Acts Cons new by (auto split: if_splits)
  qed
next
  case (Dues ds)
  show ?thesis
  proof (cases ds)
    case Nil
    then show ?thesis
      using assms(1) Dues by (simp add: task_step_def)
  next
    case (Cons d rest)
    then obtain added where "due_step hs d s = Some (added, s1)" and "new = added @ [Dues rest]"
      using assms(1) Dues by (auto simp: task_step_def)
    with due_step_cost [of hs d s added s1 i b] assms(2-4) show ?thesis
      using Dues Cons by simp
  qed
next
  case (Running k j f ctx)
  then show ?thesis
    using assms(1) by (auto simp: task_step_def)
next
  case (Copied f event)
  then show ?thesis
    using assms(1) by (auto simp: task_step_def comp_def)
qed

lemma advance_cost:
  assumes "advance hs i t c = Some d" and ok: "mutex_ok i c" and "rules_kept hs i c"
    and "\<And>f. length (hs f) \<le> b"
  shows "turns_left hs b (tasks d t) < turns_left hs b (tasks c t) \<and> (\<forall>u. u \<noteq> t \<longrightarrow> tasks d u = tasks c u)"
  using assms(1)
proof (rule advance_cases)
  fix task rest new s1
  assume top: "tasks c t = task # rest" and one: "task_step hs i task (process c) = Some (new, s1)"
    and d: "d = \<lparr>process = s1, tasks = (tasks c)(t := new @ rest)\<rparr>"
  have "task_of i task" "pred_option (handlers_ok hs) (heap (process c) i)"
    using mutex_ok_tasks [OF ok top] assms(3) by (simp_all add: rules_kept_def)
  from task_step_cost [OF one this assms(4)] show ?thesis
    by (simp add: d top)
qed

lemma turns_cost:
  assumes "\<And>f. length (hs f) \<le> b"
  shows "turns hs i ts c = Some d \<Longrightarrow> mutex_ok i c \<Longrightarrow> rules_kept hs i c \<Longrightarrow>
     count_list ts t + turns_left hs b (tasks d t) \<le> turns_left hs b (tasks c t)"
proof (induction ts arbitrary: c)
  case Nil
  then show ?case by simp
next
  case (Cons u ts)
  obtain e where one: "advance hs i u c = Some e" and rest: "turns hs i ts e = Some d"
    using Cons.prems(1) by (auto split: option.splits)
  have "count_list ts t + turns_left hs b (tasks d t) \<le> turns_left hs b (tasks e t)"
    using Cons.IH [OF rest] mutex_ok_step [OF one] rules_kept_step [OF one] Cons.prems(2,3) by blast
  with advance_cost [OF one Cons.prems(2,3) assms] show ?case
    by (cases "u = t") auto
qed

section \<open>Properties\<close>

text \<open>
  C7: threads that follow the rules come to their end. Let every host function make at most \<open>b\<close>
  calls. However the threads take turns, thread \<open>t\<close> takes at most \<open>1\<close> turn more than the sum over
  its calls of \<open>b + 5\<close> for driving a pin, \<open>b * (b + 5) + 5\<close> for an operation of the firmware and
  \<open>1\<close> for any other; and where no thread can take a turn any more, every thread is done, with all
  its calls made and all their callbacks returned.
\<close>

theorem callback_threads_end:
  assumes "turns hs i ts (conc_start s progs) = Some d" and "attached_to i s"
    and "heap s i = Some inst" and "\<not> callback_mutex_held inst" and "handlers_ok hs inst"
    and "\<And>u. list_all (safe_act hs) (progs u)" and "\<And>f. length (hs f) \<le> b"
  shows "count_list ts t \<le> sum_list (map (act_cost b) (progs t)) + 1
    \<and> ((\<forall>u. advance hs i u d = None) \<longrightarrow> (\<forall>u. tasks d u = []))"
proof -
  have ok: "mutex_ok i (conc_start s progs)"
    using mutex_ok_start [OF assms(2-4)] .
  have kept: "rules_kept hs i (conc_start s progs)"
    using rules_kept_start [OF assms(3,5,6)] .
  have "count_list ts t \<le> turns_left hs b (tasks (conc_start s progs) t)"
    using turns_cost [OF assms(7,1) ok kept, of t] by simp
  moreover have "mutex_ok i d" "rules_kept hs i d"
    using mutex_ok_reachable [OF turns_reach [OF assms(1)] ok] rules_kept_reachable [OF turns_reach [OF assms(1)] ok kept]
    by simp_all
  then have "(\<forall>u. advance hs i u d = None) \<longrightarrow> (\<forall>u. tasks d u = [])"
    using somebody_advances [of i d hs] by (metis option.distinct(1))
  ultimately show ?thesis
    by (simp add: conc_start_def)
qed

theorem callback_threads_end_witness:
  "\<exists>c. turns sample_handlers 1 [0, 0] sample_threads = Some c \<and> count_list [0, 0] (0 :: nat) \<le> 30"
proof -
  obtain c where run: "turns sample_handlers 1 [0, 0] sample_threads = Some c"
    using sample_threads_in_handler by blast
  have "length (sample_handlers f) \<le> 3" for f
    by (simp add: sample_handlers_def)
  from callback_threads_end [OF run [unfolded sample_threads_def] sample_threads_start _ this, of 0]
  have "count_list [0, 0] (0 :: nat) \<le> act_cost 3 (ByFirmware (FwWrite [65])) + 1"
    by (simp add: safe_act_def)
  then show ?thesis
    using run by (simp add: act_cost_def line_cost_def)
qed

end
