(* ===== verification/HostSingleton.thy ===== *)
theory HostSingleton
  imports HostAbi
begin

text \<open>
  \<open>zimodem_host_create\<close> and \<open>zimodem_host_destroy\<close> on several threads at once, statement by
  statement. \<open>create\<close> holds \<open>g_singleton_mutex\<close> from its first test to its return; \<open>destroy\<close>
  takes it only to forget the active instance, after it has emptied the callback slots of the HAL
  and before it frees the instance. A thread may destroy an instance whose handle was returned
  and that nobody else has destroyed; everything else is left to the order of the steps.
\<close>

section \<open>The two functions, statement by statement\<close>

datatype life_pc =
    Outside
  | WaitCreate \<comment> \<open>before the constructor of \<open>lock_guard\<close> returns\<close>
  | TestActive
  | SetRoot
  | NetInit
  | NewInstance
  | RegisterDataReady inst_ptr
  | RegisterSignal inst_ptr
  | RegisterLine inst_ptr
  | RegisterSink inst_ptr
  | Activate inst_ptr
  | LeaveCreate "inst_ptr option" \<comment> \<open>the value to return, before the mutex is released\<close>
  | StopWorker inst_ptr
  | ClearDataReady inst_ptr
  | ClearLine inst_ptr
  | ClearSignal inst_ptr
  | ClearSink inst_ptr
  | WaitDestroy inst_ptr
  | ForgetActive inst_ptr
  | LeaveDestroy inst_ptr
  | NetShutdown inst_ptr
  | DeleteInstance inst_ptr

text \<open>\<open>returned\<close>: the handles that the host has got and not yet passed to \<open>destroy\<close>.\<close>

record life =
  world :: host
  singleton :: "nat option" \<comment> \<open>who holds \<open>g_singleton_mutex\<close>\<close>
  pcs :: "nat \<Rightarrow> life_pc"
  returned :: "inst_ptr set"

definition life_start :: life where
  "life_start = \<lparr>world = host_init, singleton = None, pcs = (\<lambda>t. Outside), returned = {}\<rparr>"

definition goto :: "nat \<Rightarrow> life_pc \<Rightarrow> life \<Rightarrow> life" where
  "goto t pc c = c\<lparr>pcs := (pcs c)(t := pc)\<rparr>"

definition on_world :: "(host \<Rightarrow> host) \<Rightarrow> life \<Rightarrow> life" where
  "on_world f c = c\<lparr>world := f (world c)\<rparr>"

text \<open>
  The next statement of thread \<open>t\<close>. \<open>created\<close> says whether \<open>create_directories\<close> succeeds (it
  throws otherwise), \<open>allocated\<close> what \<open>new (std::nothrow)\<close> returns.
\<close>

definition create_go :: "string \<Rightarrow> bool \<Rightarrow> inst_ptr option \<Rightarrow> nat \<Rightarrow> life \<Rightarrow> life option" where
  "create_go dir created allocated t c =
     (case pcs c t of
        WaitCreate \<Rightarrow>
          if singleton c = None then Some (goto t TestActive (c\<lparr>singleton := Some t\<rparr>)) else None
      | TestActive \<Rightarrow>
          Some (goto t (if g_active_instance (world c) \<noteq> None then LeaveCreate None else SetRoot) c)
      | SetRoot \<Rightarrow>
          (let (ok, fs1) = fs_set_root created dir (hal_fs (world c));
               c1 = on_world (\<lambda>h. h\<lparr>hal_fs := fs1\<rparr>) c
           in Some (if ok then goto t NetInit c1 else goto t Outside (c1\<lparr>singleton := None\<rparr>)))
      | NetInit \<Rightarrow> Some (goto t NewInstance (on_world (\<lambda>h. h\<lparr>net_inits := net_inits h + 1\<rparr>) c))
      | NewInstance \<Rightarrow>
          (case allocated of
             None \<Rightarrow> Some (goto t (LeaveCreate None) c)
           | Some i \<Rightarrow>
               if heap (world c) i \<noteq> None then None
               else Some (goto t (RegisterDataReady i) (on_world (\<lambda>h. h\<lparr>heap := (heap h)(i \<mapsto> new_instance)\<rparr>) c)))
      | RegisterDataReady i \<Rightarrow>
          Some (goto t (RegisterSignal i)
            (on_world (\<lambda>h. h\<lparr>hal_serial := set_data_ready_callback (Some i) (hal_serial h)\<rparr>) c))
      | RegisterSignal i \<Rightarrow>
          Some (goto t (RegisterLine i)
            (on_world (\<lambda>h. h\<lparr>hal_pins := set_signal_callback (Some i) (hal_pins h)\<rparr>) c))
      | RegisterLine i \<Rightarrow>
          Some (goto t (RegisterSink i)
            (on_world (\<lambda>h. h\<lparr>hal_serial := set_line_config_callback (Some i) (hal_serial h)\<rparr>) c))
      | RegisterSink i \<Rightarrow>
          Some (goto t (Activate i) (on_world (\<lambda>h. h\<lparr>hal_log := set_sink (Some i) (hal_log h)\<rparr>) c))
      | Activate i \<Rightarrow> Some (goto t (LeaveCreate (Some i)) (on_world (\<lambda>h. h\<lparr>g_active_instance := Some i\<rparr>) c))
      | LeaveCreate r \<Rightarrow>
          Some (goto t Outside (c\<lparr>singleton := None, returned := returned c \<union> set_option r\<rparr>))
      | _ \<Rightarrow> None)"

definition destroy_go :: "nat \<Rightarrow> life \<Rightarrow> life option" where
  "destroy_go t c =
     (case pcs c t of
        StopWorker i \<Rightarrow>
          Some (goto t (ClearDataReady i) (on_world (\<lambda>h. h\<lparr>heap := (heap h)(i := map_option
            (\<lambda>inst. inst\<lparr>running := False, worker_joinable := False\<rparr>) (heap h i))\<rparr>) c))
      | ClearDataReady i \<Rightarrow>
          Some (goto t (ClearLine i)
            (on_world (\<lambda>h. h\<lparr>hal_serial := set_data_ready_callback None (hal_serial h)\<rparr>) c))
      | ClearLine i \<Rightarrow>
          Some (goto t (ClearSignal i)
            (on_world (\<lambda>h. h\<lparr>hal_serial := set_line_config_callback None (hal_serial h)\<rparr>) c))
      | ClearSignal i \<Rightarrow>
          Some (goto t (ClearSink i) (on_world (\<lambda>h. h\<lparr>hal_pins := set_signal_callback None (hal_pins h)\<rparr>) c))
      | ClearSink i \<Rightarrow>
          Some (goto t (WaitDestroy i) (on_world (\<lambda>h. h\<lparr>hal_log := set_sink None (hal_log h)\<rparr>) c))
      | WaitDestroy i \<Rightarrow>
          if singleton c = None then Some (goto t (ForgetActive i) (c\<lparr>singleton := Some t\<rparr>)) else None
      | ForgetActive i \<Rightarrow>
          Some (goto t (LeaveDestroy i)
            (on_world (\<lambda>h. if g_active_instance h = Some i then h\<lparr>g_active_instance := None\<rparr> else h) c))
      | LeaveDestroy i \<Rightarrow> Some (goto t (NetShutdown i) (c\<lparr>singleton := None\<rparr>))
      | NetShutdown i \<Rightarrow>
          Some (goto t (DeleteInstance i) (on_world (\<lambda>h. h\<lparr>net_inits := net_inits h - 1\<rparr>) c))
      | DeleteInstance i \<Rightarrow> Some (goto t Outside (on_world (\<lambda>h. h\<lparr>heap := (heap h)(i := None)\<rparr>) c))
      | _ \<Rightarrow> None)"

fun creating :: "life_pc \<Rightarrow> bool" where
  "creating WaitCreate \<longleftrightarrow> True"
| "creating TestActive \<longleftrightarrow> True"
| "creating SetRoot \<longleftrightarrow> True"
| "creating NetInit \<longleftrightarrow> True"
| "creating NewInstance \<longleftrightarrow> True"
| "creating (RegisterDataReady i) \<longleftrightarrow> True"
| "creating (RegisterSignal i) \<longleftrightarrow> True"
| "creating (RegisterLine i) \<longleftrightarrow> True"
| "creating (RegisterSink i) \<longleftrightarrow> True"
| "creating (Activate i) \<longleftrightarrow> True"
| "creating (LeaveCreate r) \<longleftrightarrow> True"
| "creating pc \<longleftrightarrow> False"

definition life_go :: "string \<Rightarrow> bool \<Rightarrow> inst_ptr option \<Rightarrow> nat \<Rightarrow> life \<Rightarrow> life option" where
  "life_go dir created allocated t c =
     (if creating (pcs c t) then create_go dir created allocated t c else destroy_go t c)"

lemmas life_go_simps = life_go_def create_go_def destroy_go_def split_def

text \<open>What threads may do: call \<open>create\<close>, call \<open>destroy\<close> on a handle of theirs, go on.\<close>

datatype life_turn = EnterCreate nat | EnterDestroy nat inst_ptr | GoOn nat string bool "inst_ptr option"

definition take_turn :: "life_turn \<Rightarrow> life \<Rightarrow> life option" where
  "take_turn turn c =
     (case turn of
        EnterCreate t \<Rightarrow> if pcs c t = Outside then Some (goto t WaitCreate c) else None
      | EnterDestroy t i \<Rightarrow>
          if pcs c t = Outside \<and> i \<in> returned c
          then Some (goto t (StopWorker i) (c\<lparr>returned := returned c - {i}\<rparr>)) else None
      | GoOn t dir created allocated \<Rightarrow> life_go dir created allocated t c)"

primrec life_run :: "life_turn list \<Rightarrow> life \<Rightarrow> life option" where
  "life_run [] c = Some c"
| "life_run (turn # turns) c = (case take_turn turn c of None \<Rightarrow> None | Some d \<Rightarrow> life_run turns d)"

section \<open>The invariant\<close>

type_synonym slots = "inst_ptr option \<times> inst_ptr option \<times> inst_ptr option \<times> inst_ptr option"

definition slots_of :: "host \<Rightarrow> slots" where
  "slots_of h = (g_data_ready_callback (hal_serial h), g_callback (hal_pins h),
     g_line_config_callback (hal_serial h), g_sink (hal_log h))"

definition all_slots :: "inst_ptr option \<Rightarrow> slots" where
  "all_slots r = (r, r, r, r)"

text \<open>What the slots hold while a thread is at work on them, and what is active then.\<close>

fun shown :: "life_pc \<Rightarrow> (inst_ptr option \<times> slots) option" where
  "shown (RegisterDataReady i) = Some (None, all_slots None)"
| "shown (RegisterSignal i) = Some (None, (Some i, None, None, None))"
| "shown (RegisterLine i) = Some (None, (Some i, Some i, None, None))"
| "shown (RegisterSink i) = Some (None, (Some i, Some i, Some i, None))"
| "shown (Activate i) = Some (None, all_slots (Some i))"
| "shown (LeaveCreate r) = (case r of None \<Rightarrow> None | Some i \<Rightarrow> Some (Some i, all_slots (Some i)))"
| "shown (StopWorker i) = Some (Some i, all_slots (Some i))"
| "shown (ClearDataReady i) = Some (Some i, all_slots (Some i))"
| "shown (ClearLine i) = Some (Some i, (None, Some i, Some i, Some i))"
| "shown (ClearSignal i) = Some (Some i, (None, Some i, None, Some i))"
| "shown (ClearSink i) = Some (Some i, (None, None, None, Some i))"
| "shown (WaitDestroy i) = Some (Some i, all_slots None)"
| "shown (ForgetActive i) = Some (Some i, all_slots None)"
| "shown pc = None"

fun inst_at :: "life_pc \<Rightarrow> inst_ptr option" where
  "inst_at (RegisterDataReady i) = Some i"
| "inst_at (RegisterSignal i) = Some i"
| "inst_at (RegisterLine i) = Some i"
| "inst_at (RegisterSink i) = Some i"
| "inst_at (Activate i) = Some i"
| "inst_at (LeaveCreate r) = r"
| "inst_at (StopWorker i) = Some i"
| "inst_at (ClearDataReady i) = Some i"
| "inst_at (ClearLine i) = Some i"
| "inst_at (ClearSignal i) = Some i"
| "inst_at (ClearSink i) = Some i"
| "inst_at (WaitDestroy i) = Some i"
| "inst_at (ForgetActive i) = Some i"
| "inst_at (LeaveDestroy i) = Some i"
| "inst_at (NetShutdown i) = Some i"
| "inst_at (DeleteInstance i) = Some i"
| "inst_at pc = None"

fun inside :: "life_pc \<Rightarrow> bool" where
  "inside Outside \<longleftrightarrow> False"
| "inside WaitCreate \<longleftrightarrow> False"
| "inside (StopWorker i) \<longleftrightarrow> False"
| "inside (ClearDataReady i) \<longleftrightarrow> False"
| "inside (ClearLine i) \<longleftrightarrow> False"
| "inside (ClearSignal i) \<longleftrightarrow> False"
| "inside (ClearSink i) \<longleftrightarrow> False"
| "inside (WaitDestroy i) \<longleftrightarrow> False"
| "inside (NetShutdown i) \<longleftrightarrow> False"
| "inside (DeleteInstance i) \<longleftrightarrow> False"
| "inside pc \<longleftrightarrow> True"

text \<open>Between its test and its allocation \<open>create\<close> knows that nothing is active.\<close>

fun knows_none :: "life_pc \<Rightarrow> bool" where
  "knows_none SetRoot \<longleftrightarrow> True"
| "knows_none NetInit \<longleftrightarrow> True"
| "knows_none NewInstance \<longleftrightarrow> True"
| "knows_none pc \<longleftrightarrow> False"

definition now :: "life \<Rightarrow> inst_ptr option \<times> slots" where
  "now c = (g_active_instance (world c), slots_of (world c))"

text \<open>
  The slots and the active instance are as the one thread at work on them left them; with none at
  work they are those of the instance the host holds, or empty.
\<close>

definition in_focus :: "life \<Rightarrow> bool" where
  "in_focus c \<longleftrightarrow>
     (\<exists>t. shown (pcs c t) = Some (now c) \<and> returned c = {} \<and> (\<forall>u. u \<noteq> t \<longrightarrow> shown (pcs c u) = None))
     \<or> (\<exists>i. returned c = {i} \<and> now c = (Some i, all_slots (Some i)) \<and> (\<forall>u. shown (pcs c u) = None))
     \<or> (returned c = {} \<and> now c = (None, all_slots None) \<and> (\<forall>u. shown (pcs c u) = None))"

definition locked_once :: "life \<Rightarrow> bool" where
  "locked_once c \<longleftrightarrow> (\<forall>t. inside (pcs c t) \<longleftrightarrow> singleton c = Some t)"

definition none_known :: "life \<Rightarrow> bool" where
  "none_known c \<longleftrightarrow> (\<forall>t. knows_none (pcs c t) \<longrightarrow> g_active_instance (world c) = None)"

definition alive :: "life \<Rightarrow> bool" where
  "alive c \<longleftrightarrow>
     (\<forall>t i. inst_at (pcs c t) = Some i \<longrightarrow> i \<in> dom (heap (world c)) - returned c
        \<and> (\<forall>u. inst_at (pcs c u) = Some i \<longrightarrow> u = t))
     \<and> returned c \<subseteq> dom (heap (world c))"

lemma goto_simps [simp]:
  "world (goto t pc c) = world c" "singleton (goto t pc c) = singleton c"
  "pcs (goto t pc c) = (pcs c)(t := pc)" "returned (goto t pc c) = returned c"
  by (simp_all add: goto_def)

lemma on_world_simps [simp]:
  "world (on_world f c) = f (world c)" "singleton (on_world f c) = singleton c"
  "pcs (on_world f c) = pcs c" "returned (on_world f c) = returned c"
  by (simp_all add: on_world_def)

text \<open>The ways the focus can move when thread \<open>t\<close> goes from \<open>pcs c t\<close> to \<open>pc\<close>.\<close>

lemma focus_stays:
  "in_focus c \<Longrightarrow> shown (pcs c t) = None \<Longrightarrow> shown pc = None \<Longrightarrow> pcs d = (pcs c)(t := pc) \<Longrightarrow>
     now d = now c \<Longrightarrow> returned d = returned c \<Longrightarrow> in_focus d"
  by (simp add: in_focus_def) (metis fun_upd_apply option.distinct(1))

lemma focus_of:
  assumes "in_focus c" and "shown (pcs c t) = Some x"
  shows "now c = x \<and> returned c = {} \<and> (\<forall>u. u \<noteq> t \<longrightarrow> shown (pcs c u) = None)"
proof -
  obtain v where v: "shown (pcs c v) = Some (now c)" "returned c = {}"
    and others: "\<And>u. u \<noteq> v \<Longrightarrow> shown (pcs c u) = None"
    using assms by (auto simp: in_focus_def)
  have "v = t"
    using others [of t] assms(2) by (cases "t = v") auto
  with v others assms(2) show ?thesis by simp
qed

lemma focus_works:
  assumes "in_focus c" and "shown (pcs c t) = Some x" and "pcs d = (pcs c)(t := pc)"
    and "shown pc = Some (now d)" and "returned d = returned c"
  shows "in_focus d"
  using focus_of [OF assms(1,2)] assms(3-5) by (auto simp: in_focus_def)

lemma focus_ends:
  assumes "in_focus c" and "shown (pcs c t) = Some x" and "pcs d = (pcs c)(t := pc)" and "shown pc = None"
    and "now d = (None, all_slots None) \<and> returned d = {}
      \<or> (\<exists>i. now d = (Some i, all_slots (Some i)) \<and> returned d = {i})"
  shows "in_focus d"
  using focus_of [OF assms(1,2)] assms(3-5) by (auto simp: in_focus_def)

lemma focus_begins:
  assumes "\<And>u. shown (pcs c u) = None" and "pcs d = (pcs c)(t := pc)"
    and "shown pc = Some (now d)" and "returned d = {}"
  shows "in_focus d"
  using assms by (auto simp: in_focus_def)

lemma life_go_frame:
  "life_go dir created allocated t c = Some d \<Longrightarrow> pcs d = (pcs c)(t := pcs d t)"
  by (cases "pcs c t") (auto simp: life_go_simps Let_def split: if_splits option.splits)

lemma life_go_lock:
  "life_go dir created allocated t c = Some d \<Longrightarrow>
     inside (pcs d t) = inside (pcs c t) \<and> singleton d = singleton c
     \<or> singleton c = None \<and> singleton d = Some t \<and> inside (pcs d t)
     \<or> singleton d = None \<and> inside (pcs c t) \<and> \<not> inside (pcs d t)"
  by (cases "pcs c t") (auto simp: life_go_simps Let_def split: if_splits option.splits)

lemma locked_step:
  assumes "life_go dir created allocated t c = Some d" and "locked_once c"
  shows "locked_once d"
proof -
  have lock: "inside (pcs c u) \<longleftrightarrow> singleton c = Some u" for u
    using assms(2) by (simp add: locked_once_def)
  have "inside (pcs d u) \<longleftrightarrow> singleton d = Some u" for u
    using life_go_lock [OF assms(1)] lock [of u] lock [of t] fun_cong [OF life_go_frame [OF assms(1)], of u]
    by (cases "u = t") auto
  then show ?thesis
    by (simp add: locked_once_def)
qed

text \<open>Which instance a step is about, and which instances are alive.\<close>

definition kept :: "nat \<Rightarrow> life \<Rightarrow> life \<Rightarrow> bool" where
  "kept t c d \<longleftrightarrow> dom (heap (world d)) = dom (heap (world c)) \<and> returned d = returned c
     \<and> (inst_at (pcs d t) = inst_at (pcs c t) \<or> inst_at (pcs d t) = None)"

definition alive_changes :: "nat \<Rightarrow> inst_ptr \<Rightarrow> life \<Rightarrow> life \<Rightarrow> bool" where
  "alive_changes t i c d \<longleftrightarrow>
     i \<notin> dom (heap (world c)) \<and> dom (heap (world d)) = insert i (dom (heap (world c)))
       \<and> returned d = returned c \<and> inst_at (pcs d t) = Some i
     \<or> inst_at (pcs c t) = Some i \<and> inst_at (pcs d t) = None \<and> returned d = insert i (returned c)
       \<and> dom (heap (world d)) = dom (heap (world c))
     \<or> inst_at (pcs c t) = Some i \<and> inst_at (pcs d t) = None \<and> returned d = returned c
       \<and> dom (heap (world d)) = dom (heap (world c)) - {i}"

lemma stopped_dom: "dom (m(i := map_option f (m i))) = dom m"
  by (auto simp: dom_def)

lemma life_go_inst:
  assumes "life_go dir created allocated t c = Some d"
  shows "kept t c d \<or> (\<exists>i. alive_changes t i c d)"
proof (cases "pcs c t")
  case NewInstance
  then show ?thesis
    using assms by (auto simp: life_go_simps kept_def alive_changes_def domIff split: option.splits if_splits)
next
  case (LeaveCreate r)
  then show ?thesis
    using assms by (cases r) (auto simp: life_go_simps kept_def alive_changes_def)
next
  case (DeleteInstance i)
  then have "d = goto t Outside (on_world (\<lambda>h. h\<lparr>heap := (heap h)(i := None)\<rparr>) c)"
    using assms by (simp add: life_go_simps)
  with DeleteInstance have "alive_changes t i c d"
    by (simp add: alive_changes_def)
  then show ?thesis
    by blast
qed (use assms in \<open>auto simp: life_go_simps kept_def Let_def stopped_dom split: if_splits\<close>)

lemma alive_kept:
  assumes "alive c" and "kept t c d" and frame: "pcs d = (pcs c)(t := pcs d t)"
  shows "alive d"
proof -
  have at: "inst_at (pcs d u) = Some i \<Longrightarrow> inst_at (pcs c u) = Some i" for u i
    using assms(2) fun_cong [OF frame, of u] by (cases "u = t") (auto simp: kept_def)
  from assms(1,2) show ?thesis
    unfolding alive_def kept_def by (metis at)
qed

lemma alive_changed:
  assumes "alive c" and "alive_changes t i c d" and frame: "pcs d = (pcs c)(t := pcs d t)"
  shows "alive d"
proof -
  have other: "u \<noteq> t \<Longrightarrow> pcs d u = pcs c u" for u
    using fun_cong [OF frame, of u] by simp
  have at: "inst_at (pcs c u) = Some j \<Longrightarrow> j \<in> dom (heap (world c)) - returned c
      \<and> (\<forall>v. inst_at (pcs c v) = Some j \<longrightarrow> v = u)" for u j
    using assms(1) unfolding alive_def by blast
  have ret: "returned c \<subseteq> dom (heap (world c))"
    using assms(1) by (simp add: alive_def)
  have mine: "inst_at (pcs d t) = Some j \<Longrightarrow> j = i \<and> i \<notin> dom (heap (world c))
      \<and> i \<in> dom (heap (world d)) \<and> returned d = returned c" for j
    using assms(2) by (auto simp: alive_changes_def)
  have old: "j \<in> dom (heap (world d)) - returned d" if "u \<noteq> t" "inst_at (pcs c u) = Some j" for u j
  proof -
    have "inst_at (pcs c t) = Some i \<Longrightarrow> j \<noteq> i"
      using at [of u j] that by blast
    moreover have "j \<in> dom (heap (world c))" "j \<notin> returned c"
      using at [OF that(2)] by blast+
    ultimately show ?thesis
      using assms(2) unfolding alive_changes_def by blast
  qed
  have "j \<in> dom (heap (world d)) - returned d \<and> (\<forall>v. inst_at (pcs d v) = Some j \<longrightarrow> v = u)"
    if now: "inst_at (pcs d u) = Some j" for u j
  proof (cases "u = t")
    case True
    with now mine ret have "j = i" "j \<in> dom (heap (world d)) - returned d"
      by auto
    moreover have "v = t" if "inst_at (pcs d v) = Some i" for v
      using that mine [of j] now True at [of v i] other [of v] by (cases "v = t") auto
    ultimately show ?thesis
      using True by blast
  next
    case False
    with now have was: "inst_at (pcs c u) = Some j"
      using other by simp
    have "v = u" if "inst_at (pcs d v) = Some j" for v
      using that mine [of j] at [OF was] other [of v] by (cases "v = t") auto
    then show ?thesis
      using old [OF False was] by blast
  qed
  moreover have mine_c: "inst_at (pcs c t) = Some i \<Longrightarrow> i \<in> dom (heap (world c)) - returned c"
    using at by blast
  have "returned d \<subseteq> dom (heap (world d))"
    using assms(2) unfolding alive_changes_def
  proof (elim disjE conjE)
    assume "dom (heap (world d)) = insert i (dom (heap (world c)))" "returned d = returned c"
    with ret show ?thesis
      by (simp only: subset_insertI2)
  next
    assume "inst_at (pcs c t) = Some i" "returned d = insert i (returned c)"
      "dom (heap (world d)) = dom (heap (world c))"
    with ret mine_c show ?thesis
      by (simp only: insert_subset Diff_iff simp_thms)
  next
    assume "inst_at (pcs c t) = Some i" "returned d = returned c"
      "dom (heap (world d)) = dom (heap (world c)) - {i}"
    with ret mine_c show ?thesis
      by (simp only: subset_Diff_insert Diff_iff Diff_empty simp_thms)
  qed
  ultimately show ?thesis
    unfolding alive_def by blast
qed

lemma alive_step:
  assumes "life_go dir created allocated t c = Some d" and "alive c"
  shows "alive d"
  using life_go_inst [OF assms(1)]
proof
  assume "kept t c d"
  from alive_kept [OF assms(2) this life_go_frame [OF assms(1)]] show ?thesis .
next
  assume "\<exists>i. alive_changes t i c d"
  then obtain i where "alive_changes t i c d" ..
  from alive_changed [OF assms(2) this life_go_frame [OF assms(1)]] show ?thesis .
qed

text \<open>Where the active instance changes, and who may rely on there being none.\<close>

lemma life_go_active:
  "life_go dir created allocated t c = Some d \<Longrightarrow>
     g_active_instance (world d) = g_active_instance (world c)
     \<or> g_active_instance (world d) = None
     \<or> inside (pcs c t)"
  by (cases "pcs c t") (auto simp: life_go_simps Let_def split: if_splits option.splits)

lemma knows_none_go:
  assumes "life_go dir created allocated t c = Some d" and "knows_none (pcs d t)"
    and "knows_none (pcs c t) \<Longrightarrow> g_active_instance (world c) = None"
  shows "g_active_instance (world d) = None"
  using assms by (cases "pcs c t") (auto simp: life_go_simps Let_def split: if_splits option.splits)

lemma knows_none_inside: "knows_none pc \<Longrightarrow> inside pc"
  by (cases pc) auto

lemma none_known_step:
  assumes go: "life_go dir created allocated t c = Some d" and "locked_once c" "none_known c"
  shows "none_known d"
proof -
  have none: "knows_none (pcs c u) \<Longrightarrow> g_active_instance (world c) = None" for u
    using assms(3) unfolding none_known_def by blast
  have "g_active_instance (world d) = None" if k: "knows_none (pcs d u)" for u
  proof (cases "u = t")
    case True
    with k knows_none_go [OF go _ none] show ?thesis
      by simp
  next
    case False
    then have same: "pcs d u = pcs c u"
      using fun_cong [OF life_go_frame [OF go], of u] by simp
    with k have "singleton c = Some u"
      using assms(2) knows_none_inside unfolding locked_once_def by metis
    with False have "\<not> inside (pcs c t)"
      using assms(2) unfolding locked_once_def by auto
    with life_go_active [OF go] none [of u] k same show ?thesis
      by auto
  qed
  then show ?thesis
    unfolding none_known_def by blast
qed

text \<open>How the slots move when a thread goes on.\<close>

lemmas slot_setters =
  now_def slots_of_def all_slots_def set_data_ready_callback_def set_line_config_callback_def
  set_signal_callback_def set_sink_def

lemma life_go_unshown:
  "life_go dir created allocated t c = Some d \<Longrightarrow> shown (pcs c t) = None \<Longrightarrow>
     now d = now c \<and> returned d = returned c
     \<and> (shown (pcs d t) = None \<or> knows_none (pcs c t) \<and> shown (pcs d t) = Some (None, all_slots None))"
  by (cases "pcs c t") (auto simp: life_go_simps Let_def slot_setters split: if_splits option.splits)

definition handed_out :: "life \<Rightarrow> life \<Rightarrow> bool" where
  "handed_out c d \<longleftrightarrow>
     (\<exists>i. now d = (Some i, all_slots (Some i)) \<and> returned d = insert i (returned c))"

lemma now_sets:
  assumes "now c = (a, s1, s2, s3, s4)"
  shows "now (on_world (\<lambda>h. h\<lparr>hal_serial := set_data_ready_callback r (hal_serial h)\<rparr>) c) = (a, r, s2, s3, s4)"
    and "now (on_world (\<lambda>h. h\<lparr>hal_pins := set_signal_callback r (hal_pins h)\<rparr>) c) = (a, s1, r, s3, s4)"
    and "now (on_world (\<lambda>h. h\<lparr>hal_serial := set_line_config_callback r (hal_serial h)\<rparr>) c) = (a, s1, s2, r, s4)"
    and "now (on_world (\<lambda>h. h\<lparr>hal_log := set_sink r (hal_log h)\<rparr>) c) = (a, s1, s2, s3, r)"
    and "now (on_world (\<lambda>h. h\<lparr>g_active_instance := r\<rparr>) c) = (r, s1, s2, s3, s4)"
    and "now (on_world (\<lambda>h. if g_active_instance h = Some i then h\<lparr>g_active_instance := None\<rparr> else h) c)
      = (if a = Some i then None else a, s1, s2, s3, s4)"
    and "now (on_world (\<lambda>h. h\<lparr>heap := m h\<rparr>) c) = (a, s1, s2, s3, s4)"
  using assms by (auto simp: slot_setters)

lemma now_same [simp]: "now (goto t pc c) = now c" "now (c\<lparr>singleton := l\<rparr>) = now c"
  "now (c\<lparr>singleton := l, returned := r\<rparr>) = now c"
  by (simp_all add: now_def)

lemma life_go_shown:
  assumes go: "life_go dir created allocated t c = Some d" and x: "now c = x" and "shown (pcs c t) = Some x"
  shows "shown (pcs d t) = Some (now d) \<and> returned d = returned c
     \<or> shown (pcs d t) = None \<and> now d = (None, all_slots None) \<and> returned d = returned c
     \<or> shown (pcs d t) = None \<and> handed_out c d"
proof -
  obtain a s1 s2 s3 s4 where parts: "x = (a, s1, s2, s3, s4)"
    by (cases x) auto
  note sets = now_sets [OF x [unfolded parts]]
  show ?thesis
  proof (cases "pcs c t")
    case (LeaveCreate r)
    then obtain i where r: "r = Some i" and x': "x = (Some i, all_slots (Some i))"
      using assms(3) by (cases r) auto
    from LeaveCreate r go have d: "d = goto t Outside (c\<lparr>singleton := None, returned := insert i (returned c)\<rparr>)"
      by (simp add: life_go_simps)
    from x x' show ?thesis
      by (simp add: d handed_out_def)
  next
    case (WaitDestroy i)
    with go have d: "d = goto t (ForgetActive i) (c\<lparr>singleton := Some t\<rparr>)"
      by (simp add: life_go_simps split: if_splits)
    from WaitDestroy assms(2,3) show ?thesis
      by (simp add: d)
  qed (use go [symmetric] assms(3) [symmetric, unfolded parts] in \<open>simp_all add: life_go_simps sets all_slots_def\<close>)
qed

lemma shown_none_inside: "shown pc = Some (None, s) \<Longrightarrow> inside pc"
  by (cases pc) (auto split: option.splits)

lemma nothing_shown:
  assumes "in_focus c" and "locked_once c" and "none_known c" and k: "knows_none (pcs c t)"
  shows "now c = (None, all_slots None) \<and> returned c = {} \<and> (\<forall>u. shown (pcs c u) = None)"
proof -
  have none: "g_active_instance (world c) = None"
    using assms(3) k unfolding none_known_def by blast
  have at: "inside (pcs c v) \<longleftrightarrow> singleton c = Some v" for v
    using assms(2) unfolding locked_once_def by blast
  have "v = t" if "shown (pcs c v) = Some (now c)" for v
    using shown_none_inside [of "pcs c v" "slots_of (world c)"] that none knows_none_inside [OF k] at [of v] at [of t]
    by (simp add: now_def)
  moreover have "shown (pcs c t) = None"
    using k by (cases "pcs c t") auto
  ultimately show ?thesis
    using assms(1) none unfolding in_focus_def now_def by auto
qed

lemma in_focus_step:
  assumes go: "life_go dir created allocated t c = Some d"
    and "in_focus c" "locked_once c" "none_known c"
  shows "in_focus d"
proof (cases "shown (pcs c t)")
  case None
  note moved = life_go_unshown [OF go None]
  show ?thesis
  proof (cases "shown (pcs d t) = None")
    case True
    with moved focus_stays [OF assms(2) None _ life_go_frame [OF go]] show ?thesis
      by simp
  next
    case False
    with moved nothing_shown [OF assms(2-4), of t] focus_begins [OF _ life_go_frame [OF go]] show ?thesis
      by simp
  qed
next
  case (Some x)
  note mine = focus_of [OF assms(2) Some]
  from mine life_go_shown [OF go _ Some]
    focus_works [OF assms(2) Some life_go_frame [OF go]] focus_ends [OF assms(2) Some life_go_frame [OF go]]
  show ?thesis
    by (auto simp: handed_out_def)
qed

definition life_ok :: "life \<Rightarrow> bool" where
  "life_ok c \<longleftrightarrow> in_focus c \<and> locked_once c \<and> none_known c \<and> alive c"

lemma life_ok_start: "life_ok life_start"
  by (simp add: life_ok_def life_start_def in_focus_def now_def slots_of_def all_slots_def
      host_init_def serial_init_def pins_init_def log_init_def locked_once_def none_known_def alive_def)

lemma locked_enter:
  assumes "locked_once c" and "\<not> inside (pcs c t)" and "\<not> inside pc"
    and "pcs d = (pcs c)(t := pc)" and "singleton d = singleton c"
  shows "locked_once d"
  unfolding locked_once_def
proof
  fix u
  have "inside (pcs c u) \<longleftrightarrow> singleton c = Some u" "inside (pcs c t) \<longleftrightarrow> singleton c = Some t"
    using assms(1) unfolding locked_once_def by blast+
  with assms(2-5) show "inside (pcs d u) \<longleftrightarrow> singleton d = Some u"
    by (cases "u = t") auto
qed

lemma life_ok_turn:
  assumes "take_turn turn c = Some d" and "life_ok c"
  shows "life_ok d"
proof (cases turn)
  case (EnterCreate t)
  with assms(1) have out: "pcs c t = Outside" and d: "d = goto t WaitCreate c"
    by (auto simp: take_turn_def split: if_splits)
  have "in_focus d"
    using assms(2) focus_stays [of c t WaitCreate d] out by (simp add: life_ok_def d now_def)
  moreover have "locked_once d"
    using assms(2) locked_enter [of c t WaitCreate d] out by (simp add: life_ok_def d)
  moreover have "none_known d" "alive d"
    using assms(2) by (auto simp: life_ok_def d none_known_def alive_def)
  ultimately show ?thesis
    by (simp add: life_ok_def)
next
  case (EnterDestroy t i)
  then have out: "pcs c t = Outside" and i: "i \<in> returned c"
    and d: "d = goto t (StopWorker i) (c\<lparr>returned := returned c - {i}\<rparr>)"
    using assms(1) by (auto simp: take_turn_def split: if_splits)
  have "in_focus d"
    using assms(2) i out by (auto simp: life_ok_def in_focus_def now_def d)
  moreover have "locked_once d"
    using assms(2) locked_enter [of c t "StopWorker i" d] out by (simp add: life_ok_def d)
  moreover have "none_known d" "alive d"
    using assms(2) i by (auto simp: life_ok_def d none_known_def alive_def)
  ultimately show ?thesis
    by (simp add: life_ok_def)
next
  case (GoOn t dir created allocated)
  with assms(1) have "life_go dir created allocated t c = Some d"
    by (simp add: take_turn_def)
  with assms(2) show ?thesis
    by (simp add: life_ok_def in_focus_step locked_step none_known_step alive_step)
qed

lemma life_ok_run: "life_run turns c = Some d \<Longrightarrow> life_ok c \<Longrightarrow> life_ok d"
  by (induction turns arbitrary: c) (auto split: option.splits dest: life_ok_turn)

section \<open>What every interleaving keeps\<close>

lemma shown_inst:
  "shown pc = Some (a, s1, s2, s3, s4) \<Longrightarrow> Some i \<in> {a, s1, s2, s3, s4} \<Longrightarrow> inst_at pc = Some i"
  by (cases pc) (auto simp: all_slots_def split: option.splits)

lemma life_ok_slots:
  assumes ok: "life_ok c" and now: "now c = (a, s1, s2, s3, s4)" and i: "Some i \<in> {a, s1, s2, s3, s4}"
  shows "i \<in> dom (heap (world c))"
proof (cases "\<exists>t. shown (pcs c t) = Some (now c)")
  case True
  then obtain t where "inst_at (pcs c t) = Some i"
    using shown_inst [OF _ i] now by auto
  with ok show ?thesis
    unfolding life_ok_def alive_def by blast
next
  case False
  with ok now i have "i \<in> returned c"
    by (auto simp: life_ok_def in_focus_def all_slots_def)
  with ok show ?thesis
    unfolding life_ok_def alive_def by blast
qed

lemma life_ok_returned:
  assumes "life_ok c" and "i \<in> returned c"
  shows "now c = (Some i, all_slots (Some i))" and "i \<in> dom (heap (world c))"
  using assms by (auto simp: life_ok_def in_focus_def alive_def)

section \<open>A thread alone does what the sequential definitions say\<close>

lemma create_alone:
  assumes "pcs c t = Outside" "singleton c = None" "g_active_instance (world c) = None"
    and "heap (world c) i = None" "c_view data_dir \<noteq> []"
    and "fst (fs_set_root created (c_view data_dir) (hal_fs (world c)))"
  shows "\<exists>d. life_run (EnterCreate t # replicate 11 (GoOn t (c_view data_dir) created (Some i))) c = Some d
      \<and> zimodem_host_create created (Some i) (Some (Some data_dir)) (world c) = (Inr (Some i), world d)
      \<and> singleton d = None \<and> pcs d = pcs c \<and> returned d = insert i (returned c)"
  using assms
  by (simp add: eval_nat_numeral take_turn_def life_go_simps zimodem_host_create_def Let_def fun_upd_idem split_def)

lemma destroy_alone:
  assumes "pcs c t = Outside" "singleton c = None" "i \<in> returned c" "heap (world c) i = Some inst"
  shows "\<exists>d. life_run (EnterDestroy t i # replicate 10 (GoOn t dir created allocated)) c = Some d
      \<and> zimodem_host_destroy False (Some i) (world c) = Inr (world d)
      \<and> singleton d = None \<and> pcs d = pcs c \<and> returned d = returned c - {i}"
  using assms
  by (simp add: eval_nat_numeral take_turn_def life_go_simps zimodem_host_destroy_def Let_def fun_upd_idem)

section \<open>The property\<close>

text \<open>
  C2: in every state that any number of threads in \<open>zimodem_host_create\<close> and
  \<open>zimodem_host_destroy\<close> can reach, in whatever order their statements come, a callback slot or
  \<open>g_active_instance\<close> that is not empty names a live instance; an instance whose handle the host
  has, and that is not being destroyed, is the active one and all four callbacks are its own.
\<close>

theorem concurrent_lifecycle_safe:
  assumes "life_run turns life_start = Some c"
  shows "(\<forall>i. Some i \<in> {g_active_instance (world c), g_data_ready_callback (hal_serial (world c)),
        g_callback (hal_pins (world c)), g_line_config_callback (hal_serial (world c)), g_sink (hal_log (world c))}
        \<longrightarrow> heap (world c) i \<noteq> None)
    \<and> (\<forall>i \<in> returned c. heap (world c) i \<noteq> None \<and> g_active_instance (world c) = Some i
        \<and> g_data_ready_callback (hal_serial (world c)) = Some i \<and> g_callback (hal_pins (world c)) = Some i
        \<and> g_line_config_callback (hal_serial (world c)) = Some i \<and> g_sink (hal_log (world c)) = Some i)"
proof -
  have ok: "life_ok c"
    using life_ok_run [OF assms life_ok_start] .
  show ?thesis
    using life_ok_slots [OF ok] life_ok_returned [OF ok]
    by (auto simp: now_def slots_of_def all_slots_def)
qed

text \<open>
  Thread 0 creates an instance; thread 1 destroys it as far as \<open>global_shutdown\<close>; meanwhile thread
  0 creates the next one.
\<close>

definition overlap :: "life_turn list" where
  "overlap =
     EnterCreate 0 # replicate 11 (GoOn 0 ''d'' True (Some 0))
     @ EnterDestroy 1 0 # EnterCreate 0 # replicate 8 (GoOn 1 [] True None)
     @ replicate 11 (GoOn 0 ''d'' True (Some 1))"

lemma concurrent_lifecycle_safe_witness:
  "\<exists>c. life_run overlap life_start = Some c \<and> pcs c 1 = NetShutdown 0 \<and> returned c = {1}
     \<and> heap (world c) 0 \<noteq> None \<and> g_sink (hal_log (world c)) = Some 1"
proof -
  have "case life_run overlap life_start of None \<Rightarrow> False
      | Some c \<Rightarrow> pcs c 1 = NetShutdown 0 \<and> returned c = {1} \<and> heap (world c) 0 \<noteq> None"
    by code_simp
  then have "\<exists>c. life_run overlap life_start = Some c \<and> pcs c 1 = NetShutdown 0 \<and> returned c = {1}
      \<and> heap (world c) 0 \<noteq> None"
    by (simp split: option.splits)
  then show ?thesis
    using concurrent_lifecycle_safe [of overlap] by blast
qed

end
