(* ===== verification/FlashSpec.thy ===== *)
theory FlashSpec
  imports ArduinoFs
begin

text \<open>
  What the emulated flash promises. First the well-formedness of the host's files together with
  the \<open>File\<close> objects the firmware holds, kept by every call, and what a call leaves alone. Then
  an abstract store, a map from names to contents, with the locale \<open>file_store\<close> that says when
  an implementation follows it; the calls of \<open>SPIFFS\<close> and \<open>File\<close> as the firmware strings them
  together interpret it.
\<close>

section \<open>Calls and the files they concern\<close>

text \<open>The firmware's calls; a number says which of its \<open>File\<close> objects, in the order of their opening.\<close>

datatype fs_event =
    EvOpen bool c_string c_string
  | EvWrite nat u8
  | EvRead nat
  | EvPeek nat
  | EvReadBuf nat nat
  | EvClose nat
  | EvRemove bool c_string
  | EvExists c_string
  | EvFormat bool "place \<Rightarrow> bool"
  | EvInfo bool
  | EvBegin
  | EvSetRoot bool string

definition with_file :: "nat \<Rightarrow> (file_obj \<Rightarrow> file_obj) \<Rightarrow> file_obj list \<Rightarrow> file_obj list" where
  "with_file k change files = (if k < length files then files[k := change (files ! k)] else files)"

fun fs_event_step :: "string \<Rightarrow> fs_event \<Rightarrow> file_obj list \<times> host_fs \<Rightarrow> file_obj list \<times> host_fs" where
  "fs_event_step fresh (EvOpen granted path mode) (files, fs) =
     (let (f, fs1) = spiffs_open granted fresh path mode fs in (files @ [f], fs1))"
| "fs_event_step fresh (EvWrite k b) (files, fs) =
     (if k < length files
      then let (n, f1, fs1) = file_write_byte b (files ! k, fs) in (files[k := f1], fs1)
      else (files, fs))"
| "fs_event_step fresh (EvRead k) (files, fs) = (with_file k (\<lambda>f. snd (file_read f fs)) files, fs)"
| "fs_event_step fresh (EvPeek k) (files, fs) = (with_file k (\<lambda>f. snd (file_peek f fs)) files, fs)"
| "fs_event_step fresh (EvReadBuf k n) (files, fs) =
     (with_file k (\<lambda>f. snd (snd (file_read_buf n f fs))) files, fs)"
| "fs_event_step fresh (EvClose k) (files, fs) = (with_file k file_close files, fs)"
| "fs_event_step fresh (EvRemove allowed path) (files, fs) = (files, snd (spiffs_remove allowed fresh path fs))"
| "fs_event_step fresh (EvExists path) (files, fs) = (files, snd (spiffs_exists fresh path fs))"
| "fs_event_step fresh (EvFormat listable keeps) (files, fs) =
     (files, snd (spiffs_format listable keeps fresh fs))"
| "fs_event_step fresh (EvInfo listable) (files, fs) = (files, snd (spiffs_info listable fresh fs))"
| "fs_event_step fresh EvBegin (files, fs) = (files, snd (spiffs_begin fresh fs))"
| "fs_event_step fresh (EvSetRoot created path) (files, fs) = (files, snd (fs_set_root created path fs))"

definition fs_run :: "string \<Rightarrow> fs_event list \<Rightarrow> file_obj list \<times> host_fs \<Rightarrow> file_obj list \<times> host_fs" where
  "fs_run fresh evs st = foldl (\<lambda>st ev. fs_event_step fresh ev st) st evs"

definition handle_ok :: "host_fs \<Rightarrow> file_obj \<Rightarrow> bool" where
  "handle_ok fs f \<longleftrightarrow> (case fo_handle f of None \<Rightarrow> True | Some h \<Rightarrow> cf_inode h < fs_next fs)"

definition flash_ok :: "file_obj list \<times> host_fs \<Rightarrow> bool" where
  "flash_ok st \<longleftrightarrow> fs_ok (snd st) \<and> list_all (handle_ok (snd st)) (fst st)"

text \<open>Where a SPIFFS path leads.\<close>

definition spiffs_place :: "string \<Rightarrow> c_string \<Rightarrow> host_fs \<Rightarrow> place" where
  "spiffs_place fresh path fs = leads_to (fst (fs_resolve fresh (cstr_or_empty path) fs))"

text \<open>Whether a call may change the file at a place.\<close>

fun concerns :: "string \<Rightarrow> fs_event \<Rightarrow> file_obj list \<times> host_fs \<Rightarrow> place \<Rightarrow> bool" where
  "concerns fresh (EvOpen granted path mode) (files, fs) p \<longleftrightarrow>
     p = leads_to (c_view (fst (fs_resolve fresh (cstr_or_empty path) fs)))"
| "concerns fresh (EvWrite k b) (files, fs) p \<longleftrightarrow>
     k < length files \<and> (\<exists>h. fo_handle (files ! k) = Some h \<and> map_of (fs_names fs) p = Some (cf_inode h))"
| "concerns fresh (EvRemove allowed path) (files, fs) p \<longleftrightarrow> p = spiffs_place fresh path fs"
| "concerns fresh (EvFormat listable keeps) (files, fs) p \<longleftrightarrow>
     strict_suffix (leads_to (fst (fs_get_root fresh fs))) p"
| "concerns fresh ev st p \<longleftrightarrow> False"

section \<open>Every call keeps the files well-formed\<close>

text \<open>What a change of the host's files keeps: well-formedness, and that inodes are handed out once.\<close>

definition grows :: "host_fs \<Rightarrow> host_fs \<Rightarrow> bool" where
  "grows fs gs \<longleftrightarrow> (fs_ok fs \<longrightarrow> fs_ok gs) \<and> fs_next fs \<le> fs_next gs"

lemma grows_refl [simp]: "grows fs fs"
  by (simp add: grows_def)

lemma grows_trans: "grows fs gs \<Longrightarrow> grows gs hs \<Longrightarrow> grows fs hs"
  by (auto simp: grows_def)

lemma grows_add_dirs: "grows fs (add_dirs p fs)"
  using fs_ok_add_dirs [of fs p] by (simp add: grows_def add_dirs_def)

lemma grows_same_files: "grows fs (fs\<lparr>g_root := r\<rparr>)" "grows fs (fs\<lparr>fs_data := d\<rparr>)"
  by (simp_all add: grows_def fs_ok_data)

lemma grows_fopen: "grows fs (snd (c_fopen granted path mode fs))"
  using fs_ok_open [of fs granted path mode]
  by (auto simp: grows_def c_fopen_def open_place_def Let_def split: option.splits)

lemma grows_remove_place: "grows fs (snd (remove_place allowed path fs))"
  using fs_ok_remove [of fs allowed path]
  by (auto simp: grows_def remove_place_def split: option.splits)

lemma grows_remove_tree: "grows fs (snd (remove_tree keeps p fs))"
  using fs_ok_tree [of fs keeps p] by (simp add: grows_def remove_tree_def)

lemmas grows_ops = grows_add_dirs grows_same_files grows_fopen grows_remove_place grows_remove_tree

lemma grows_get_root: "grows fs (snd (fs_get_root fresh fs))"
  by (auto simp: fs_get_root_def make_fresh_temp_dir_def intro: grows_trans grows_ops)

lemma grows_resolve: "grows fs (snd (fs_resolve fresh path fs))"
  using grows_get_root [of fs fresh] by (simp add: fs_resolve_def split_def Let_def)

lemma grows_format_loop: "grows fs (snd (format_loop keeps ps ec fs))"
  by (induction ps arbitrary: ec fs) (auto simp: split_def Let_def intro: grows_trans [OF grows_remove_tree])

lemma grows_spiffs:
  "grows fs (snd (spiffs_open granted fresh path mode fs))"
  "grows fs (snd (spiffs_remove allowed fresh path fs))"
  "grows fs (snd (spiffs_exists fresh path fs))"
  "grows fs (snd (spiffs_format listable keeps fresh fs))"
  "grows fs (snd (spiffs_info listable fresh fs))"
  "grows fs (snd (spiffs_begin fresh fs))"
  "grows fs (snd (fs_set_root created dir fs))"
  by (auto simp: spiffs_open_def spiffs_remove_def spiffs_exists_def spiffs_format_def spiffs_info_def
      spiffs_begin_def fs_set_root_def create_dirs_def split_def Let_def
      intro: grows_trans [OF grows_get_root] grows_trans [OF grows_resolve] grows_ops grows_format_loop
      grows_get_root grows_resolve grows_trans [OF grows_same_files(1)])

lemma handle_ok_grows: "handle_ok fs f \<Longrightarrow> grows fs gs \<Longrightarrow> handle_ok gs f"
  by (auto simp: handle_ok_def grows_def split: option.splits)

lemma flash_ok_grows:
  "flash_ok (files, fs) \<Longrightarrow> grows fs gs \<Longrightarrow> list_all (handle_ok gs) files'
    \<Longrightarrow> flash_ok (files', gs)"
  by (simp add: flash_ok_def grows_def)

lemma opened_handle_ok:
  "fs_ok fs \<Longrightarrow> handle_ok (snd (spiffs_open granted fresh path mode fs)) (fst (spiffs_open granted fresh path mode fs))"
  using grows_resolve [of fs fresh "cstr_or_empty path"]
  by (auto simp: spiffs_open_def handle_ok_def c_fopen_def open_place_def c_file_of_def grows_def
      split_def Let_def split: option.splits dest: fs_ok_name)

lemma file_ops_keep_handle:
  "handle_ok fs f \<Longrightarrow> handle_ok fs (snd (file_read f fs))"
  "handle_ok fs f \<Longrightarrow> handle_ok fs (snd (file_peek f fs))"
  "handle_ok fs f \<Longrightarrow> handle_ok fs (snd (snd (file_read_buf n f fs)))"
  "handle_ok fs (file_close f)"
  by (auto simp: handle_ok_def file_read_def file_peek_def file_read_buf_def file_close_def c_fgetc_def
      c_fread_def c_fseek_def Let_def split: option.splits if_splits)

lemma write_keeps_handles:
  assumes "file_write_byte b (f, fs) = (n, f1, fs1)"
  shows "grows fs fs1" and "handle_ok fs f \<Longrightarrow> handle_ok fs1 f1"
  using assms grows_same_files(2)
  by (auto simp: file_write_byte_def c_fputc_def handle_ok_def Let_def split: option.splits if_splits prod.splits)

lemma with_file_all:
  "list_all P files \<Longrightarrow> (\<And>f. P f \<Longrightarrow> P (change f)) \<Longrightarrow> list_all P (with_file k change files)"
  by (auto simp: with_file_def list_all_length nth_list_update)

lemma flash_ok_step:
  assumes "flash_ok (files, fs)"
  shows "flash_ok (fs_event_step fresh ev (files, fs))"
proof -
  have fs: "fs_ok fs" and all: "list_all (handle_ok fs) files"
    using assms by (simp_all add: flash_ok_def)
  have kept: "list_all (handle_ok gs) files" if "grows fs gs" for gs
    using all handle_ok_grows [OF _ that] by (auto simp: list_all_iff)
  have grown: "flash_ok (files, gs)" if "grows fs gs" for gs
    using flash_ok_grows [OF assms that kept [OF that]] .
  have changed: "flash_ok (with_file k change files, fs)"
    if "\<And>f. handle_ok fs f \<Longrightarrow> handle_ok fs (change f)" for k change
    using flash_ok_grows [OF assms grows_refl with_file_all [OF all that]] .
  show ?thesis
  proof (cases ev)
    case (EvOpen granted path mode)
    then show ?thesis
      using flash_ok_grows [OF assms grows_spiffs(1)] kept [OF grows_spiffs(1)] opened_handle_ok [OF fs]
      by (simp add: split_def Let_def)
  next
    case (EvWrite k b)
    show ?thesis
    proof (cases "k < length files")
      case True
      obtain n f1 fs1 where w: "file_write_byte b (files ! k, fs) = (n, f1, fs1)"
        by (cases "file_write_byte b (files ! k, fs)")
      have "list_all (handle_ok fs1) (files[k := f1])"
        using kept [OF write_keeps_handles(1) [OF w]] write_keeps_handles(2) [OF w] all True
        by (auto simp: list_all_length nth_list_update)
      then show ?thesis
        using flash_ok_grows [OF assms write_keeps_handles(1) [OF w]] True w EvWrite by simp
    qed (use EvWrite assms in simp)
  qed (use changed grown grows_spiffs file_ops_keep_handle in simp_all)
qed

lemma flash_ok_run: "flash_ok st \<Longrightarrow> flash_ok (fs_run fresh evs st)"
proof (induction evs arbitrary: st)
  case Nil
  then show ?case by (simp add: fs_run_def)
next
  case (Cons ev evs)
  have "flash_ok (fs_event_step fresh ev st)"
    using flash_ok_step [of "fst st" "snd st"] Cons.prems by simp
  from Cons.IH [OF this] show ?case
    by (simp add: fs_run_def)
qed

lemma flash_ok_start: "flash_ok ([], fs_init)"
  by (simp add: flash_ok_def fs_ok_def fs_init_def)

section \<open>What a call leaves alone\<close>

lemma file_at_cong: "fs_names gs = fs_names fs \<Longrightarrow> fs_data gs = fs_data fs \<Longrightarrow> file_at gs = file_at fs"
  by (rule ext) (simp add: file_at_def)

lemma file_at_get_root: "file_at (snd (fs_get_root fresh fs)) = file_at fs"
  by (rule file_at_cong) (simp_all add: fs_get_root_def make_fresh_temp_dir_def add_dirs_def)

lemma file_at_resolve: "file_at (snd (fs_resolve fresh path fs)) = file_at fs"
  by (simp add: fs_resolve_def split_def Let_def file_at_get_root)

lemma file_at_set_root: "file_at (snd (fs_set_root created dir fs)) = file_at fs"
  by (rule file_at_cong) (simp_all add: fs_set_root_def create_dirs_def add_dirs_def)

lemma file_at_data:
  "fs_ok fs \<Longrightarrow> map_of (fs_names fs) p \<noteq> Some i \<Longrightarrow>
     file_at (fs\<lparr>fs_data := (fs_data fs)(i := d)\<rparr>) p = file_at fs p"
  by (cases "map_of (fs_names fs) p") (auto simp: file_at_def)

lemma file_at_open_place:
  assumes "fs_ok fs" and "q \<noteq> p"
  shows "file_at (snd (open_place k upd p fs)) q = file_at fs q"
proof (cases "map_of (fs_names fs) p")
  case None
  show ?thesis
    using None assms fs_ok_name [OF assms(1), of q]
    by (cases "map_of (fs_names fs) q") (auto simp: open_place_def file_at_def Let_def update_conv')
next
  case (Some i)
  then have "map_of (fs_names fs) q \<noteq> Some i"
    using fs_ok_inode_unique [OF assms(1)] assms(2) by blast
  then show ?thesis
    using Some file_at_data [OF assms(1)] by (simp add: open_place_def)
qed

lemma file_at_fopen: "fs_ok fs \<Longrightarrow> q \<noteq> leads_to path \<Longrightarrow> file_at (snd (c_fopen granted path mode fs)) q = file_at fs q"
  by (auto simp: c_fopen_def file_at_open_place split: option.splits dest: find_place_leads)

lemma file_at_remove: "q \<noteq> leads_to path \<Longrightarrow> file_at (snd (remove_place allowed path fs)) q = file_at fs q"
  by (auto simp: remove_place_def file_at_def delete_filter map_of_filter_key split: option.splits
      dest: find_place_leads)

lemma entries_below: "e \<in> set (entries_of d fs) \<Longrightarrow> strict_suffix d e"
proof -
  assume "e \<in> set (entries_of d fs)"
  then obtain p where "strict_suffix d p" and e: "e = drop (length p - length d - 1) p"
    by (auto simp: entries_of_def)
  then obtain q where "p = q @ d" "q \<noteq> []"
    by (auto simp: strict_suffix_def suffix_def)
  from \<open>q \<noteq> []\<close> have "length q - 1 < length q"
    by simp
  with e \<open>p = q @ d\<close> have "e = drop (length q - 1) q @ d" "drop (length q - 1) q \<noteq> []"
    by simp_all
  then show ?thesis
    by (auto simp: strict_suffix_def suffix_def)
qed

lemma file_at_format_loop:
  "list_all (strict_suffix d) ps \<Longrightarrow> \<not> strict_suffix d q \<Longrightarrow>
     file_at (snd (format_loop keeps ps ec fs)) q = file_at fs q"
proof (induction ps arbitrary: ec fs)
  case Nil
  then show ?case by simp
next
  case (Cons p ps)
  then have "\<not> suffix p q"
    using suffix_order.less_le_trans by auto
  then have "file_at (snd (remove_tree keeps p fs)) q = file_at fs q"
    by (simp add: remove_tree_def file_at_def map_of_filter_key)
  with Cons show ?case
    by (simp add: split_def Let_def)
qed

lemma file_at_format:
  assumes "\<not> strict_suffix (leads_to (fst (fs_get_root fresh fs))) q"
  shows "file_at (snd (spiffs_format listable keeps fresh fs)) q = file_at fs q"
proof -
  let ?d = "leads_to (fst (fs_get_root fresh fs))" and ?fs1 = "snd (fs_get_root fresh fs)"
  have "list_all (strict_suffix ?d) (entries_of ?d ?fs1)"
    by (auto simp: list_all_iff dest: entries_below)
  from file_at_format_loop [OF this assms] show ?thesis
    by (simp add: spiffs_format_def split_def file_at_get_root Let_def)
qed

lemma file_at_write:
  assumes "fs_ok fs" and "file_write_byte b (f, fs) = (n, f1, fs1)"
    and "\<And>h. fo_handle f = Some h \<Longrightarrow> map_of (fs_names fs) q \<noteq> Some (cf_inode h)"
  shows "file_at fs1 q = file_at fs q"
  using assms(2,3) file_at_data [OF assms(1)]
  by (auto simp: file_write_byte_def c_fputc_def Let_def split: option.splits if_splits prod.splits)

section \<open>The abstract store\<close>

text \<open>Names hold contents. \<open>granted\<close> and \<open>allowed\<close> are what the system answers.\<close>

datatype 'k store_op =
    Save bool 'k bytes
  | Append bool 'k bytes
  | Load bool 'k
  | Erase bool 'k
  | Exists 'k

datatype store_out = Stored "nat option" | Loaded "bytes option" | Erased bool | Present bool

primrec spec_op :: "'k store_op \<Rightarrow> ('k \<Rightarrow> bytes option) \<Rightarrow> store_out \<times> ('k \<Rightarrow> bytes option)" where
  "spec_op (Save granted k bs) m =
     (if granted then (Stored (Some (length bs)), m(k \<mapsto> bs)) else (Stored None, m))"
| "spec_op (Append granted k bs) m =
     (if granted then (Stored (Some (length bs)), m(k \<mapsto> (case m k of None \<Rightarrow> [] | Some d \<Rightarrow> d) @ bs))
      else (Stored None, m))"
| "spec_op (Load granted k) m = (Loaded (if granted then m k else None), m)"
| "spec_op (Erase allowed k) m =
     (Erased (allowed \<and> m k \<noteq> None), if allowed then m(k := None) else m)"
| "spec_op (Exists k) m = (Present (m k \<noteq> None), m)"

primrec run_ops :: "('op \<Rightarrow> 's \<Rightarrow> 'out \<times> 's) \<Rightarrow> 'op list \<Rightarrow> 's \<Rightarrow> 'out list \<times> 's" where
  "run_ops step [] s = ([], s)"
| "run_ops step (opr # oprs) s =
     (let (out, s1) = step opr s; (outs, s2) = run_ops step oprs s1 in (out # outs, s2))"

primrec key_of :: "'k store_op \<Rightarrow> 'k" where
  "key_of (Save granted k bs) = k"
| "key_of (Append granted k bs) = k"
| "key_of (Load granted k) = k"
| "key_of (Erase allowed k) = k"
| "key_of (Exists k) = k"

lemma spec_op_other: "k \<noteq> key_of opr \<Longrightarrow> snd (spec_op opr m) k = m k"
  by (cases opr) auto

lemma spec_op_own:
  "m (key_of opr) = m' (key_of opr) \<Longrightarrow>
     fst (spec_op opr m) = fst (spec_op opr m')
     \<and> snd (spec_op opr m) (key_of opr) = snd (spec_op opr m') (key_of opr)"
  by (cases opr) auto

text \<open>What a name holds depends on the calls on that name only.\<close>

lemma spec_run_own:
  "snd (run_ops spec_op oprs m) k = snd (run_ops spec_op (filter (\<lambda>opr. key_of opr = k) oprs) m') k"
  if "m k = m' k" for m m' :: "'k \<Rightarrow> bytes option"
  using that
proof (induction oprs arbitrary: m m')
  case Nil
  then show ?case by simp
next
  case (Cons opr oprs)
  show ?case
  proof (cases "key_of opr = k")
    case True
    then show ?thesis
      using Cons spec_op_own [of m opr m'] by (simp add: split_def Let_def)
  next
    case False
    then show ?thesis
      using Cons spec_op_other [of k opr m] by (simp add: split_def Let_def)
  qed
qed

lemma key_of_map: "key_of (map_store_op means opr) = means (key_of opr)"
  by (cases opr) simp_all

text \<open>An implementation: calls on \<open>'p\<close>, several of which may mean the same name.\<close>

locale file_store =
  fixes step :: "'p store_op \<Rightarrow> 's \<Rightarrow> store_out \<times> 's"
    and view :: "'s \<Rightarrow> 'k \<Rightarrow> bytes option"
    and means :: "'p \<Rightarrow> 'k"
    and usable :: "'p \<Rightarrow> bool"
    and invar :: "'s \<Rightarrow> bool"
  assumes step_ok: "invar s \<Longrightarrow> usable (key_of opr) \<Longrightarrow> invar (snd (step opr s))"
    and step_spec: "invar s \<Longrightarrow> usable (key_of opr) \<Longrightarrow>
      spec_op (map_store_op means opr) (view s) = (fst (step opr s), view (snd (step opr s)))"
begin

lemma run_refines:
  "invar s \<Longrightarrow> list_all (\<lambda>opr. usable (key_of opr)) oprs \<Longrightarrow>
     run_ops spec_op (map (map_store_op means) oprs) (view s)
       = (fst (run_ops step oprs s), view (snd (run_ops step oprs s)))
     \<and> invar (snd (run_ops step oprs s))"
proof (induction oprs arbitrary: s)
  case Nil
  then show ?case by simp
next
  case (Cons opr oprs)
  then show ?case
    using step_spec [of s opr] step_ok [of s opr] Cons.IH [of "snd (step opr s)"]
    by (simp add: split_def Let_def)
qed

lemma only_own_calls_matter:
  assumes "invar s" and "list_all (\<lambda>opr. usable (key_of opr)) oprs"
  shows "view (snd (run_ops step oprs s)) k
    = view (snd (run_ops step (filter (\<lambda>opr. means (key_of opr) = k) oprs) s)) k"
proof -
  have own: "filter (\<lambda>opr. key_of opr = k) (map (map_store_op means) oprs)
      = map (map_store_op means) (filter (\<lambda>opr. means (key_of opr) = k) oprs)"
    by (simp add: filter_map comp_def key_of_map)
  have "list_all (\<lambda>opr. usable (key_of opr)) (filter (\<lambda>opr. means (key_of opr) = k) oprs)"
    using assms(2) by (auto simp: list_all_iff)
  from run_refines [OF assms] run_refines [OF assms(1) this]
    spec_run_own [of "view s" k "view s" "map (map_store_op means) oprs"]
  show ?thesis
    unfolding own by (metis snd_conv)
qed

end

section \<open>The flash as a store\<close>

text \<open>
  How the firmware saves, appends, loads: it opens a file, writes or reads it and closes it. The
  result of \<open>Stored\<close> is what \<open>write\<close> returned, \<open>None\<close> where the file did not open.
\<close>

definition put_file :: "bool \<Rightarrow> string \<Rightarrow> string \<Rightarrow> c_string \<Rightarrow> bytes \<Rightarrow> host_fs \<Rightarrow> nat option \<times> host_fs" where
  "put_file granted fresh mode path bs fs =
     (let (f, fs1) = spiffs_open granted fresh path (Some mode) fs in
      if file_is_open f then let (n, f2, fs2) = file_write bs (f, fs1) in (Some n, fs2) else (None, fs1))"

definition get_file :: "bool \<Rightarrow> string \<Rightarrow> c_string \<Rightarrow> host_fs \<Rightarrow> bytes option \<times> host_fs" where
  "get_file granted fresh path fs =
     (let (f, fs1) = spiffs_open granted fresh path (Some ''r'') fs in
      (if file_is_open f then Some (bytes_of (value_of (fst (file_readString f fs1)))) else None, fs1))"

primrec flash_op :: "string \<Rightarrow> c_string store_op \<Rightarrow> host_fs \<Rightarrow> store_out \<times> host_fs" where
  "flash_op fresh (Save granted path bs) fs =
     (let (n, fs1) = put_file granted fresh ''w'' path bs fs in (Stored n, fs1))"
| "flash_op fresh (Append granted path bs) fs =
     (let (n, fs1) = put_file granted fresh ''a'' path bs fs in (Stored n, fs1))"
| "flash_op fresh (Load granted path) fs = (let (d, fs1) = get_file granted fresh path fs in (Loaded d, fs1))"
| "flash_op fresh (Erase allowed path) fs = (let (ok, fs1) = spiffs_remove allowed fresh path fs in (Erased ok, fs1))"
| "flash_op fresh (Exists path) fs = (let (ok, fs1) = spiffs_exists fresh path fs in (Present ok, fs1))"

text \<open>
  Which paths are file names under a root, given the directories there are; and the place each
  of them means.
\<close>

definition host_path :: "string \<Rightarrow> c_string \<Rightarrow> string" where
  "host_path root path = path_join root (strip_separators (cstr_or_empty path))"

definition file_name_at :: "string \<Rightarrow> place list \<Rightarrow> c_string \<Rightarrow> bool" where
  "file_name_at root dirs path \<longleftrightarrow>
     (case find_place (host_path root path) (fs_init\<lparr>fs_dirs := dirs\<rparr>) of
        None \<Rightarrow> False | Some p \<Rightarrow> p \<noteq> [] \<and> p \<notin> set dirs)"

definition rooted :: "string \<Rightarrow> place list \<Rightarrow> host_fs \<Rightarrow> bool" where
  "rooted root dirs fs \<longleftrightarrow> fs_ok fs \<and> g_root fs = root \<and> root \<noteq> [] \<and> nul_free root \<and> fs_dirs fs = dirs"

lemma nul_free_strip: "nul_free s \<Longrightarrow> nul_free (strip_separators s)"
  by (induction s) auto

lemma nul_free_cstr: "nul_free (cstr_or_empty path)"
  by (simp add: cstr_or_empty_def split: option.split)

lemma nul_free_host_path: "nul_free root \<Longrightarrow> nul_free (host_path root path)"
  using nul_free_strip [OF nul_free_cstr] by (simp add: host_path_def path_join_def)

lemma rooted_resolve: "rooted root dirs fs \<Longrightarrow> fs_resolve fresh (cstr_or_empty path) fs = (host_path root path, fs)"
  by (simp add: rooted_def fs_resolve_def fs_get_root_def host_path_def Let_def)

lemma rooted_find:
  assumes "rooted root dirs fs" and "file_name_at root dirs path"
  shows "find_place (host_path root path) fs = Some (leads_to (host_path root path))"
    and "\<not> is_dir (leads_to (host_path root path)) fs"
proof -
  have same: "find_place (host_path root path) fs = find_place (host_path root path) (fs_init\<lparr>fs_dirs := dirs\<rparr>)"
    using assms(1) by (intro find_place_cong) (simp add: rooted_def)
  with assms(2) obtain p where p: "find_place (host_path root path) fs = Some p" "p \<noteq> []" "p \<notin> set dirs"
    by (auto simp: file_name_at_def split: option.splits)
  with find_place_leads [OF p(1)] assms(1) show
    "find_place (host_path root path) fs = Some (leads_to (host_path root path))"
    "\<not> is_dir (leads_to (host_path root path)) fs"
    by (simp_all add: is_dir_def rooted_def)
qed

lemma rooted_open:
  assumes "rooted root dirs fs" and "file_name_at root dirs path"
    and "parse_mode (to_binary_fopen_mode (Some mode)) = Some (k, upd)"
  shows "spiffs_open granted fresh path (Some mode) fs =
    (let (h, fs1) = (if granted then open_place k upd (leads_to (host_path root path)) fs else (None, fs))
     in (\<lparr>fo_handle = h, fo_path = cstr_or_empty path\<rparr>, fs1))"
  using rooted_find [OF assms(1,2)] rooted_resolve [OF assms(1), of fresh path] assms(1,3)
    nul_free_host_path [of root path]
  by (simp add: spiffs_open_def c_fopen_def rooted_def)

lemma open_to_write:
  assumes "fs_ok fs" and "\<not> is_dir p fs" and "k = ModeW \<or> k = ModeA"
  obtains h fs1 where "open_place k False p fs = (Some h, fs1)" and "cf_writes h"
    and "cf_appends h \<or> cf_pos h = length (fs_data fs1 (cf_inode h))"
    and "map_of (fs_names fs1) p = Some (cf_inode h)"
    and "fs_data fs1 (cf_inode h) = (if k = ModeW then [] else case file_at fs p of None \<Rightarrow> [] | Some d \<Rightarrow> d)"
    and "fs_ok fs1" and "fs_dirs fs1 = fs_dirs fs" and "g_root fs1 = g_root fs"
    and "\<And>q. q \<noteq> p \<Longrightarrow> file_at fs1 q = file_at fs q"
proof -
  obtain h fs1 where opened: "open_place k False p fs = (Some h, fs1)"
    using assms(3) by (cases "map_of (fs_names fs) p") (auto simp: open_place_def Let_def)
  show ?thesis
  proof (rule that [OF opened])
    show "fs_ok fs1"
      using fs_ok_open_place [OF assms(1,2), of k False] opened by simp
    show "file_at fs1 q = file_at fs q" if "q \<noteq> p" for q
      using file_at_open_place [OF assms(1) that, of k False] opened by simp
  qed (use opened assms(3) in \<open>auto simp: open_place_def c_file_of_def file_at_def Let_def update_conv'
      split: option.splits if_splits\<close>)
qed

lemma put_file_result:
  assumes "rooted root dirs fs" and "file_name_at root dirs path"
    and "parse_mode (to_binary_fopen_mode (Some mode)) = Some (k, False)" and "k = ModeW \<or> k = ModeA"
  shows "fst (put_file True fresh mode path bs fs) = Some (length bs)
    \<and> rooted root dirs (snd (put_file True fresh mode path bs fs))
    \<and> file_at (snd (put_file True fresh mode path bs fs)) = (file_at fs)
        (leads_to (host_path root path) \<mapsto>
          (if k = ModeW then [] else case file_at fs (leads_to (host_path root path)) of None \<Rightarrow> [] | Some d \<Rightarrow> d) @ bs)"
proof -
  let ?p = "leads_to (host_path root path)"
  have ok: "fs_ok fs" "\<not> is_dir ?p fs"
    using assms(1) rooted_find(2) [OF assms(1,2)] by (simp_all add: rooted_def)
  from open_to_write [OF ok assms(4)] obtain h fs1 where h: "open_place k False ?p fs = (Some h, fs1)" "cf_writes h"
      "cf_appends h \<or> cf_pos h = length (fs_data fs1 (cf_inode h))"
    and name: "map_of (fs_names fs1) ?p = Some (cf_inode h)"
    and held: "fs_data fs1 (cf_inode h) = (if k = ModeW then [] else case file_at fs ?p of None \<Rightarrow> [] | Some d \<Rightarrow> d)"
    and ok1: "fs_ok fs1" and rest: "fs_dirs fs1 = fs_dirs fs" "g_root fs1 = g_root fs"
    and others: "\<And>q. q \<noteq> ?p \<Longrightarrow> file_at fs1 q = file_at fs q"
    by blast
  let ?f = "\<lparr>fo_handle = Some h, fo_path = cstr_or_empty path\<rparr>"
  let ?fs2 = "fs1\<lparr>fs_data := (fs_data fs1)(cf_inode h := fs_data fs1 (cf_inode h) @ bs)\<rparr>"
  obtain f2 where w: "file_write bs (?f, fs1) = (length bs, f2, ?fs2)"
    using file_write_end [of ?f h fs1 bs] h(2,3) by auto
  have put: "put_file True fresh mode path bs fs = (Some (length bs), ?fs2)"
    using rooted_open [OF assms(1-3), of True fresh] h(1) w by (simp add: put_file_def file_is_open_def)
  have "file_at ?fs2 q = ((file_at fs)(?p \<mapsto> fs_data fs1 (cf_inode h) @ bs)) q" for q
  proof (cases "q = ?p")
    case True
    then show ?thesis
      using name by (simp add: file_at_def)
  next
    case False
    then have "map_of (fs_names fs1) q \<noteq> Some (cf_inode h)"
      using fs_ok_inode_unique [OF ok1 name] by blast
    then show ?thesis
      using file_at_data [OF ok1] others False by simp
  qed
  then have "file_at ?fs2 = (file_at fs)(?p \<mapsto> fs_data fs1 (cf_inode h) @ bs)" ..
  moreover have "rooted root dirs ?fs2"
    using ok1 rest assms(1) by (simp add: rooted_def fs_ok_data)
  ultimately show ?thesis
    unfolding put held by simp
qed

lemma get_file_result:
  assumes "rooted root dirs fs" and "file_name_at root dirs path"
  shows "get_file True fresh path fs = (file_at fs (leads_to (host_path root path)), fs)"
proof -
  let ?p = "leads_to (host_path root path)"
  have mode: "parse_mode (to_binary_fopen_mode (Some ''r'')) = Some (ModeR, False)"
    by (simp add: to_binary_r parse_rb)
  show ?thesis
  proof (cases "map_of (fs_names fs) ?p")
    case None
    then show ?thesis
      using rooted_open [OF assms mode, of True fresh]
      by (simp add: get_file_def open_place_def file_is_open_def file_at_def)
  next
    case (Some i)
    let ?h = "c_file_of ModeR False i"
    let ?f = "\<lparr>fo_handle = Some ?h, fo_path = cstr_or_empty path\<rparr>"
    have "read_string_loop [] ?f fs = (text_of (fs_data fs i), ?f\<lparr>fo_handle := Some (?h\<lparr>cf_pos := length (fs_data fs i)\<rparr>)\<rparr>)"
      using read_string_loop_rest [of ?f ?h fs "[]"] by (simp add: c_file_of_def)
    then show ?thesis
      using rooted_open [OF assms mode, of True fresh] Some
      by (simp add: get_file_def open_place_def file_is_open_def file_at_def file_readString_def)
  qed
qed

lemma put_file_refused:
  assumes "rooted root dirs fs" and "file_name_at root dirs path"
    and "parse_mode (to_binary_fopen_mode (Some mode)) = Some (k, False)"
  shows "put_file False fresh mode path bs fs = (None, fs)"
  using rooted_open [OF assms, of False fresh] by (simp add: put_file_def file_is_open_def)

lemma get_file_refused:
  "rooted root dirs fs \<Longrightarrow> file_name_at root dirs path \<Longrightarrow> get_file False fresh path fs = (None, fs)"
  using rooted_open [of root dirs fs path "''r''" ModeR False False fresh]
  by (simp add: get_file_def file_is_open_def to_binary_r parse_rb)

lemma remove_result:
  assumes "rooted root dirs fs" and "file_name_at root dirs path"
  shows "fst (spiffs_remove allowed fresh path fs) =
      (allowed \<and> file_at fs (leads_to (host_path root path)) \<noteq> None)
    \<and> rooted root dirs (snd (spiffs_remove allowed fresh path fs))
    \<and> file_at (snd (spiffs_remove allowed fresh path fs)) =
      (if allowed then (file_at fs)(leads_to (host_path root path) := None) else file_at fs)"
proof -
  let ?p = "leads_to (host_path root path)"
  note found = rooted_find [OF assms] and path = rooted_resolve [OF assms(1), of fresh path]
  have code: "spiffs_remove allowed fresh path fs =
      (if allowed \<and> is_file ?p fs then (True, fs\<lparr>fs_names := AList.delete ?p (fs_names fs)\<rparr>) else (False, fs))"
    using found path by (auto simp: spiffs_remove_def remove_place_def is_dir_def)
  have gone: "file_at (fs\<lparr>fs_names := AList.delete ?p (fs_names fs)\<rparr>) = (file_at fs)(?p := None)"
    by (auto simp: fun_eq_iff file_at_def delete_filter map_of_filter_key)
  have absent: "(file_at fs)(?p := None) = file_at fs" if "\<not> is_file ?p fs"
    using that by (auto simp: fun_eq_iff file_at_def is_file_def)
  have ok: "rooted root dirs (fs\<lparr>fs_names := AList.delete ?p (fs_names fs)\<rparr>)"
    using assms(1) fs_ok_subset [of fs "fs\<lparr>fs_names := AList.delete ?p (fs_names fs)\<rparr>"]
    by (auto simp: rooted_def delete_filter)
  show ?thesis
    using code gone absent ok assms(1) by (auto simp: file_at_def is_file_def)
qed

lemma exists_result:
  assumes "rooted root dirs fs" and "file_name_at root dirs path"
  shows "spiffs_exists fresh path fs = (file_at fs (leads_to (host_path root path)) \<noteq> None, fs)"
  using rooted_find [OF assms] rooted_resolve [OF assms(1), of fresh path]
  by (simp add: spiffs_exists_def place_exists_def is_file_def file_at_def)

lemma flash_op_follows:
  assumes "rooted root dirs fs" and "file_name_at root dirs (key_of opr)"
  shows "rooted root dirs (snd (flash_op fresh opr fs))
    \<and> spec_op (map_store_op (\<lambda>path. leads_to (host_path root path)) opr) (file_at fs)
      = (fst (flash_op fresh opr fs), file_at (snd (flash_op fresh opr fs)))"
proof (cases opr)
  case (Save granted path bs)
  then show ?thesis
    using assms put_file_result [OF assms(1), of path "''w''" ModeW fresh bs]
      put_file_refused [OF assms(1), of path "''w''" ModeW fresh bs]
    by (cases granted) (auto simp: to_binary_w parse_wb split_def)
next
  case (Append granted path bs)
  then show ?thesis
    using assms put_file_result [OF assms(1), of path "''a''" ModeA fresh bs]
      put_file_refused [OF assms(1), of path "''a''" ModeA fresh bs]
    by (cases granted) (auto simp: to_binary_a parse_ab split_def)
next
  case (Load granted path)
  then show ?thesis
    using assms get_file_result [OF assms(1), of path fresh] get_file_refused [OF assms(1), of path fresh]
    by (cases granted) simp_all
next
  case (Erase allowed path)
  then show ?thesis
    using assms remove_result [OF assms(1), of path allowed fresh] by (auto simp: split_def)
next
  case (Exists path)
  then show ?thesis
    using assms exists_result [OF assms(1), of path fresh] by simp
qed

interpretation flash: file_store "flash_op fresh" file_at "\<lambda>path. leads_to (host_path root path)"
  "file_name_at root dirs" "rooted root dirs"
  by unfold_locales (use flash_op_follows in blast)+

section \<open>Directories\<close>

lemma set_root_known: "g_root fs \<noteq> [] \<Longrightarrow> fs_get_root fresh fs = (g_root fs, fs)"
  by (simp add: fs_get_root_def)

text \<open>Once the root is set no call but \<open>set_root\<close> makes a directory.\<close>

definition no_new_dirs :: "host_fs \<Rightarrow> host_fs \<Rightarrow> bool" where
  "no_new_dirs fs gs \<longleftrightarrow> g_root gs = g_root fs \<and> set (fs_dirs gs) \<subseteq> set (fs_dirs fs)"

lemma no_new_dirs_format_loop: "no_new_dirs fs (snd (format_loop keeps ps ec fs))"
proof (induction ps arbitrary: ec fs)
  case Nil
  show ?case by (simp add: no_new_dirs_def)
next
  case (Cons p ps)
  have "no_new_dirs fs (snd (remove_tree keeps p fs))"
    by (auto simp: no_new_dirs_def remove_tree_def)
  with Cons [of "snd (remove_tree keeps p fs)" "fst (remove_tree keeps p fs)"] show ?case
    by (auto simp: no_new_dirs_def split_def Let_def)
qed

lemma no_new_dirs_step:
  assumes "g_root fs \<noteq> []" and "\<And>created path. ev \<noteq> EvSetRoot created path"
  shows "no_new_dirs fs (snd (fs_event_step fresh ev (files, fs)))"
proof (cases ev)
  case (EvFormat listable keeps)
  then show ?thesis
    using no_new_dirs_format_loop [of fs] set_root_known [OF assms(1)]
    by (simp add: spiffs_format_def split_def Let_def no_new_dirs_def)
qed (use assms set_root_known [OF assms(1)] in \<open>auto simp: no_new_dirs_def spiffs_open_def spiffs_remove_def
    spiffs_exists_def spiffs_info_def spiffs_begin_def fs_resolve_def c_fopen_def open_place_def
    remove_place_def file_write_byte_def c_fputc_def split_def Let_def split: option.splits\<close>)

lemma no_new_dirs_run:
  assumes "g_root fs \<noteq> []" and "list_all (\<lambda>ev. \<forall>created path. ev \<noteq> EvSetRoot created path) evs"
  shows "no_new_dirs fs (snd (fs_run fresh evs (files, fs)))"
  using assms
proof (induction evs arbitrary: files fs)
  case Nil
  then show ?case by (simp add: fs_run_def no_new_dirs_def)
next
  case (Cons ev evs)
  obtain files1 fs1 where st: "fs_event_step fresh ev (files, fs) = (files1, fs1)"
    by (cases "fs_event_step fresh ev (files, fs)")
  then have one: "no_new_dirs fs fs1"
    using no_new_dirs_step [of fs ev fresh files] Cons.prems by simp
  then have "no_new_dirs fs1 (snd (fs_run fresh evs (files1, fs1)))"
    using Cons.prems by (intro Cons.IH) (simp_all add: no_new_dirs_def)
  with one st show ?case
    by (auto simp: no_new_dirs_def fs_run_def)
qed

text \<open>A path on which some step is no directory leads nowhere.\<close>

lemma find_place_blocked:
  assumes "\<not> is_dir (foldl walk [] (components a)) fs"
  shows "find_place (a @ CHR ''/'' # b) fs = None"
proof -
  obtain c cs where "components b = c # cs"
    by (cases "components b") (auto simp: components_def)
  with assms show ?thesis
    by (auto simp: find_place_def components_join walk_in_append dest: walk_in_leads split: option.split)
qed

lemma open_blocked:
  assumes "g_root fs \<noteq> []" and "nul_free (g_root fs)"
    and "find_place (host_path (g_root fs) path) fs = None"
  shows "spiffs_open granted fresh path mode fs = (\<lparr>fo_handle = None, fo_path = cstr_or_empty path\<rparr>, fs)"
  using assms nul_free_host_path [OF assms(2), of path]
  by (auto simp: spiffs_open_def fs_resolve_def set_root_known host_path_def c_fopen_def Let_def split: option.split)

text \<open>A format that meets no resistance.\<close>

lemma format_loop_all:
  "\<not> fst (format_loop (\<lambda>_. False) es False fs)
   \<and> fs_names (snd (format_loop (\<lambda>_. False) es ec fs)) = filter (\<lambda>(q, i). \<not> list_ex (\<lambda>e. suffix e q) es) (fs_names fs)
   \<and> fs_dirs (snd (format_loop (\<lambda>_. False) es ec fs)) = filter (\<lambda>q. \<not> list_ex (\<lambda>e. suffix e q) es) (fs_dirs fs)
   \<and> fs_data (snd (format_loop (\<lambda>_. False) es ec fs)) = fs_data fs
   \<and> g_root (snd (format_loop (\<lambda>_. False) es ec fs)) = g_root fs"
proof (induction es arbitrary: ec fs)
  case Nil
  show ?case by simp
next
  case (Cons e es)
  obtain fs1 where one: "remove_tree (\<lambda>_. False) e fs = (False, fs1)"
    and fs1: "fs1 = fs\<lparr>fs_names := filter (\<lambda>(q, i). \<not> suffix e q) (fs_names fs),
      fs_dirs := filter (\<lambda>q. \<not> suffix e q) (fs_dirs fs)\<rparr>"
    by (simp add: remove_tree_def list_ex_iff)
  have "filter (\<lambda>(q, i). \<not> list_ex (\<lambda>e. suffix e q) es) (fs_names fs1)
      = filter (\<lambda>(q, i). \<not> list_ex (\<lambda>e. suffix e q) (e # es)) (fs_names fs)"
    "filter (\<lambda>q. \<not> list_ex (\<lambda>e. suffix e q) es) (fs_dirs fs1) = filter (\<lambda>q. \<not> list_ex (\<lambda>e. suffix e q) (e # es)) (fs_dirs fs)"
    "fs_data fs1 = fs_data fs" "g_root fs1 = g_root fs"
    unfolding fs1 by (auto intro: filter_cong)
  then show ?case
    using Cons [of fs1 False] by (simp add: one)
qed

lemma entry_above:
  "p \<in> set (places fs) \<Longrightarrow> strict_suffix d p \<Longrightarrow> list_ex (\<lambda>e. suffix e p) (entries_of d fs)"
  by (auto simp: entries_of_def list_ex_iff suffix_drop)

lemma no_entry_above:
  assumes "\<not> strict_suffix d p"
  shows "\<not> list_ex (\<lambda>e. suffix e p) (entries_of d fs)"
proof
  assume "list_ex (\<lambda>e. suffix e p) (entries_of d fs)"
  then obtain e where "e \<in> set (entries_of d fs)" and "suffix e p"
    by (auto simp: list_ex_iff)
  with entries_below [of e d fs] assms show False
    using suffix_order.less_le_trans by auto
qed

section \<open>Properties\<close>

text \<open>
  C15: a call leaves every other file alone. In every state that calls can reach, the file at a
  place keeps its content, and its existence, through a call that does not concern it: one that
  does not open or remove a path leading there, write through an object open on it, or format
  the directory above it.
\<close>

theorem calls_leave_other_files_alone:
  assumes "st = fs_run fresh evs ([], fs_init)" and "\<not> concerns fresh ev st p"
  shows "file_at (snd (fs_event_step fresh ev st)) p = file_at (snd st) p"
proof -
  obtain files fs where st: "st = (files, fs)"
    by (cases st)
  have ok: "fs_ok fs"
    using flash_ok_run [OF flash_ok_start, of fresh evs] unfolding assms(1) [symmetric] st
    by (simp add: flash_ok_def)
  show ?thesis
  proof (cases ev)
    case (EvOpen granted path mode)
    have "fs_ok (snd (fs_resolve fresh (cstr_or_empty path) fs))"
      using ok grows_resolve by (auto simp: grows_def)
    then show ?thesis
      using EvOpen assms(2) st file_at_fopen by (simp add: spiffs_open_def split_def file_at_resolve Let_def)
  next
    case (EvWrite k b)
    then show ?thesis
      using assms(2) st file_at_write [OF ok, of b "files ! k" _ _ _ p]
      by (cases "file_write_byte b (files ! k, fs)") auto
  next
    case (EvRemove allowed path)
    then show ?thesis
      using assms(2) st by (simp add: spiffs_remove_def spiffs_place_def split_def Let_def file_at_remove file_at_resolve)
  next
    case (EvFormat listable keeps)
    then show ?thesis
      using assms(2) st by (simp add: file_at_format)
  qed (simp_all add: st spiffs_exists_def spiffs_info_def spiffs_begin_def split_def Let_def
      file_at_resolve file_at_get_root file_at_set_root)
qed

theorem calls_leave_other_files_alone_witness:
  "file_at (snd (fs_run ''/t'' [EvSetRoot True ''/d'', EvOpen True (Some ''/a'') (Some ''w''), EvWrite 0 65,
       EvOpen True (Some ''/b'') (Some ''w''), EvWrite 1 66] ([], fs_init))) [''a'', ''d''] = Some [65]"
proof -
  let ?evs = "[EvSetRoot True ''/d'', EvOpen True (Some ''/a'') (Some ''w''), EvWrite 0 65,
       EvOpen True (Some ''/b'') (Some ''w'')]"
  let ?st = "fs_run ''/t'' ?evs ([], fs_init)"
  have before: "file_at (snd ?st) [''a'', ''d''] = Some [65]"
    by code_simp
  have names: "map_of (fs_names (snd ?st)) [''a'', ''d''] = Some 0"
    "map_option cf_inode (fo_handle (fst ?st ! 1)) = Some 1"
    by code_simp+
  have "\<not> concerns ''/t'' (EvWrite 1 66) (fst ?st, snd ?st) [''a'', ''d'']"
    unfolding concerns.simps using names by auto
  then have "file_at (snd (fs_event_step ''/t'' (EvWrite 1 66) ?st)) [''a'', ''d''] = Some [65]"
    using calls_leave_other_files_alone [of ?st "''/t''" ?evs, OF refl] before by simp
  then show ?thesis
    by (simp add: fs_run_def)
qed

text \<open>
  C13: the flash is a store of named contents. Any sequence of saves, appends, loads, removals and
  existence tests, each made of the calls that the firmware makes for it, answers what the same
  sequence answers on a map from file names to contents, and leaves the host's files holding
  what the map holds, whichever of them the system refuses. Paths that lead to one place are one
  name; nothing is lost, truncated or translated on the way.
\<close>

theorem flash_refines_store:
  assumes "rooted root dirs fs" and "list_all (\<lambda>opr. file_name_at root dirs (key_of opr)) oprs"
  shows "run_ops spec_op (map (map_store_op (\<lambda>path. leads_to (host_path root path))) oprs) (file_at fs)
    = (fst (run_ops (flash_op fresh) oprs fs), file_at (snd (run_ops (flash_op fresh) oprs fs)))"
  using flash.run_refines [OF assms] by blast

theorem flash_refines_store_witness:
  "fst (run_ops (flash_op ''/t'') [Save True (Some ''/a'') [1, 2], Append True (Some ''a'') [13, 10],
        Load True (Some ''//a''), Load True (Some ''b''), Erase True (Some ''a''), Exists (Some ''a'')]
      (fs_init\<lparr>g_root := ''/d'', fs_dirs := [[''d'']]\<rparr>))
    = [Stored (Some 2), Stored (Some 2), Loaded (Some [1, 2, 13, 10]), Loaded None, Erased True, Present False]"
proof -
  let ?fs = "fs_init\<lparr>g_root := ''/d'', fs_dirs := [[''d'']]\<rparr>"
  let ?oprs = "[Save True (Some ''/a'') [1, 2], Append True (Some ''a'') [13, 10],
        Load True (Some ''//a''), Load True (Some ''b''), Erase True (Some ''a''), Exists (Some ''a'')]"
  have start: "rooted ''/d'' [[''d'']] ?fs"
    by (simp add: rooted_def fs_ok_def fs_init_def)
  have paths: "list_all (\<lambda>opr. file_name_at ''/d'' [[''d'']] (key_of opr)) ?oprs"
    by code_simp
  have means: "leads_to (host_path ''/d'' (Some ''/a'')) = [''a'', ''d'']"
    "leads_to (host_path ''/d'' (Some ''a'')) = [''a'', ''d'']"
    "leads_to (host_path ''/d'' (Some ''//a'')) = [''a'', ''d'']"
    "leads_to (host_path ''/d'' (Some ''b'')) = [''b'', ''d'']"
    by code_simp+
  have "file_at ?fs = (\<lambda>_. None)"
    by (simp add: fun_eq_iff file_at_def fs_init_def)
  then have "fst (run_ops spec_op (map (map_store_op (\<lambda>path. leads_to (host_path ''/d'' path))) ?oprs) (file_at ?fs))
      = [Stored (Some 2), Stored (Some 2), Loaded (Some [1, 2, 13, 10]), Loaded None, Erased True, Present False]"
    by (simp add: means)
  then show ?thesis
    using flash_refines_store [OF start paths, of "''/t''"] by (metis fst_conv)
qed

text \<open>
  C16: \<open>format\<close> empties the flash and touches nothing else. When nothing refuses to be deleted, it
  answers true, no file is left below the root, every file elsewhere keeps its content, the root
  directory itself stays, and \<open>info\<close> then reports no byte used of the 4 MiB.
\<close>

theorem format_empties_the_flash:
  assumes "g_root fs \<noteq> []" and "is_dir (leads_to (g_root fs)) fs" and "spiffs_format True (\<lambda>_. False) fresh fs = (ok, fs1)"
  shows "ok = True
    \<and> file_at fs1 = (\<lambda>p. if strict_suffix (leads_to (g_root fs)) p then None else file_at fs p)
    \<and> is_dir (leads_to (g_root fs)) fs1
    \<and> spiffs_info True fresh fs1 = (Some \<lparr>info_total = 4194304, info_used = 0\<rparr>, fs1)"
proof -
  let ?d = "leads_to (g_root fs)" and ?es = "entries_of (leads_to (g_root fs)) fs"
  have run: "ok = (\<not> fst (format_loop (\<lambda>_. False) ?es False fs))" "fs1 = snd (format_loop (\<lambda>_. False) ?es False fs)"
    using assms(2,3) set_root_known [OF assms(1), of fresh] by (auto simp: spiffs_format_def split_def Let_def)
  note all = format_loop_all [of ?es fs False, folded run(2)]
  have names: "map_of (fs_names fs1) p = (if strict_suffix ?d p then None else map_of (fs_names fs) p)" for p
  proof (cases "strict_suffix ?d p")
    case True
    then have "map_of (fs_names fs) p = None \<or> list_ex (\<lambda>e. suffix e p) ?es"
      using entry_above [of p fs ?d] by (auto simp: places_def map_of_eq_None_iff)
    then show ?thesis
      using True all by (auto simp: map_of_filter_key)
  next
    case False
    then show ?thesis
      using no_entry_above all by (simp add: map_of_filter_key)
  qed
  have "file_at fs1 p = (if strict_suffix ?d p then None else file_at fs p)" for p
    using names [of p] all by (simp add: file_at_def)
  moreover have dir: "is_dir ?d fs1"
    using assms(2) no_entry_above [of ?d ?d fs] all by (auto simp: is_dir_def)
  moreover have "filter (\<lambda>(p, i). strict_suffix ?d p) (fs_names fs1) = []"
    using entry_above [of _ fs ?d] all by (force simp: filter_empty_conv places_def)
  then have "spiffs_info True fresh fs1 = (Some \<lparr>info_total = 4194304, info_used = 0\<rparr>, fs1)"
    using dir all assms(1) by (simp add: spiffs_info_def fs_get_root_def spiffs_totalBytes_def)
  ultimately show ?thesis
    using run(1) all by auto
qed

theorem format_empties_the_flash_witness:
  "\<exists>fs1. spiffs_format True (\<lambda>_. False) ''/t'' (fs_init\<lparr>g_root := ''/d'', fs_dirs := [[''d'']],
       fs_names := [([''a'', ''d''], 0), ([''b''], 1)], fs_next := 2\<rparr>) = (True, fs1)
     \<and> file_at fs1 [''a'', ''d''] = None \<and> file_at fs1 [''b''] = Some []"
proof -
  let ?fs = "fs_init\<lparr>g_root := ''/d'', fs_dirs := [[''d'']], fs_names := [([''a'', ''d''], 0), ([''b''], 1)], fs_next := 2\<rparr>"
  have d: "leads_to ''/d'' = [''d'']"
    by code_simp
  obtain ok fs1 where run: "spiffs_format True (\<lambda>_. False) ''/t'' ?fs = (ok, fs1)"
    by (cases "spiffs_format True (\<lambda>_. False) ''/t'' ?fs")
  have "g_root ?fs \<noteq> []" "is_dir (leads_to (g_root ?fs)) ?fs"
    by (simp_all add: is_dir_def d)
  from format_empties_the_flash [OF this run] have ok: "ok = True"
    and files: "file_at fs1 = (\<lambda>p. if strict_suffix [''d''] p then None else file_at ?fs p)"
    by (simp_all add: d)
  have "file_at fs1 [''a'', ''d''] = None" "file_at fs1 [''b''] = Some []"
    unfolding files by (simp_all add: strict_suffix_def suffix_Cons file_at_def fs_init_def)
  with ok run show ?thesis
    by blast
qed

text \<open>
  C38: removing the empty path removes the flash. When no file is left, \<open>remove\<close> of \<open>/\<close> deletes the
  root directory itself and says so with true; after that \<open>begin\<close>, although it is there to make sure
  that the directory exists, answers true without it, and no path opens in any mode.
\<close>

theorem remove_slash_removes_the_flash:
  assumes "g_root fs \<noteq> []" and "last (g_root fs) \<noteq> CHR ''/''" and "nul_free (g_root fs)"
    and "find_place (g_root fs) fs = Some p" and "p \<in> set (fs_dirs fs)" and "p \<noteq> []" and "\<not> is_file p fs"
    and "entries_of p fs = []"
  shows "\<exists>fs1. spiffs_remove True fresh (Some ''/'') fs = (True, fs1)
    \<and> spiffs_begin fresh fs1 = (True, fs1) \<and> \<not> is_dir p fs1
    \<and> (\<forall>path mode granted. fo_handle (fst (spiffs_open granted fresh path mode fs1)) = None)"
proof -
  let ?root = "g_root fs"
  let ?fs1 = "fs\<lparr>fs_dirs := filter (\<lambda>q. q \<noteq> p) (fs_dirs fs)\<rparr>"
  have path: "host_path ?root path = ?root @ CHR ''/'' # strip_separators (cstr_or_empty path)" for path
    using assms(1,2) by (simp add: host_path_def path_join_def)
  have slash: "strip_separators (cstr_or_empty (Some ''/'')) = []"
    by (simp add: cstr_or_empty_def c_view_def is_separator_def)
  have p: "p = foldl walk [] (components ?root)"
    using find_place_leads [OF assms(4)] by (simp add: leads_to_def)
  have "components [] = [[]]"
    by (simp add: components_def)
  then have found: "find_place (?root @ ''/'') fs = Some p" "last (components (?root @ ''/'')) = []"
    using assms(1,4,5) components_join [of ?root "[]"]
    by (auto simp: find_place_def walk_in_append is_dir_def walk_def split: option.splits)
  have gone: "\<not> is_dir p ?fs1"
    using assms(6) by (simp add: is_dir_def)
  have "spiffs_remove True fresh (Some ''/'') fs = (True, ?fs1)"
    using found assms(5,7,8) path [of "Some ''/''"] slash set_root_known [OF assms(1), of fresh]
    by (simp add: spiffs_remove_def remove_place_def fs_resolve_def host_path_def Let_def)
  moreover have "spiffs_begin fresh ?fs1 = (True, ?fs1)"
    using assms(1) by (simp add: spiffs_begin_def fs_get_root_def)
  moreover have "fo_handle (fst (spiffs_open granted fresh path mode ?fs1)) = None" for granted path mode
    using open_blocked [of ?fs1 path granted fresh mode] find_place_blocked [of ?root ?fs1] gone assms(1,3)
    unfolding p by (simp add: path)
  ultimately show ?thesis
    using gone by blast
qed

theorem remove_slash_removes_the_flash_witness:
  "\<exists>fs1. spiffs_remove True ''/t'' (Some ''/'') (snd (fs_set_root True ''/d'' fs_init)) = (True, fs1)
     \<and> \<not> file_is_open (fst (spiffs_open True ''/t'' (Some ''/zphonebook.txt'') (Some ''w'') fs1))"
proof -
  let ?fs = "snd (fs_set_root True ''/d'' fs_init)"
  have "g_root ?fs = ''/d''" "find_place ''/d'' ?fs = Some [''d'']" "[''d''] \<in> set (fs_dirs ?fs)"
    "\<not> is_file [''d''] ?fs" "entries_of [''d''] ?fs = []"
    by code_simp+
  then show ?thesis
    using remove_slash_removes_the_flash [of ?fs "[''d'']" "''/t''"] by (auto simp: file_is_open_def)
qed

text \<open>
  The name space is not flat. A SPIFFS name may contain slashes like any other character; here
  a name with one inside asks for a directory of the host, and once the root is set no call of
  the flash makes one. So whatever was called before, it does not open, in no mode.
\<close>

theorem nested_names_never_open:
  assumes "g_root fs \<noteq> []" and "last (g_root fs) \<noteq> CHR ''/''" and "nul_free (g_root fs)"
    and "list_all (\<lambda>ev. \<forall>created path. ev \<noteq> EvSetRoot created path) evs"
    and "d \<noteq> []" and "list_all (\<lambda>c. \<not> is_separator c) d" and "nul_free d" and "nul_free x"
    and "\<not> is_dir (walk (leads_to (g_root fs)) d) fs"
  shows "fo_handle (fst (spiffs_open granted fresh (Some (CHR ''/'' # d @ CHR ''/'' # x)) mode
    (snd (fs_run fresh evs (files, fs))))) = None"
proof -
  let ?gs = "snd (fs_run fresh evs (files, fs))"
  have gs: "g_root ?gs = g_root fs" "set (fs_dirs ?gs) \<subseteq> set (fs_dirs fs)"
    using no_new_dirs_run [OF assms(1,4), of fresh files] by (simp_all add: no_new_dirs_def)
  obtain c cs where d: "d = c # cs" "\<not> is_separator c"
    using assms(5,6) by (cases d) auto
  have slashless: "CHR ''/'' \<notin> set d"
    using assms(6) by (auto simp: list_all_iff is_separator_def)
  have "nul_free (CHR ''/'' # d @ CHR ''/'' # x)"
    using assms(7,8) by simp
  then have "host_path (g_root fs) (Some (CHR ''/'' # d @ CHR ''/'' # x)) = (g_root fs @ CHR ''/'' # d) @ CHR ''/'' # x"
    using assms(1,2) d by (simp add: host_path_def path_join_def cstr_or_empty_def is_separator_def)
  moreover have "foldl walk [] (components (g_root fs @ CHR ''/'' # d)) = walk (leads_to (g_root fs)) d"
    using components_plain [OF slashless] by (simp add: components_join leads_to_def)
  ultimately have "find_place (host_path (g_root ?gs) (Some (CHR ''/'' # d @ CHR ''/'' # x))) ?gs = None"
    using find_place_blocked [of "g_root fs @ CHR ''/'' # d" ?gs x] assms(9) gs by (auto simp: is_dir_def)
  with open_blocked [of ?gs] gs(1) assms(1,3) show ?thesis
    by simp
qed

theorem nested_names_never_open_witness:
  "\<not> file_is_open (fst (spiffs_open True ''/t'' (Some ''/logs/a.txt'') (Some ''w'')
     (snd (fs_run ''/t'' [EvBegin] ([], snd (fs_set_root True ''/d'' fs_init))))))"
proof -
  let ?fs = "snd (fs_set_root True ''/d'' fs_init)"
  have "g_root ?fs = ''/d''" "\<not> is_dir (walk (leads_to ''/d'') ''logs'') ?fs"
    by code_simp+
  then show ?thesis
    using nested_names_never_open [of ?fs "[EvBegin]" "''logs''" "''a.txt''" True "''/t''" "Some ''w''" "[]"]
    by (simp add: file_is_open_def is_separator_def)
qed

end
