(* ===== verification/HostLives.thy ===== *)
theory HostLives
  imports HostAbi FlashSpec
begin

text \<open>
  The life of one modem after the other in one process: \<open>zimodem_host_create\<close> with a data
  directory, \<open>zimodem_host_start\<close>, what the firmware does with its files, \<open>zimodem_host_destroy\<close>.
  \<open>create\<close> points the flash at the directory with \<open>set_root\<close> of \<open>fs_root.cpp\<close>; what the firmware
  saved in one life is what it finds in a later one.
\<close>

section \<open>One life\<close>

datatype host_life =
  HostLife (life_dir: string) (life_inst: inst_ptr) (life_ops: "c_string store_op list")

text \<open>
  \<open>created\<close> is what the system answers to \<open>create_directories\<close>; \<open>None\<close> where a call fails. The
  firmware works on the files of the process, below the root that \<open>create\<close> has set.
\<close>

definition serve_life ::
  "string \<Rightarrow> bool \<Rightarrow> host_life \<Rightarrow> host \<Rightarrow> (store_out list \<times> host) option" where
  "serve_life fresh created l s =
     (case zimodem_host_create created (Some (life_inst l)) (Some (Some (life_dir l))) s of
        (Inr (Some h), s1) \<Rightarrow>
          (case zimodem_host_start True (Some h) s1 of
             (Inr r, s2) \<Rightarrow>
               if r \<noteq> 0 then None else
               let (outs, fs) = run_ops (flash_op fresh) (life_ops l) (hal_fs s2) in
               (case zimodem_host_destroy False (Some h) (s2\<lparr>hal_fs := fs\<rparr>) of
                  Inr s3 \<Rightarrow> Some (outs, s3)
                | _ \<Rightarrow> None)
           | _ \<Rightarrow> None)
      | _ \<Rightarrow> None)"

primrec serve_lives ::
  "string \<Rightarrow> host_life list \<Rightarrow> host \<Rightarrow> (store_out list list \<times> host) option" where
  "serve_lives fresh [] s = Some ([], s)"
| "serve_lives fresh (l # ls) s =
     (case serve_life fresh True l s of
        None \<Rightarrow> None
      | Some (outs, s1) \<Rightarrow> map_option (\<lambda>(outss, s2). (outs # outss, s2)) (serve_lives fresh ls s1))"

section \<open>The abstract store of the whole process\<close>

text \<open>Names are places of the host; a life's paths mean places below its data directory.\<close>

definition life_means :: "host_life \<Rightarrow> c_string \<Rightarrow> place" where
  "life_means l path = leads_to (host_path (c_view (life_dir l)) path)"

primrec spec_lives :: "host_life list \<Rightarrow> (place \<Rightarrow> bytes option) \<Rightarrow> store_out list list \<times> (place \<Rightarrow> bytes option)" where
  "spec_lives [] m = ([], m)"
| "spec_lives (l # ls) m =
     (let (outs, m1) = run_ops spec_op (map (map_store_op (life_means l)) (life_ops l)) m;
          (outss, m2) = spec_lives ls m1
      in (outs # outss, m2))"

text \<open>The directories that a life adds, and whether every path is a file name then.\<close>

definition life_dirs :: "host_life \<Rightarrow> place list \<Rightarrow> place list" where
  "life_dirs l dirs = List.union (suffixes (leads_to (c_view (life_dir l)))) dirs"

primrec names_ok :: "place list \<Rightarrow> host_life list \<Rightarrow> bool" where
  "names_ok dirs [] \<longleftrightarrow> True"
| "names_ok dirs (l # ls) \<longleftrightarrow>
     list_all (\<lambda>opr. file_name_at (c_view (life_dir l)) (life_dirs l dirs) (key_of opr)) (life_ops l)
     \<and> names_ok (life_dirs l dirs) ls"

section \<open>A life leaves its files behind\<close>

lemma set_root_rooted:
  assumes "fs_ok fs" and "root \<noteq> []" and "nul_free root" and "fs_set_root True root fs = (True, fs1)"
  shows "rooted root (List.union (suffixes (leads_to root)) (fs_dirs fs)) fs1 \<and> file_at fs1 = file_at fs"
proof -
  have none: "list_all (\<lambda>d. \<not> is_file d (fs\<lparr>g_root := root\<rparr>)) (suffixes (leads_to root))"
    and fs1: "fs1 = add_dirs (leads_to root) (fs\<lparr>g_root := root\<rparr>)"
    using assms(4) by (auto simp: fs_set_root_def create_dirs_def split: if_splits)
  have all: "filter (\<lambda>d. \<not> is_file d (fs\<lparr>g_root := root\<rparr>)) (suffixes (leads_to root)) = suffixes (leads_to root)"
    using none by (simp add: list_all_iff filter_id_conv)
  have "fs_ok (fs\<lparr>g_root := root\<rparr>)"
    using assms(1) grows_same_files(1) by (auto simp: grows_def)
  then have "fs_ok fs1"
    unfolding fs1 by (rule fs_ok_add_dirs)
  moreover have "file_at fs1 = file_at fs"
    using file_at_set_root [of True root fs] assms(4) by simp
  ultimately show ?thesis
    using assms(2,3) all by (simp add: rooted_def fs1 add_dirs_def)
qed

lemma serve_life_spec:
  assumes ok: "fs_ok (hal_fs s)" and run: "serve_life fresh True l s = Some (outs, s')"
    and names: "list_all (\<lambda>opr. file_name_at (c_view (life_dir l)) (life_dirs l (fs_dirs (hal_fs s))) (key_of opr)) (life_ops l)"
  shows "run_ops spec_op (map (map_store_op (life_means l)) (life_ops l)) (file_at (hal_fs s)) = (outs, file_at (hal_fs s'))
    \<and> fs_ok (hal_fs s') \<and> fs_dirs (hal_fs s') = life_dirs l (fs_dirs (hal_fs s)) \<and> g_active_instance s' = None"
proof -
  let ?root = "c_view (life_dir l)"
  obtain fs1 where set: "fs_set_root True ?root (hal_fs s) = (True, fs1)" and root: "?root \<noteq> []"
    and fs': "(outs, hal_fs s') = run_ops (flash_op fresh) (life_ops l) fs1"
    and s': "g_active_instance s' = None"
    using run
    by (auto simp: serve_life_def zimodem_host_create_def zimodem_host_start_def zimodem_host_destroy_def Let_def
        prod_eq_iff split: if_splits prod.splits sum.splits option.splits)
  have "rooted ?root (life_dirs l (fs_dirs (hal_fs s))) fs1" and same: "file_at fs1 = file_at (hal_fs s)"
    using set_root_rooted [OF ok root _ set] by (simp_all add: life_dirs_def)
  from flash.run_refines [OF this(1) names, of fresh] fs' [symmetric] same s' show ?thesis
    by (simp add: life_means_def [abs_def] rooted_def)
qed

text \<open>Where files may come to lie, and data directories that stay clear of them.\<close>

definition life_places :: "host_life list \<Rightarrow> place set" where
  "life_places ls = (\<Union>l \<in> set ls. (life_means l \<circ> key_of) ` set (life_ops l))"

definition dir_clear :: "place set \<Rightarrow> host_life \<Rightarrow> bool" where
  "dir_clear F l \<longleftrightarrow> c_view (life_dir l) \<noteq> [] \<and> set (suffixes (leads_to (c_view (life_dir l)))) \<inter> F = {}"

lemma serve_life_succeeds:
  assumes "dir_clear F l" and "dom (file_at (hal_fs s)) \<subseteq> F" and "g_active_instance s = None"
  shows "\<exists>outs s'. serve_life fresh True l s = Some (outs, s')"
proof -
  let ?root = "c_view (life_dir l)"
  have "list_all (\<lambda>d. \<not> is_file d ((hal_fs s)\<lparr>g_root := ?root\<rparr>)) (suffixes (leads_to ?root))"
    using assms(1,2) unfolding dir_clear_def list_all_iff
    by (auto simp: is_file_def file_at_def dom_def disjoint_iff subset_iff)
  then have "fst (fs_set_root True ?root (hal_fs s))"
    by (simp add: fs_set_root_def create_dirs_def)
  with assms(1,3) show ?thesis
    by (cases "run_ops (flash_op fresh) (life_ops l) (snd (fs_set_root True ?root (hal_fs s)))")
      (simp add: serve_life_def dir_clear_def zimodem_host_create_def zimodem_host_start_def zimodem_host_destroy_def
        new_instance_def Let_def split_def)
qed

lemma spec_run_dom:
  "dom (snd (run_ops spec_op oprs m)) \<subseteq> dom m \<union> key_of ` set oprs"
proof (induction oprs arbitrary: m)
  case Nil
  then show ?case
    by simp
next
  case (Cons opr oprs)
  have "dom (snd (spec_op opr m)) \<subseteq> insert (key_of opr) (dom m)"
    using spec_op_other [of _ opr m] by (auto simp: dom_def)
  with Cons [of "snd (spec_op opr m)"] show ?case
    by (auto simp: split_def Let_def)
qed

lemma serve_lives_spec:
  assumes "fs_ok (hal_fs s)" and "names_ok (fs_dirs (hal_fs s)) ls" and "g_active_instance s = None"
    and "dom (file_at (hal_fs s)) \<subseteq> F" and "life_places ls \<subseteq> F" and "list_all (dir_clear F) ls"
  shows "\<exists>outss s'. serve_lives fresh ls s = Some (outss, s')
    \<and> spec_lives ls (file_at (hal_fs s)) = (outss, file_at (hal_fs s')) \<and> g_active_instance s' = None"
  using assms
proof (induction ls arbitrary: s)
  case Nil
  then show ?case
    by simp
next
  case (Cons l ls)
  obtain outs s1 where one: "serve_life fresh True l s = Some (outs, s1)"
    using serve_life_succeeds [of F l s fresh] Cons.prems by auto
  have life: "run_ops spec_op (map (map_store_op (life_means l)) (life_ops l)) (file_at (hal_fs s))
      = (outs, file_at (hal_fs s1))"
    "fs_ok (hal_fs s1)" "fs_dirs (hal_fs s1) = life_dirs l (fs_dirs (hal_fs s))" "g_active_instance s1 = None"
    using serve_life_spec [OF Cons.prems(1) one] Cons.prems(2) by simp_all
  have "dom (file_at (hal_fs s1)) \<subseteq> dom (file_at (hal_fs s)) \<union> (life_means l \<circ> key_of) ` set (life_ops l)"
    using spec_run_dom [of "map (map_store_op (life_means l)) (life_ops l)" "file_at (hal_fs s)"] life(1)
    by (simp add: image_image key_of_map comp_def)
  moreover have "(life_means l \<circ> key_of) ` set (life_ops l) \<subseteq> F"
    using Cons.prems(5) by (simp add: life_places_def)
  ultimately have "dom (file_at (hal_fs s1)) \<subseteq> F"
    using Cons.prems(4) by blast
  then obtain outss s' where "serve_lives fresh ls s1 = Some (outss, s')"
    "spec_lives ls (file_at (hal_fs s1)) = (outss, file_at (hal_fs s'))" "g_active_instance s' = None"
    using Cons.IH [of s1] Cons.prems life by (auto simp: life_places_def)
  with one life(1) show ?case
    by simp
qed

section \<open>Property\<close>

text \<open>
  C14: what one modem saves the next one finds. Let a process create a modem with a data directory,
  start it, let its firmware save, append, load, erase and look for files, and destroy it, again
  and again, with whatever directories. Where the names are plain and no data directory leads
  through a file, every call of the interface succeeds, and all lives together answer what one
  store of contents by place answers: a life finds under its directory what earlier lives with that
  directory left there, and none sees or changes what lives with another directory saved. After
  the last life no instance is active.
\<close>

theorem files_survive_the_modem:
  assumes "fs_ok (hal_fs s)" and "names_ok (fs_dirs (hal_fs s)) ls" and "g_active_instance s = None"
    and "list_all (dir_clear (dom (file_at (hal_fs s)) \<union> life_places ls)) ls"
  shows "\<exists>outss s'. serve_lives fresh ls s = Some (outss, s')
    \<and> spec_lives ls (file_at (hal_fs s)) = (outss, file_at (hal_fs s')) \<and> g_active_instance s' = None"
  using serve_lives_spec [OF assms(1-3) _ _ assms(4)] by blast

theorem files_survive_the_modem_witness:
  "\<exists>s'. serve_lives ''/t'' [HostLife ''/d'' 1 [Save True (Some ''/cfg'') [65, 66]],
        HostLife ''/e'' 1 [Exists (Some ''/cfg''), Save True (Some ''/cfg'') [67]],
        HostLife ''/d'' 2 [Append True (Some ''cfg'') [68], Load True (Some ''/cfg'')]] host_init
      = Some ([[Stored (Some 2)], [Present False, Stored (Some 1)], [Stored (Some 1), Loaded (Some [65, 66, 68])]], s')"
proof -
  let ?ls = "[HostLife ''/d'' 1 [Save True (Some ''/cfg'') [65, 66]],
        HostLife ''/e'' 1 [Exists (Some ''/cfg''), Save True (Some ''/cfg'') [67]],
        HostLife ''/d'' 2 [Append True (Some ''cfg'') [68], Load True (Some ''/cfg'')]] :: host_life list"
  have names: "names_ok (fs_dirs (hal_fs host_init)) ?ls"
    by code_simp
  have start: "fs_ok (hal_fs host_init)" "g_active_instance host_init = None" "file_at (hal_fs host_init) = (\<lambda>_. None)"
    by (simp_all add: fs_ok_def fs_init_def host_init_def file_at_def fun_eq_iff)
  have "life_places ?ls = {[''cfg'', ''d''], [''cfg'', ''e'']}" "leads_to ''/d'' = [''d'']" "leads_to ''/e'' = [''e'']"
    by code_simp+
  then have "list_all (dir_clear (dom (file_at (hal_fs host_init)) \<union> life_places ?ls)) ?ls"
    by (simp add: dir_clear_def start(3))
  from files_survive_the_modem [OF start(1) names start(2) this, of "''/t''"]
  obtain outss s' where run: "serve_lives ''/t'' ?ls host_init = Some (outss, s')"
    and spec: "fst (spec_lives ?ls (\<lambda>_. None)) = outss"
    unfolding start(3) by (metis fst_conv)
  moreover have "fst (spec_lives ?ls (\<lambda>_. None))
      = [[Stored (Some 2)], [Present False, Stored (Some 1)], [Stored (Some 1), Loaded (Some [65, 66, 68])]]"
    by code_simp
  ultimately show ?thesis
    by (metis (no_types))
qed

end
