(* ===== verification/Net.thy ===== *)
theory Net
  imports Interfaces
begin

text \<open>
  \<open>native/hal/src/net.cpp\<close>: \<open>resolve_ipv4\<close> and the classes \<open>TcpSocket\<close>,
  \<open>TcpListener\<close> and \<open>UdpSocket\<close> over the operating system's socket calls. Those calls are
  a parameter, a record \<open>net_api\<close> of functions on an unknown world \<open>'w\<close>; the hypotheses
  about them are \<open>stream_os\<close> (a TCP stream delivers its bytes in order) and
  \<open>handle_os\<close> (only \<open>socket\<close> and \<open>accept\<close> make descriptors, only \<open>close\<close> ends them).
  The calls are those of POSIX, and theory \<open>NetPlatform\<close> has the definitions that differ on Windows;
  ports are in host order (\<open>htons\<close> is the caller's).
\<close>

section \<open>The operating system's calls\<close>

datatype sock_type = SOCK_STREAM | SOCK_DGRAM

datatype sock_opt = SO_REUSEADDR | TCP_NODELAY bool

text \<open>\<open>Received []\<close> is the end of the stream; the two failures differ in \<open>errno\<close>.\<close>

datatype recv_result = Received bytes | RecvWouldBlock | RecvFailed

record 'w net_api =
  inet_pton :: "string \<Rightarrow> u32 option"
  getaddrinfo :: "string \<Rightarrow> 'w \<Rightarrow> u32 option \<times> 'w"
  os_socket :: "sock_type \<Rightarrow> 'w \<Rightarrow> int \<times> 'w"
  os_setsockopt :: "int \<Rightarrow> sock_opt \<Rightarrow> 'w \<Rightarrow> 'w"
  os_bind :: "int \<Rightarrow> u16 \<Rightarrow> 'w \<Rightarrow> int \<times> 'w"
  os_listen :: "int \<Rightarrow> int \<Rightarrow> 'w \<Rightarrow> int \<times> 'w"
  os_connect :: "int \<Rightarrow> u32 \<Rightarrow> u16 \<Rightarrow> 'w \<Rightarrow> int \<times> 'w"
  os_accept :: "int \<Rightarrow> 'w \<Rightarrow> int \<times> 'w"
  os_close :: "int \<Rightarrow> 'w \<Rightarrow> 'w"
  os_set_non_blocking :: "int \<Rightarrow> 'w \<Rightarrow> 'w"
  os_fionread :: "int \<Rightarrow> 'w \<Rightarrow> int option"
  os_recv :: "int \<Rightarrow> nat \<Rightarrow> bool \<Rightarrow> 'w \<Rightarrow> recv_result \<times> 'w"
  os_send :: "int \<Rightarrow> bytes \<Rightarrow> 'w \<Rightarrow> int \<times> 'w"
  os_select :: "int \<Rightarrow> 'w \<Rightarrow> int"
  os_getsockname :: "int \<Rightarrow> 'w \<Rightarrow> u16 option"
  os_getpeername :: "int \<Rightarrow> 'w \<Rightarrow> u32 option"
  os_sendto :: "int \<Rightarrow> bytes \<Rightarrow> u32 \<Rightarrow> u16 \<Rightarrow> 'w \<Rightarrow> int \<times> 'w"
  os_recvfrom :: "int \<Rightarrow> nat \<Rightarrow> 'w \<Rightarrow> recv_result \<times> 'w"

definition kInvalid :: int where
  "kInvalid = - 1"

text \<open>The \<open>int\<close> that \<open>recv\<close> returns, and \<open>would_block()\<close> after it.\<close>

definition recv_int :: "recv_result \<Rightarrow> int" where
  "recv_int r = (case r of Received bs \<Rightarrow> int_of_size (length bs) | _ \<Rightarrow> - 1)"

definition recv_bytes :: "recv_result \<Rightarrow> bytes" where
  "recv_bytes r = (case r of Received bs \<Rightarrow> bs | _ \<Rightarrow> [])"

definition would_block :: "recv_result \<Rightarrow> bool" where
  "would_block r \<longleftrightarrow> r = RecvWouldBlock"

lemma recv_simps [simp]:
  "recv_int RecvWouldBlock = - 1"
  "recv_int RecvFailed = - 1"
  "recv_int (Received bs) = int_of_size (length bs)"
  "recv_bytes RecvWouldBlock = []"
  "recv_bytes RecvFailed = []"
  "recv_bytes (Received bs) = bs"
  "would_block RecvWouldBlock"
  "\<not> would_block RecvFailed"
  "\<not> would_block (Received bs)"
  by (simp_all add: recv_int_def recv_bytes_def would_block_def)

definition bytes_available_native :: "'w net_api \<Rightarrow> int \<Rightarrow> 'w \<Rightarrow> int" where
  "bytes_available_native api fd w = (case os_fionread api fd w of Some n \<Rightarrow> n | None \<Rightarrow> 0)"

section \<open>Resolving a host\<close>

definition resolve_ipv4 :: "'w net_api \<Rightarrow> string \<Rightarrow> 'w \<Rightarrow> u32 option \<times> 'w" where
  "resolve_ipv4 api host w =
     (case inet_pton api (c_view host) of
        Some addr \<Rightarrow> (Some addr, w)
      | None \<Rightarrow> getaddrinfo api (c_view host) w)"

section \<open>TcpSocket\<close>

record tcp_socket =
  tcp_handle :: int
  tcp_peeked :: int

definition tcp_new :: tcp_socket where
  "tcp_new = \<lparr>tcp_handle = kInvalid, tcp_peeked = - 1\<rparr>"

definition tcp_adopt :: "int \<Rightarrow> tcp_socket" where
  "tcp_adopt native_handle = \<lparr>tcp_handle = native_handle, tcp_peeked = - 1\<rparr>"

definition tcp_is_open :: "tcp_socket \<Rightarrow> bool" where
  "tcp_is_open s \<longleftrightarrow> tcp_handle s \<noteq> kInvalid"

definition tcp_close :: "'w net_api \<Rightarrow> tcp_socket \<Rightarrow> 'w \<Rightarrow> tcp_socket \<times> 'w" where
  "tcp_close api s w =
     (let (s1, w1) =
        (if tcp_is_open s
         then (s\<lparr>tcp_handle := kInvalid\<rparr>, os_close api (tcp_handle s) w)
         else (s, w))
      in (s1\<lparr>tcp_peeked := - 1\<rparr>, w1))"

text \<open>The destructors close.\<close>

definition tcp_destroy :: "'w net_api \<Rightarrow> tcp_socket \<Rightarrow> 'w \<Rightarrow> 'w" where
  "tcp_destroy net s w = snd (tcp_close net s w)"

text \<open>Move construction: the new object, and what is left of the other.\<close>

definition tcp_move_ctor :: "tcp_socket \<Rightarrow> tcp_socket \<times> tcp_socket" where
  "tcp_move_ctor other =
     (\<lparr>tcp_handle = tcp_handle other, tcp_peeked = tcp_peeked other\<rparr>,
      other\<lparr>tcp_handle := kInvalid, tcp_peeked := - 1\<rparr>)"

text \<open>Move assignment, \<open>same\<close> saying that both sides are one object: (this, other, world).\<close>

definition tcp_move_assign ::
  "'w net_api \<Rightarrow> bool \<Rightarrow> tcp_socket \<Rightarrow> tcp_socket \<Rightarrow> 'w \<Rightarrow> tcp_socket \<times> tcp_socket \<times> 'w" where
  "tcp_move_assign api same this other w =
     (if same then (this, other, w)
      else
        let (this1, w1) = tcp_close api this w;
            this2 = this1\<lparr>tcp_handle := tcp_handle other, tcp_peeked := tcp_peeked other\<rparr>
        in (this2, other\<lparr>tcp_handle := kInvalid, tcp_peeked := - 1\<rparr>, w1))"

definition tcp_connect ::
  "'w net_api \<Rightarrow> string \<Rightarrow> u16 \<Rightarrow> tcp_socket \<Rightarrow> 'w \<Rightarrow> bool \<times> tcp_socket \<times> 'w" where
  "tcp_connect api host port s w =
     (let (s1, w1) = tcp_close api s w in
      case resolve_ipv4 api host w1 of
        (None, w2) \<Rightarrow> (False, s1, w2)
      | (Some addr, w2) \<Rightarrow>
          let (fd, w3) = os_socket api SOCK_STREAM w2 in
          if fd = kInvalid then (False, s1, w3)
          else
            let (rc, w4) = os_connect api fd addr port w3 in
            if rc \<noteq> 0 then (False, s1, os_close api fd w4)
            else (True, s1\<lparr>tcp_handle := fd\<rparr>, os_set_non_blocking api fd w4))"

definition tcp_connected :: "'w net_api \<Rightarrow> tcp_socket \<Rightarrow> 'w \<Rightarrow> bool \<times> 'w" where
  "tcp_connected api s w =
     (if \<not> tcp_is_open s then (False, w)
      else
        let (r, w1) = os_recv api (tcp_handle s) 1 True w; n = recv_int r in
        if n = 0 then (False, w1)
        else if n < 0 \<and> \<not> would_block r then (False, w1)
        else (True, w1))"

definition tcp_available :: "'w net_api \<Rightarrow> tcp_socket \<Rightarrow> 'w \<Rightarrow> int" where
  "tcp_available api s w =
     (if \<not> tcp_is_open s then 0
      else bytes_available_native api (tcp_handle s) w + (if 0 \<le> tcp_peeked s then 1 else 0))"

text \<open>The result of \<open>read\<close>, the bytes it stored at the front of \<open>buf\<close>, the rest.\<close>

definition tcp_read ::
  "'w net_api \<Rightarrow> nat \<Rightarrow> tcp_socket \<Rightarrow> 'w \<Rightarrow> int \<times> bytes \<times> tcp_socket \<times> 'w" where
  "tcp_read api len s w =
     (if \<not> tcp_is_open s \<or> len = 0 then (0, [], s, w)
      else
        let (buf, s1) =
          (if 0 \<le> tcp_peeked s then ([word_of_int (tcp_peeked s)], s\<lparr>tcp_peeked := - 1\<rparr>)
           else ([], s))
        in
        if 0 \<le> tcp_peeked s \<and> length buf = len then (int_of_size (length buf), buf, s1, w)
        else
          let (r, w1) = os_recv api (tcp_handle s1) (len - length buf) False w;
              n = recv_int r; buf1 = buf @ recv_bytes r
          in
          if 0 < n then (int_of_size (length buf) + n, buf1, s1, w1)
          else if n = 0 then (if 0 < length buf then int_of_size (length buf) else - 1, buf1, s1, w1)
          else (if would_block r then int_of_size (length buf) else - 1, buf1, s1, w1))"

definition tcp_peek_byte :: "'w net_api \<Rightarrow> tcp_socket \<Rightarrow> 'w \<Rightarrow> int \<times> tcp_socket \<times> 'w" where
  "tcp_peek_byte api s w =
     (if 0 \<le> tcp_peeked s then (tcp_peeked s, s, w)
      else
        let (n, buf, s1, w1) = tcp_read api 1 s w in
        if n = 1 then (uint (hd buf), s1\<lparr>tcp_peeked := uint (hd buf)\<rparr>, w1)
        else (- 1, s1, w1))"

definition tcp_write :: "'w net_api \<Rightarrow> bytes \<Rightarrow> tcp_socket \<Rightarrow> 'w \<Rightarrow> nat \<times> 'w" where
  "tcp_write api bs s w =
     (if \<not> tcp_is_open s \<or> length bs = 0 then (0, w)
      else
        let (n, w1) = os_send api (tcp_handle s) bs w in
        (if 0 < n then nat n else 0, w1))"

definition tcp_set_no_delay :: "'w net_api \<Rightarrow> bool \<Rightarrow> tcp_socket \<Rightarrow> 'w \<Rightarrow> 'w" where
  "tcp_set_no_delay api enable s w =
     (if \<not> tcp_is_open s then w else os_setsockopt api (tcp_handle s) (TCP_NODELAY enable) w)"

definition tcp_flush :: "tcp_socket \<Rightarrow> tcp_socket" where
  "tcp_flush s = s"

definition tcp_local_port :: "'w net_api \<Rightarrow> tcp_socket \<Rightarrow> 'w \<Rightarrow> u16" where
  "tcp_local_port api s w =
     (if \<not> tcp_is_open s then 0
      else case os_getsockname api (tcp_handle s) w of None \<Rightarrow> 0 | Some port \<Rightarrow> port)"

definition tcp_remote_ip :: "'w net_api \<Rightarrow> tcp_socket \<Rightarrow> 'w \<Rightarrow> u32" where
  "tcp_remote_ip api s w =
     (if \<not> tcp_is_open s then 0
      else case os_getpeername api (tcp_handle s) w of None \<Rightarrow> 0 | Some addr \<Rightarrow> addr)"

section \<open>TcpListener\<close>

record tcp_listener =
  lst_handle :: int

definition lst_new :: tcp_listener where
  "lst_new = \<lparr>lst_handle = - 1\<rparr>"

definition lst_close :: "'w net_api \<Rightarrow> tcp_listener \<Rightarrow> 'w \<Rightarrow> tcp_listener \<times> 'w" where
  "lst_close api l w =
     (if lst_handle l \<noteq> kInvalid
      then (l\<lparr>lst_handle := - 1\<rparr>, os_close api (lst_handle l) w)
      else (l, w))"

definition lst_destroy :: "'w net_api \<Rightarrow> tcp_listener \<Rightarrow> 'w \<Rightarrow> 'w" where
  "lst_destroy api l w = snd (lst_close api l w)"

definition lst_listen :: "'w net_api \<Rightarrow> u16 \<Rightarrow> tcp_listener \<Rightarrow> 'w \<Rightarrow> bool \<times> tcp_listener \<times> 'w" where
  "lst_listen api port l w =
     (let (l1, w1) = lst_close api l w; (fd, w2) = os_socket api SOCK_STREAM w1 in
      if fd = kInvalid then (False, l1, w2)
      else
        let w3 = os_setsockopt api fd SO_REUSEADDR w2;
            (bound, w4) = os_bind api fd port w3
        in
        if bound \<noteq> 0 then (False, l1, os_close api fd w4)
        else
          let (listening, w5) = os_listen api fd 8 w4 in
          if listening \<noteq> 0 then (False, l1, os_close api fd w5)
          else (True, l1\<lparr>lst_handle := fd\<rparr>, os_set_non_blocking api fd w5))"

definition lst_has_pending_client :: "'w net_api \<Rightarrow> tcp_listener \<Rightarrow> 'w \<Rightarrow> bool" where
  "lst_has_pending_client api l w \<longleftrightarrow>
     (if lst_handle l = kInvalid then False else 0 < os_select api (lst_handle l) w)"

definition lst_accept :: "'w net_api \<Rightarrow> tcp_listener \<Rightarrow> 'w \<Rightarrow> tcp_socket \<times> 'w" where
  "lst_accept api l w =
     (if \<not> lst_has_pending_client api l w then (tcp_adopt kInvalid, w)
      else
        let (fd, w1) = os_accept api (lst_handle l) w in
        if fd = kInvalid then (tcp_adopt kInvalid, w1)
        else (tcp_adopt fd, os_set_non_blocking api fd w1))"

section \<open>UdpSocket\<close>

record udp_socket =
  udp_handle :: int
  pending_host :: string
  pending_port :: u16
  send_buffer :: bytes
  recv_buffer :: bytes
  recv_pos :: nat

definition udp_new :: udp_socket where
  "udp_new = \<lparr>udp_handle = - 1, pending_host = [], pending_port = 0,
              send_buffer = [], recv_buffer = [], recv_pos = 0\<rparr>"

definition udp_close :: "'w net_api \<Rightarrow> udp_socket \<Rightarrow> 'w \<Rightarrow> udp_socket \<times> 'w" where
  "udp_close api u w =
     (let (u1, w1) =
        (if udp_handle u \<noteq> kInvalid
         then (u\<lparr>udp_handle := - 1\<rparr>, os_close api (udp_handle u) w)
         else (u, w))
      in (u1\<lparr>recv_buffer := [], recv_pos := 0\<rparr>, w1))"

definition udp_destroy :: "'w net_api \<Rightarrow> udp_socket \<Rightarrow> 'w \<Rightarrow> 'w" where
  "udp_destroy api u w = snd (udp_close api u w)"

definition udp_begin :: "'w net_api \<Rightarrow> u16 \<Rightarrow> udp_socket \<Rightarrow> 'w \<Rightarrow> bool \<times> udp_socket \<times> 'w" where
  "udp_begin api local_port u w =
     (let (u1, w1) = udp_close api u w; (fd, w2) = os_socket api SOCK_DGRAM w1 in
      if fd = kInvalid then (False, u1, w2)
      else
        let (bound, w3) = os_bind api fd local_port w2 in
        if bound \<noteq> 0 then (False, u1, os_close api fd w3)
        else (True, u1\<lparr>udp_handle := fd\<rparr>, os_set_non_blocking api fd w3))"

definition udp_begin_packet :: "string \<Rightarrow> u16 \<Rightarrow> udp_socket \<Rightarrow> bool \<times> udp_socket" where
  "udp_begin_packet host port u =
     (True, u\<lparr>pending_host := host, pending_port := port, send_buffer := []\<rparr>)"

definition udp_write :: "bytes \<Rightarrow> udp_socket \<Rightarrow> nat \<times> udp_socket" where
  "udp_write bs u = (length bs, u\<lparr>send_buffer := send_buffer u @ bs\<rparr>)"

definition udp_end_packet :: "'w net_api \<Rightarrow> udp_socket \<Rightarrow> 'w \<Rightarrow> bool \<times> udp_socket \<times> 'w" where
  "udp_end_packet api u w =
     (if udp_handle u = kInvalid then (False, u, w)
      else
        case resolve_ipv4 api (pending_host u) w of
          (None, w1) \<Rightarrow> (False, u, w1)
        | (Some addr, w1) \<Rightarrow>
            let (n, w2) = os_sendto api (udp_handle u) (send_buffer u) addr (pending_port u) w1
            in (0 \<le> n, u\<lparr>send_buffer := []\<rparr>, w2))"

definition udp_parse_packet :: "'w net_api \<Rightarrow> udp_socket \<Rightarrow> 'w \<Rightarrow> int \<times> udp_socket \<times> 'w" where
  "udp_parse_packet api u w =
     (if udp_handle u = kInvalid then (0, u, w)
      else
        let (r, w1) = os_recvfrom api (udp_handle u) 2048 w; n = recv_int r in
        if n \<le> 0 then (0, u\<lparr>recv_buffer := [], recv_pos := 0\<rparr>, w1)
        else (n, u\<lparr>recv_buffer := recv_bytes r, recv_pos := 0\<rparr>, w1))"

definition udp_read :: "nat \<Rightarrow> udp_socket \<Rightarrow> int \<times> bytes \<times> udp_socket" where
  "udp_read len u =
     (let remaining = length (recv_buffer u) - recv_pos u;
          n = (if len < remaining then len else remaining)
      in if n = 0 then (0, [], u)
         else (int_of_size n, take n (drop (recv_pos u) (recv_buffer u)),
               u\<lparr>recv_pos := recv_pos u + n\<rparr>))"

section \<open>The byte stream of a TCP socket\<close>

text \<open>
  What is documented of \<open>recv\<close> on a stream socket: it takes a prefix of the bytes the peer
  sent and this end has not taken, at most as many as asked for; peeking takes none.
\<close>

definition stream_os :: "'w net_api \<Rightarrow> int \<Rightarrow> ('w \<Rightarrow> bytes) \<Rightarrow> bool" where
  "stream_os api fd pending \<longleftrightarrow>
     (\<forall>n w. length (recv_bytes (fst (os_recv api fd n False w))) \<le> n
        \<and> pending w = recv_bytes (fst (os_recv api fd n False w)) @ pending (snd (os_recv api fd n False w))
        \<and> pending (snd (os_recv api fd n True w)) = pending w)"

text \<open>The pushed-back byte, if any, stands before what the system still holds.\<close>

definition tcp_stream :: "('w \<Rightarrow> bytes) \<Rightarrow> tcp_socket \<Rightarrow> 'w \<Rightarrow> bytes" where
  "tcp_stream pending s w =
     (if 0 \<le> tcp_peeked s then [word_of_int (tcp_peeked s)] else []) @ pending w"

definition tcp_inv :: "tcp_socket \<Rightarrow> bool" where
  "tcp_inv s \<longleftrightarrow> - 1 \<le> tcp_peeked s \<and> tcp_peeked s < 256 \<and> (\<not> tcp_is_open s \<longrightarrow> tcp_peeked s = - 1)"

lemma int_of_size_0 [simp]: "int_of_size 0 = 0"
  by (simp add: int_of_size_def)

lemma int_of_size_1 [simp]: "int_of_size (Suc 0) = 1"
  by (simp add: int_of_size_small)

lemma tcp_read_inv:
  assumes "tcp_inv s" and "tcp_read api len s w = (r, buf, s', w')"
  shows "tcp_inv s' \<and> tcp_handle s' = tcp_handle s"
  using assms
  by (auto simp: tcp_read_def tcp_inv_def tcp_is_open_def Let_def split_def split: if_splits)

text \<open>Whatever \<open>read\<close> returns, the bytes it stored are the next ones of the stream.\<close>

lemma tcp_read_stream:
  assumes os: "stream_os api (tcp_handle s) pending"
    and run: "tcp_read api len s w = (r, buf, s', w')"
  shows "tcp_stream pending s w = buf @ tcp_stream pending s' w' \<and> length buf \<le> len"
proof -
  have take: "pending v = recv_bytes (fst (os_recv api (tcp_handle s) n False v))
        @ pending (snd (os_recv api (tcp_handle s) n False v))"
    and bound: "length (recv_bytes (fst (os_recv api (tcp_handle s) n False v))) \<le> n" for n v
    using os unfolding stream_os_def by blast+
  show ?thesis
    using run take [of w "len - 1"] bound [of "len - 1" w] take [of w len] bound [of len w]
    by (auto simp: tcp_read_def tcp_stream_def Let_def split_def split: if_splits)
qed

lemma tcp_read_count:
  assumes os: "stream_os api (tcp_handle s) pending"
    and run: "tcp_read api len s w = (r, buf, s', w')" and len: "len < 2147483648" and ok: "r \<noteq> - 1"
  shows "r = int (length buf)"
proof -
  have bound: "length (recv_bytes (fst (os_recv api (tcp_handle s) n False w))) \<le> n" for n
    using os unfolding stream_os_def by blast
  show ?thesis
    using run ok bound [of "len - 1"] bound [of len] len
    by (auto simp: tcp_read_def Let_def split_def int_of_size_small recv_int_def recv_bytes_def
        split: if_splits recv_result.splits)
qed

lemma tcp_peek_stream:
  assumes inv: "tcp_inv s" and os: "stream_os api (tcp_handle s) pending"
    and run: "tcp_peek_byte api s w = (v, s', w')"
  shows "tcp_inv s' \<and> tcp_handle s' = tcp_handle s
    \<and> tcp_stream pending s' w' = tcp_stream pending s w
    \<and> (if v = - 1 then tcp_peeked s' = - 1 else v = tcp_peeked s' \<and> tcp_is_open s')"
proof (cases "0 \<le> tcp_peeked s")
  case True
  with inv run show ?thesis
    by (auto simp: tcp_peek_byte_def tcp_inv_def)
next
  case False
  obtain n buf s1 w1 where one: "tcp_read api 1 s w = (n, buf, s1, w1)"
    by (cases "tcp_read api 1 s w")
  have peeked: "tcp_peeked s1 = - 1" and same: "s1 = s"
    using one False inv by (auto simp: tcp_read_def tcp_inv_def Let_def split_def split: if_splits)
  have len: "length buf \<le> 1" and stream: "tcp_stream pending s w = buf @ tcp_stream pending s1 w1"
    using tcp_read_stream [OF os one] by simp_all
  show ?thesis
  proof (cases "n = 1")
    case True
    then have one_byte: "length buf = 1"
      using tcp_read_count [OF os one] by simp
    then obtain b where buf: "buf = [b]"
      by (cases buf) simp_all
    have opened: "tcp_is_open s"
      using one True by (auto simp: tcp_read_def split: if_splits)
    have "uint b < 256"
      using uint_lt2p [of b] by simp
    moreover have "- 1 \<le> uint b"
      by (rule order_trans [OF _ uint_ge_0]) simp
    moreover have "s' = s1\<lparr>tcp_peeked := uint b\<rparr>" "w' = w1" "v = uint b"
      using run False one True buf by (auto simp: tcp_peek_byte_def Let_def)
    ultimately show ?thesis
      using stream opened same False by (simp add: tcp_inv_def tcp_stream_def tcp_is_open_def buf)
  next
    case no: False
    have "buf = []"
    proof (rule ccontr)
      assume "buf \<noteq> []"
      with len have "length buf = 1"
        by (cases buf) simp_all
      with no one False show False
        by (auto simp: tcp_read_def recv_int_def recv_bytes_def Let_def split_def
            split: if_splits recv_result.splits)
    qed
    moreover have "s' = s1" "w' = w1" "v = - 1"
      using run False one no by (auto simp: tcp_peek_byte_def Let_def)
    ultimately show ?thesis
      using stream peeked same inv by simp
  qed
qed

text \<open>A client that asks, peeks and reads in any order.\<close>

definition tcp_step ::
  "'w net_api \<Rightarrow> source_op \<Rightarrow> tcp_socket \<times> 'w \<Rightarrow> (int \<times> bytes) \<times> tcp_socket \<times> 'w" where
  "tcp_step api opr st =
     (let (s, w) = st in
      case opr of
        Available \<Rightarrow> ((tcp_available api s w, []), s, w)
      | PeekByte \<Rightarrow> let (v, s1, w1) = tcp_peek_byte api s w in ((v, []), s1, w1)
      | ReadInto len \<Rightarrow> let (r, buf, s1, w1) = tcp_read api len s w in ((r, buf), s1, w1))"

fun small_read :: "source_op \<Rightarrow> bool" where
  "small_read (ReadInto len) \<longleftrightarrow> len < 2147483648"
| "small_read opr \<longleftrightarrow> True"

fun keeps_bytes :: "int \<times> bytes \<Rightarrow> bool" where
  "keeps_bytes (r, buf) \<longleftrightarrow> (r = - 1 \<longrightarrow> buf = [])"

definition tcp_valid :: "'w net_api \<Rightarrow> ('w \<Rightarrow> bytes) \<Rightarrow> tcp_socket \<times> 'w \<Rightarrow> bool" where
  "tcp_valid api pending st \<longleftrightarrow> tcp_inv (fst st) \<and> stream_os api (tcp_handle (fst st)) pending"

lemma tcp_step_stream:
  assumes inv: "tcp_inv s" and os: "stream_os api (tcp_handle s) pending" and small: "small_read opr"
    and run: "tcp_step api opr (s, w) = ((r, buf), s', w')"
  shows "tcp_inv s' \<and> tcp_handle s' = tcp_handle s
    \<and> (keeps_bytes (r, buf) \<longrightarrow> tcp_stream pending s w = take (nat r) buf @ tcp_stream pending s' w')"
proof (cases opr)
  case Available
  then show ?thesis
    using run inv by (auto simp: tcp_step_def)
next
  case PeekByte
  then show ?thesis
    using run tcp_peek_stream [OF inv os] by (auto simp: tcp_step_def split: prod.splits)
next
  case (ReadInto len)
  then have one: "tcp_read api len s w = (r, buf, s', w')"
    using run by (auto simp: tcp_step_def split: prod.splits)
  moreover have "r \<noteq> - 1 \<Longrightarrow> take (nat r) buf = buf"
    using tcp_read_count [OF os one] small ReadInto by simp
  ultimately show ?thesis
    using tcp_read_inv [OF inv one] tcp_read_stream [OF os one] by auto
qed

interpretation tcp_source: byte_source "\<lambda>st. tcp_stream pending (fst st) (snd st)"
    "tcp_valid api pending" small_read keeps_bytes "tcp_step api"
proof
  fix st opr out st'
  assume valid: "tcp_valid api pending st" and small: "small_read opr" and run: "tcp_step api opr st = (out, st')"
  obtain s w r buf s' w' where names: "st = (s, w)" "out = (r, buf)" "st' = (s', w')"
    by (cases st; cases out; cases st')
  note one = tcp_step_stream [OF _ _ small run [unfolded names], of pending]
  show "tcp_valid api pending st'"
    using one valid names by (simp add: tcp_valid_def)
  assume "keeps_bytes out"
  then show "tcp_stream pending (fst st) (snd st) = obtained [out] @ tcp_stream pending (fst st') (snd st')"
    using one valid names by (simp add: tcp_valid_def)
qed

section \<open>Who owns which descriptor\<close>

text \<open>
  What is documented of descriptors: \<open>socket\<close> and \<open>accept\<close> return one that was not open, or
  \<open>-1\<close>; \<open>close\<close> ends the one it is given; nothing else the code calls opens or closes any.
\<close>

definition owned :: "int \<Rightarrow> int set" where
  "owned h = {h} - {kInvalid}"

definition fresh_handle :: "('w \<Rightarrow> int set) \<Rightarrow> 'w \<Rightarrow> int \<times> 'w \<Rightarrow> bool" where
  "fresh_handle opens w res \<longleftrightarrow>
     opens (snd res) = opens w \<union> owned (fst res) \<and> owned (fst res) \<inter> opens w = {}"

definition handle_os :: "'w net_api \<Rightarrow> ('w \<Rightarrow> int set) \<Rightarrow> bool" where
  "handle_os api opens \<longleftrightarrow>
     (\<forall>k w. fresh_handle opens w (os_socket api k w)) \<and>
     (\<forall>fd w. fresh_handle opens w (os_accept api fd w)) \<and>
     (\<forall>fd w. opens (os_close api fd w) = opens w - {fd}) \<and>
     (\<forall>host w. opens (snd (getaddrinfo api host w)) = opens w) \<and>
     (\<forall>fd opt w. opens (os_setsockopt api fd opt w) = opens w) \<and>
     (\<forall>fd port w. opens (snd (os_bind api fd port w)) = opens w) \<and>
     (\<forall>fd n w. opens (snd (os_listen api fd n w)) = opens w) \<and>
     (\<forall>fd a p w. opens (snd (os_connect api fd a p w)) = opens w) \<and>
     (\<forall>fd w. opens (os_set_non_blocking api fd w) = opens w) \<and>
     (\<forall>fd n b w. opens (snd (os_recv api fd n b w)) = opens w) \<and>
     (\<forall>fd bs w. opens (snd (os_send api fd bs w)) = opens w) \<and>
     (\<forall>fd bs a p w. opens (snd (os_sendto api fd bs a p w)) = opens w) \<and>
     (\<forall>fd n w. opens (snd (os_recvfrom api fd n w)) = opens w)"

lemma owned_simps [simp]:
  "owned kInvalid = {}"
  "owned (- 1) = {}"
  "h \<noteq> kInvalid \<Longrightarrow> owned h = {h}"
  by (auto simp: owned_def kInvalid_def)

text \<open>
  An operation hands descriptors over: the object owned \<open>h\<close> before and owns \<open>h'\<close> after it,
  and every descriptor of somebody else is as open as it was.
\<close>

definition hands_over :: "('w \<Rightarrow> int set) \<Rightarrow> int \<Rightarrow> 'w \<Rightarrow> int \<Rightarrow> 'w \<Rightarrow> bool" where
  "hands_over opens h w h' w' \<longleftrightarrow>
     opens w' - owned h' = opens w - owned h \<and> owned h' \<subseteq> opens w'"

lemma hands_over_refl: "owned h \<subseteq> opens w \<Longrightarrow> opens w' = opens w \<Longrightarrow> hands_over opens h w h w'"
  by (simp add: hands_over_def)

lemma hands_over_trans:
  "hands_over opens h w h1 w1 \<Longrightarrow> hands_over opens h1 w1 h2 w2 \<Longrightarrow> hands_over opens h w h2 w2"
  by (simp add: hands_over_def)

lemmas handle_os_unfolded = handle_os_def fresh_handle_def hands_over_def

lemma resolve_opens:
  "handle_os api opens \<Longrightarrow> opens (snd (resolve_ipv4 api host w)) = opens w"
  by (simp add: handle_os_def resolve_ipv4_def split: option.split)

lemma tcp_close_hands_over:
  "handle_os api opens \<Longrightarrow> owned (tcp_handle s) \<subseteq> opens w \<Longrightarrow> tcp_close api s w = (s', w') \<Longrightarrow>
     hands_over opens (tcp_handle s) w kInvalid w' \<and> tcp_handle s' = kInvalid \<and> tcp_peeked s' = - 1"
  by (auto simp: tcp_close_def tcp_is_open_def handle_os_unfolded split: if_splits)

lemma tcp_connect_hands_over:
  assumes os: "handle_os api opens" and own: "owned (tcp_handle s) \<subseteq> opens w"
    and run: "tcp_connect api host port s w = (b, s', w')"
  shows "hands_over opens (tcp_handle s) w (tcp_handle s') w' \<and> (b \<longleftrightarrow> tcp_is_open s')
    \<and> tcp_peeked s' = - 1"
proof -
  obtain s1 w1 where closed: "tcp_close api s w = (s1, w1)"
    by (cases "tcp_close api s w")
  have start: "hands_over opens (tcp_handle s) w kInvalid w1" and s1: "tcp_handle s1 = kInvalid"
    and p1: "tcp_peeked s1 = - 1"
    using tcp_close_hands_over [OF os own closed] by simp_all
  obtain addr w2 where res: "resolve_ipv4 api host w1 = (addr, w2)"
    by (cases "resolve_ipv4 api host w1")
  have w2: "opens w2 = opens w1"
    using resolve_opens [OF os, of host w1] res by simp
  obtain fd w3 where sock: "os_socket api SOCK_STREAM w2 = (fd, w3)"
    by (cases "os_socket api SOCK_STREAM w2")
  have fresh: "fresh_handle opens w2 (fd, w3)"
    using os sock unfolding handle_os_def by metis
  have "hands_over opens kInvalid w1 (tcp_handle s') w' \<and> (b \<longleftrightarrow> tcp_is_open s') \<and> tcp_peeked s' = - 1"
  proof (cases addr)
    case None
    then show ?thesis
      using run closed res s1 p1 w2 by (auto simp: tcp_connect_def hands_over_def tcp_is_open_def)
  next
    case (Some a)
    obtain rc w4 where conn: "os_connect api fd a port w3 = (rc, w4)"
      by (cases "os_connect api fd a port w3")
    have w4: "opens w4 = opens w3"
      using os conn unfolding handle_os_def by (metis snd_conv)
    show ?thesis
      using run closed res sock conn s1 p1 w2 w4 fresh os Some
      by (auto simp: tcp_connect_def fresh_handle_def hands_over_def handle_os_def tcp_is_open_def
          split: if_splits)
  qed
  with start show ?thesis
    by (simp add: hands_over_def)
qed

lemma lst_close_hands_over:
  "handle_os api opens \<Longrightarrow> owned (lst_handle l) \<subseteq> opens w \<Longrightarrow> lst_close api l w = (l', w') \<Longrightarrow>
     hands_over opens (lst_handle l) w kInvalid w' \<and> lst_handle l' = kInvalid"
  by (auto simp: lst_close_def handle_os_unfolded kInvalid_def split: if_splits)

lemma lst_listen_hands_over:
  assumes os: "handle_os api opens" and own: "owned (lst_handle l) \<subseteq> opens w"
    and run: "lst_listen api port l w = (b, l', w')"
  shows "hands_over opens (lst_handle l) w (lst_handle l') w' \<and> (b \<longleftrightarrow> lst_handle l' \<noteq> kInvalid)"
proof -
  obtain l1 w1 where closed: "lst_close api l w = (l1, w1)"
    by (cases "lst_close api l w")
  have start: "hands_over opens (lst_handle l) w kInvalid w1" and l1: "lst_handle l1 = kInvalid"
    using lst_close_hands_over [OF os own closed] by simp_all
  obtain fd w2 where sock: "os_socket api SOCK_STREAM w1 = (fd, w2)"
    by (cases "os_socket api SOCK_STREAM w1")
  have fresh: "fresh_handle opens w1 (fd, w2)"
    using os sock unfolding handle_os_def by metis
  let ?w3 = "os_setsockopt api fd SO_REUSEADDR w2"
  obtain rb w4 where bnd: "os_bind api fd port ?w3 = (rb, w4)"
    by (cases "os_bind api fd port ?w3")
  obtain rl w5 where lis: "os_listen api fd 8 w4 = (rl, w5)"
    by (cases "os_listen api fd 8 w4")
  have "opens ?w3 = opens w2" "opens w4 = opens ?w3" "opens w5 = opens w4"
    using os bnd lis unfolding handle_os_def by (metis snd_conv)+
  then have "hands_over opens kInvalid w1 (lst_handle l') w' \<and> (b \<longleftrightarrow> lst_handle l' \<noteq> kInvalid)"
    using run closed sock bnd lis l1 fresh os
    by (auto simp: lst_listen_def fresh_handle_def hands_over_def handle_os_def Let_def split: if_splits)
  with start show ?thesis
    by (simp add: hands_over_def)
qed

lemma lst_accept_fresh:
  assumes os: "handle_os api opens" and run: "lst_accept api l w = (s, w')"
  shows "fresh_handle opens w (tcp_handle s, w') \<and> tcp_peeked s = - 1"
proof -
  obtain fd w1 where acc: "os_accept api (lst_handle l) w = (fd, w1)"
    by (cases "os_accept api (lst_handle l) w")
  have "fresh_handle opens w (fd, w1)"
    using os acc unfolding handle_os_def by metis
  then show ?thesis
    using run os acc
    by (auto simp: lst_accept_def tcp_adopt_def fresh_handle_def handle_os_def split: if_splits)
qed

lemma udp_close_hands_over:
  "handle_os api opens \<Longrightarrow> owned (udp_handle u) \<subseteq> opens w \<Longrightarrow> udp_close api u w = (u', w') \<Longrightarrow>
     hands_over opens (udp_handle u) w kInvalid w' \<and> udp_handle u' = kInvalid"
  by (auto simp: udp_close_def handle_os_unfolded kInvalid_def split: if_splits)

lemma udp_begin_hands_over:
  assumes os: "handle_os api opens" and own: "owned (udp_handle u) \<subseteq> opens w"
    and run: "udp_begin api port u w = (b, u', w')"
  shows "hands_over opens (udp_handle u) w (udp_handle u') w' \<and> (b \<longleftrightarrow> udp_handle u' \<noteq> kInvalid)"
proof -
  obtain u1 w1 where closed: "udp_close api u w = (u1, w1)"
    by (cases "udp_close api u w")
  have start: "hands_over opens (udp_handle u) w kInvalid w1" and u1: "udp_handle u1 = kInvalid"
    using udp_close_hands_over [OF os own closed] by simp_all
  obtain fd w2 where sock: "os_socket api SOCK_DGRAM w1 = (fd, w2)"
    by (cases "os_socket api SOCK_DGRAM w1")
  have fresh: "fresh_handle opens w1 (fd, w2)"
    using os sock unfolding handle_os_def by metis
  obtain rb w3 where bnd: "os_bind api fd port w2 = (rb, w3)"
    by (cases "os_bind api fd port w2")
  have "opens w3 = opens w2"
    using os bnd unfolding handle_os_def by (metis snd_conv)
  then have "hands_over opens kInvalid w1 (udp_handle u') w' \<and> (b \<longleftrightarrow> udp_handle u' \<noteq> kInvalid)"
    using run closed sock bnd u1 fresh os
    by (auto simp: udp_begin_def fresh_handle_def hands_over_def handle_os_def split: if_splits)
  with start show ?thesis
    by (simp add: hands_over_def)
qed

lemma tcp_read_opens:
  "handle_os api opens \<Longrightarrow> tcp_read api len s w = (r, buf, s', w') \<Longrightarrow>
     opens w' = opens w \<and> tcp_handle s' = tcp_handle s"
  by (auto simp: tcp_read_def handle_os_def Let_def split_def split: if_splits)

lemma tcp_peek_opens:
  "handle_os api opens \<Longrightarrow> tcp_peek_byte api s w = (v, s', w') \<Longrightarrow>
     opens w' = opens w \<and> tcp_handle s' = tcp_handle s"
  by (auto simp: tcp_peek_byte_def Let_def split: if_splits prod.splits dest: tcp_read_opens)

lemma tcp_write_opens:
  "handle_os api opens \<Longrightarrow> opens (snd (tcp_write api bs s w)) = opens w"
  by (simp add: tcp_write_def handle_os_def Let_def split_def)

lemma tcp_connected_opens:
  "handle_os api opens \<Longrightarrow> opens (snd (tcp_connected api s w)) = opens w"
  by (simp add: tcp_connected_def handle_os_def Let_def split_def)

lemma tcp_set_no_delay_opens:
  "handle_os api opens \<Longrightarrow> opens (tcp_set_no_delay api b s w) = opens w"
  by (simp add: tcp_set_no_delay_def handle_os_def)

lemma udp_end_packet_opens:
  assumes os: "handle_os api opens" and run: "udp_end_packet api u w = (b, u', w')"
  shows "opens w' = opens w \<and> udp_handle u' = udp_handle u"
proof -
  obtain addr w1 where res: "resolve_ipv4 api (pending_host u) w = (addr, w1)"
    by (cases "resolve_ipv4 api (pending_host u) w")
  have "opens w1 = opens w"
    using resolve_opens [OF os, of "pending_host u" w] res by simp
  with run res os show ?thesis
    by (auto simp: udp_end_packet_def handle_os_def Let_def split_def split: if_splits option.splits)
qed

lemma udp_parse_packet_opens:
  "handle_os api opens \<Longrightarrow> udp_parse_packet api u w = (n, u', w') \<Longrightarrow>
     opens w' = opens w \<and> udp_handle u' = udp_handle u"
  by (auto simp: udp_parse_packet_def handle_os_def Let_def split_def split: if_splits)

subsection \<open>A program with one socket of each kind\<close>

record net_objs =
  o_tcp :: tcp_socket
  o_lst :: tcp_listener
  o_udp :: udp_socket

definition net_objs_new :: net_objs where
  "net_objs_new = \<lparr>o_tcp = tcp_new, o_lst = lst_new, o_udp = udp_new\<rparr>"

datatype net_op =
    TcpConnect string u16 | TcpConnected | TcpRead nat | TcpPeek | TcpWrite bytes
  | TcpNoDelay bool | TcpClose
  | LstListen u16 | LstAcceptInto | LstClose
  | UdpBegin u16 | UdpBeginPacket string u16 | UdpWrite bytes | UdpEndPacket | UdpParsePacket
  | UdpRead nat | UdpClose

text \<open>
  \<open>LstAcceptInto\<close> is the assignment \<open>sock = listener.accept()\<close>: the accepted temporary is
  moved into \<open>sock\<close> and then destroyed.
\<close>

definition net_step :: "'w net_api \<Rightarrow> net_op \<Rightarrow> net_objs \<times> 'w \<Rightarrow> net_objs \<times> 'w" where
  "net_step api opr st =
     (let (n, w) = st in
      case opr of
        TcpConnect host port \<Rightarrow>
          let (b, s, w') = tcp_connect api host port (o_tcp n) w in (n\<lparr>o_tcp := s\<rparr>, w')
      | TcpConnected \<Rightarrow> (n, snd (tcp_connected api (o_tcp n) w))
      | TcpRead len \<Rightarrow>
          let (r, buf, s, w') = tcp_read api len (o_tcp n) w in (n\<lparr>o_tcp := s\<rparr>, w')
      | TcpPeek \<Rightarrow> let (v, s, w') = tcp_peek_byte api (o_tcp n) w in (n\<lparr>o_tcp := s\<rparr>, w')
      | TcpWrite bs \<Rightarrow> (n, snd (tcp_write api bs (o_tcp n) w))
      | TcpNoDelay b \<Rightarrow> (n, tcp_set_no_delay api b (o_tcp n) w)
      | TcpClose \<Rightarrow> let (s, w') = tcp_close api (o_tcp n) w in (n\<lparr>o_tcp := s\<rparr>, w')
      | LstListen port \<Rightarrow>
          let (b, l, w') = lst_listen api port (o_lst n) w in (n\<lparr>o_lst := l\<rparr>, w')
      | LstAcceptInto \<Rightarrow>
          let (tmp, w1) = lst_accept api (o_lst n) w;
              (s, tmp', w2) = tcp_move_assign api False (o_tcp n) tmp w1;
              (tmp'', w3) = tcp_close api tmp' w2
          in (n\<lparr>o_tcp := s\<rparr>, w3)
      | LstClose \<Rightarrow> let (l, w') = lst_close api (o_lst n) w in (n\<lparr>o_lst := l\<rparr>, w')
      | UdpBegin port \<Rightarrow>
          let (b, u, w') = udp_begin api port (o_udp n) w in (n\<lparr>o_udp := u\<rparr>, w')
      | UdpBeginPacket host port \<Rightarrow> (n\<lparr>o_udp := snd (udp_begin_packet host port (o_udp n))\<rparr>, w)
      | UdpWrite bs \<Rightarrow> (n\<lparr>o_udp := snd (udp_write bs (o_udp n))\<rparr>, w)
      | UdpEndPacket \<Rightarrow>
          let (b, u, w') = udp_end_packet api (o_udp n) w in (n\<lparr>o_udp := u\<rparr>, w')
      | UdpParsePacket \<Rightarrow>
          let (r, u, w') = udp_parse_packet api (o_udp n) w in (n\<lparr>o_udp := u\<rparr>, w')
      | UdpRead len \<Rightarrow> let (r, buf, u) = udp_read len (o_udp n) in (n\<lparr>o_udp := u\<rparr>, w)
      | UdpClose \<Rightarrow> let (u, w') = udp_close api (o_udp n) w in (n\<lparr>o_udp := u\<rparr>, w'))"

definition net_run :: "'w net_api \<Rightarrow> net_op list \<Rightarrow> net_objs \<times> 'w \<Rightarrow> net_objs \<times> 'w" where
  "net_run api oprs st = fold (net_step api) oprs st"

text \<open>The open descriptors are those of the rest of the process and the ones owned, once each.\<close>

definition net_owned :: "('w \<Rightarrow> int set) \<Rightarrow> int set \<Rightarrow> net_objs \<times> 'w \<Rightarrow> bool" where
  "net_owned opens rest st \<longleftrightarrow>
     (let (n, w) = st; t = owned (tcp_handle (o_tcp n)); l = owned (lst_handle (o_lst n));
          u = owned (udp_handle (o_udp n))
      in opens w = rest \<union> t \<union> l \<union> u
         \<and> rest \<inter> (t \<union> l \<union> u) = {} \<and> t \<inter> (l \<union> u) = {} \<and> l \<inter> u = {})"

lemma net_owned_tcp:
  "net_owned opens rest (n, w) \<Longrightarrow> hands_over opens (tcp_handle (o_tcp n)) w (tcp_handle s') w' \<Longrightarrow>
     net_owned opens rest (n\<lparr>o_tcp := s'\<rparr>, w')"
  unfolding net_owned_def hands_over_def Let_def prod.case by simp blast

lemma net_owned_lst:
  "net_owned opens rest (n, w) \<Longrightarrow> hands_over opens (lst_handle (o_lst n)) w (lst_handle l') w' \<Longrightarrow>
     net_owned opens rest (n\<lparr>o_lst := l'\<rparr>, w')"
  unfolding net_owned_def hands_over_def Let_def prod.case by simp blast

lemma net_owned_udp:
  "net_owned opens rest (n, w) \<Longrightarrow> hands_over opens (udp_handle (o_udp n)) w (udp_handle u') w' \<Longrightarrow>
     net_owned opens rest (n\<lparr>o_udp := u'\<rparr>, w')"
  unfolding net_owned_def hands_over_def Let_def prod.case by simp blast

lemma net_owned_same:
  "net_owned opens rest (n, w) \<Longrightarrow> opens w' = opens w \<Longrightarrow> net_owned opens rest (n, w')"
  by (simp add: net_owned_def)

lemma net_owned_sub:
  assumes "net_owned opens rest (n, w)"
  shows "owned (tcp_handle (o_tcp n)) \<subseteq> opens w" "owned (lst_handle (o_lst n)) \<subseteq> opens w"
    "owned (udp_handle (o_udp n)) \<subseteq> opens w"
  using assms by (auto simp: net_owned_def Let_def)

lemma accept_into_hands_over:
  assumes os: "handle_os api opens" and own: "owned (tcp_handle s) \<subseteq> opens w"
    and acc: "lst_accept api l w = (tmp, w1)"
    and mv: "tcp_move_assign api False s tmp w1 = (s', tmp', w2)"
    and dtor: "tcp_close api tmp' w2 = (tmp'', w3)"
  shows "hands_over opens (tcp_handle s) w (tcp_handle s') w3"
proof -
  have fresh: "fresh_handle opens w (tcp_handle tmp, w1)"
    using lst_accept_fresh [OF os acc] by simp
  obtain c wc where cl: "tcp_close api s w1 = (c, wc)"
    by (cases "tcp_close api s w1")
  have own1: "owned (tcp_handle s) \<subseteq> opens w1"
    using own fresh by (auto simp: fresh_handle_def)
  have "hands_over opens (tcp_handle s) w1 kInvalid wc"
    using tcp_close_hands_over [OF os own1 cl] by simp
  moreover have "wc = w2" "tcp_handle s' = tcp_handle tmp" "tcp_handle tmp' = kInvalid"
    using mv cl by (auto simp: tcp_move_assign_def)
  moreover have "w3 = w2"
    using dtor calculation(4) by (simp add: tcp_close_def tcp_is_open_def)
  ultimately show ?thesis
    using fresh own by (auto simp: hands_over_def fresh_handle_def)
qed

lemma net_step_owned:
  assumes os: "handle_os api opens" and inv: "net_owned opens rest st"
  shows "net_owned opens rest (net_step api opr st)"
proof -
  obtain n w where st: "st = (n, w)"
    by (cases st)
  note own = inv [unfolded st]
  note sub = net_owned_sub [OF own]
  show ?thesis
  proof (cases opr)
    case (TcpConnect host port)
    then show ?thesis
      using net_owned_tcp [OF own] tcp_connect_hands_over [OF os sub(1)]
      by (auto simp: net_step_def st split: prod.splits)
  next
    case TcpConnected
    then show ?thesis
      using net_owned_same [OF own] tcp_connected_opens [OF os] by (simp add: net_step_def st)
  next
    case (TcpRead len)
    then show ?thesis
      using net_owned_tcp [OF own] hands_over_refl [where opens = opens, OF sub(1)] tcp_read_opens [OF os]
      by (auto simp: net_step_def st split: prod.splits)
  next
    case TcpPeek
    then show ?thesis
      using net_owned_tcp [OF own] hands_over_refl [where opens = opens, OF sub(1)] tcp_peek_opens [OF os]
      by (auto simp: net_step_def st split: prod.splits)
  next
    case (TcpWrite bs)
    then show ?thesis
      using net_owned_same [OF own] tcp_write_opens [OF os] by (simp add: net_step_def st)
  next
    case (TcpNoDelay b)
    then show ?thesis
      using net_owned_same [OF own] tcp_set_no_delay_opens [OF os] by (simp add: net_step_def st)
  next
    case TcpClose
    then show ?thesis
      using net_owned_tcp [OF own] tcp_close_hands_over [OF os sub(1)]
      by (auto simp: net_step_def st split: prod.splits)
  next
    case (LstListen port)
    then show ?thesis
      using net_owned_lst [OF own] lst_listen_hands_over [OF os sub(2)]
      by (auto simp: net_step_def st split: prod.splits)
  next
    case LstAcceptInto
    then show ?thesis
      using net_owned_tcp [OF own] accept_into_hands_over [OF os sub(1)]
      by (auto simp: net_step_def st split: prod.splits)
  next
    case LstClose
    then show ?thesis
      using net_owned_lst [OF own] lst_close_hands_over [OF os sub(2)]
      by (auto simp: net_step_def st split: prod.splits)
  next
    case (UdpBegin port)
    then show ?thesis
      using net_owned_udp [OF own] udp_begin_hands_over [OF os sub(3)]
      by (auto simp: net_step_def st split: prod.splits)
  next
    case (UdpBeginPacket host port)
    then show ?thesis
      using net_owned_udp [OF own] hands_over_refl [where opens = opens, OF sub(3)]
      by (simp add: net_step_def st udp_begin_packet_def)
  next
    case (UdpWrite bs)
    then show ?thesis
      using net_owned_udp [OF own] hands_over_refl [where opens = opens, OF sub(3)]
      by (simp add: net_step_def st udp_write_def)
  next
    case UdpEndPacket
    then show ?thesis
      using net_owned_udp [OF own] hands_over_refl [where opens = opens, OF sub(3)] udp_end_packet_opens [OF os]
      by (auto simp: net_step_def st split: prod.splits)
  next
    case UdpParsePacket
    then show ?thesis
      using net_owned_udp [OF own] hands_over_refl [where opens = opens, OF sub(3)] udp_parse_packet_opens [OF os]
      by (auto simp: net_step_def st split: prod.splits)
  next
    case (UdpRead len)
    then show ?thesis
      using own net_owned_udp [OF own] hands_over_refl [where opens = opens, OF sub(3)]
      by (simp add: net_step_def st udp_read_def Let_def)
  next
    case UdpClose
    then show ?thesis
      using net_owned_udp [OF own] udp_close_hands_over [OF os sub(3)]
      by (auto simp: net_step_def st split: prod.splits)
  qed
qed

lemma net_run_owned:
  "handle_os api opens \<Longrightarrow> net_owned opens rest st \<Longrightarrow> net_owned opens rest (net_run api oprs st)"
  by (induction oprs arbitrary: st) (simp_all add: net_run_def net_step_owned)

lemma net_new_owned: "net_owned opens (opens w) (net_objs_new, w)"
  by (simp add: net_owned_def net_objs_new_def tcp_new_def lst_new_def udp_new_def)

section \<open>UDP datagrams\<close>

text \<open>What \<open>read\<close> has not handed out of the last parsed datagram.\<close>

definition udp_rest :: "udp_socket \<Rightarrow> bytes" where
  "udp_rest u = drop (recv_pos u) (recv_buffer u)"

primrec udp_reads :: "nat list \<Rightarrow> udp_socket \<Rightarrow> bytes \<times> udp_socket" where
  "udp_reads [] u = ([], u)"
| "udp_reads (len # lens) u =
     (let (n, buf, u1) = udp_read len u; (bs, u2) = udp_reads lens u1 in (buf @ bs, u2))"

lemma udp_read_rest:
  "udp_read len u = (n, buf, u') \<Longrightarrow>
     buf = take len (udp_rest u) \<and> udp_rest u' = drop len (udp_rest u)"
  by (auto simp: udp_read_def udp_rest_def Let_def min_def add.commute split: if_splits)

lemma udp_reads_rest:
  "udp_reads lens u = (bs, u') \<Longrightarrow>
     bs = take (sum_list lens) (udp_rest u) \<and> udp_rest u' = drop (sum_list lens) (udp_rest u)"
proof (induction lens arbitrary: u bs)
  case Nil
  then show ?case by simp
next
  case (Cons len lens)
  obtain n buf u1 where one: "udp_read len u = (n, buf, u1)"
    by (cases "udp_read len u")
  obtain bs1 where rest: "udp_reads lens u1 = (bs1, u')" and bs: "bs = buf @ bs1"
    using Cons.prems one by (auto simp: Let_def split: prod.splits)
  show ?case
    using Cons.IH [OF rest] udp_read_rest [OF one] bs
    by (simp add: take_add drop_drop add.commute)
qed

section \<open>A loopback system, for concrete instances\<close>

record loop_world =
  lw_rx :: bytes
  lw_fin :: bool
  lw_reset :: bool
  lw_fds :: "int set"
  lw_next :: nat
  lw_sent :: "bytes list"
  lw_dgrams :: "bytes list"
  lw_clock :: int

definition loop_fresh :: "loop_world \<Rightarrow> int \<times> loop_world" where
  "loop_fresh w =
     (if int (lw_next w) \<in> lw_fds w then (- 1, w)
      else (int (lw_next w), w\<lparr>lw_fds := insert (int (lw_next w)) (lw_fds w), lw_next := lw_next w + 1\<rparr>))"

definition loop_recv :: "int \<Rightarrow> nat \<Rightarrow> bool \<Rightarrow> loop_world \<Rightarrow> recv_result \<times> loop_world" where
  "loop_recv fd n peek w =
     (if lw_rx w \<noteq> []
      then (Received (take n (lw_rx w)), if peek then w else w\<lparr>lw_rx := drop n (lw_rx w)\<rparr>)
      else if lw_reset w then (RecvFailed, w)
      else if lw_fin w then (Received [], w)
      else (RecvWouldBlock, w))"

definition loop_os :: "loop_world net_api" where
  "loop_os =
     \<lparr>inet_pton = (\<lambda>host. if host = ''127.0.0.1'' then Some 0x0100007F else None),
      getaddrinfo = (\<lambda>host w. (if host = ''localhost'' then Some 0x0100007F else None, w)),
      os_socket = (\<lambda>k w. loop_fresh w),
      os_setsockopt = (\<lambda>fd opt w. w),
      os_bind = (\<lambda>fd port w. (0, w)),
      os_listen = (\<lambda>fd n w. (0, w)),
      os_connect = (\<lambda>fd a p w. (if p = 0 then - 1 else 0, w)),
      os_accept = (\<lambda>fd w. loop_fresh w),
      os_close = (\<lambda>fd w. w\<lparr>lw_fds := lw_fds w - {fd}\<rparr>),
      os_set_non_blocking = (\<lambda>fd w. w),
      os_fionread = (\<lambda>fd w. Some (int_of_size (length (lw_rx w)))),
      os_recv = loop_recv,
      os_send = (\<lambda>fd bs w. (int_of_size (length bs), w\<lparr>lw_sent := lw_sent w @ [bs]\<rparr>)),
      os_select = (\<lambda>fd w. 1),
      os_getsockname = (\<lambda>fd w. Some 2323),
      os_getpeername = (\<lambda>fd w. Some 0x0100007F),
      os_sendto = (\<lambda>fd bs a p w. (int_of_size (length bs), w\<lparr>lw_sent := lw_sent w @ [bs]\<rparr>)),
      os_recvfrom = (\<lambda>fd n w. case lw_dgrams w of
                       [] \<Rightarrow> (RecvWouldBlock, w)
                     | d # ds \<Rightarrow> (Received (take n d), w\<lparr>lw_dgrams := ds\<rparr>))\<rparr>"

definition loop_start :: loop_world where
  "loop_start = \<lparr>lw_rx = [], lw_fin = False, lw_reset = False, lw_fds = {0, 1, 2}, lw_next = 3,
                 lw_sent = [], lw_dgrams = [], lw_clock = 0\<rparr>"

lemma loop_stream: "stream_os loop_os fd lw_rx"
  by (simp add: stream_os_def loop_os_def loop_recv_def)

lemma loop_fresh_handle: "fresh_handle lw_fds w (loop_fresh w)"
  by (auto simp: fresh_handle_def loop_fresh_def owned_def kInvalid_def)

lemma loop_handles: "handle_os loop_os lw_fds"
  by (auto simp: handle_os_def loop_os_def loop_fresh_handle loop_recv_def split: list.split)

section \<open>Properties\<close>

text \<open>
  A TCP client reads the peer's stream without gaps or repeats. Whatever way \<open>read\<close> and
  \<open>peek_byte\<close> calls of any length follow one another, the bytes the reads returned, followed by
  the byte that is pushed back, if any, and by what the system still holds, are exactly what was
  there at the start, provided that no read failed (returned -1) after it had already taken the
  pushed-back byte.
\<close>

theorem tcp_reads_deliver_the_stream:
  assumes "stream_os api (tcp_handle s) pending" and "tcp_inv s"
    and "list_all small_read oprs"
    and "source_run (tcp_step api) oprs (s, w) = (outs, s', w')"
    and "list_all keeps_bytes outs"
  shows "tcp_stream pending s w = obtained outs @ tcp_stream pending s' w' \<and> tcp_inv s'"
  using tcp_source.run_delivers [OF assms(4) _ assms(3,5), of pending] assms(1,2)
  by (simp add: tcp_valid_def)

theorem tcp_reads_deliver_the_stream_witness:
  "\<exists>outs s' w'. source_run (tcp_step loop_os) [Available, PeekByte, PeekByte, ReadInto 8, ReadInto 1]
       (tcp_adopt 3, loop_start\<lparr>lw_rx := [65, 66, 67]\<rparr>) = (outs, s', w')
     \<and> [65, 66, 67] = obtained outs @ tcp_stream lw_rx s' w'"
proof -
  let ?s = "tcp_adopt 3" and ?w = "loop_start\<lparr>lw_rx := [65, 66, 67]\<rparr>"
  let ?oprs = "[Available, PeekByte, PeekByte, ReadInto 8, ReadInto 1]"
  let ?outs = "[(tcp_available loop_os ?s ?w, []), (65, []), (65, []), (3, [65, 66, 67]), (0, [])]"
  have run: "source_run (tcp_step loop_os) ?oprs (?s, ?w) = (?outs, ?s, loop_start)"
    by (simp add: tcp_step_def tcp_peek_byte_def tcp_read_def tcp_adopt_def tcp_is_open_def kInvalid_def
        loop_os_def loop_recv_def loop_start_def Let_def int_of_size_small)
  have inv: "tcp_inv ?s"
    by (simp add: tcp_inv_def tcp_adopt_def)
  have "tcp_stream lw_rx ?s ?w = obtained ?outs @ tcp_stream lw_rx ?s loop_start"
    using tcp_reads_deliver_the_stream [OF loop_stream inv _ run] by simp
  with run show ?thesis
    by (auto simp: tcp_stream_def tcp_adopt_def)
qed

text \<open>
  \<open>peek_byte\<close> tells the truth. A byte it returns is the first byte that the next \<open>read\<close> of
  any positive length stores, and peeking again returns it again without asking the system.
\<close>

theorem tcp_peek_is_next_read:
  assumes "stream_os api (tcp_handle s) pending" and "tcp_inv s"
    and "tcp_peek_byte api s w = (v, s1, w1)" and "v \<noteq> - 1"
    and "0 < len" and "tcp_read api len s1 w1 = (r, buf, s2, w2)"
  shows "tcp_peek_byte api s1 w1 = (v, s1, w1) \<and> (\<exists>rest. buf = word_of_int v # rest)"
proof -
  have peeked: "tcp_inv s1" "v = tcp_peeked s1" "tcp_is_open s1"
    using tcp_peek_stream [OF assms(2,1,3)] assms(4) by simp_all
  then have "0 \<le> tcp_peeked s1"
    using assms(4) by (simp add: tcp_inv_def)
  with peeked assms(5,6) show ?thesis
    by (auto simp: tcp_peek_byte_def tcp_read_def Let_def split_def split: if_splits)
qed

theorem tcp_peek_is_next_read_witness:
  "\<exists>rest. ([65, 66] :: bytes) = word_of_int 65 # rest"
proof -
  let ?s = "tcp_adopt 3" and ?w = "loop_start\<lparr>lw_rx := [65, 66, 67]\<rparr>"
  let ?s1 = "?s\<lparr>tcp_peeked := 65\<rparr>" and ?w1 = "loop_start\<lparr>lw_rx := [66, 67]\<rparr>"
  have inv: "tcp_inv ?s"
    by (simp add: tcp_inv_def tcp_adopt_def)
  have peek: "tcp_peek_byte loop_os ?s ?w = (65, ?s1, ?w1)"
    and read: "tcp_read loop_os 2 ?s1 ?w1 = (2, [65, 66], ?s, loop_start\<lparr>lw_rx := [67]\<rparr>)"
    by (simp_all add: tcp_peek_byte_def tcp_read_def tcp_adopt_def tcp_is_open_def kInvalid_def
        loop_os_def loop_recv_def loop_start_def Let_def int_of_size_small)
  show ?thesis
    using tcp_peek_is_next_read [OF loop_stream inv peek _ _ read] by simp
qed

text \<open>
  A read on a broken connection swallows the byte that was peeked. When \<open>recv\<close> fails (with
  anything but would-block) after the pushed-back byte was moved to the buffer, \<open>read\<close> returns -1
  although that byte arrived, and the byte is gone: the pushback is cleared, so no later call
  returns it. (The branch for an orderly shutdown, just above in the code, returns the count.)
\<close>

theorem failed_recv_drops_peeked_byte:
  assumes "tcp_is_open s" and "0 \<le> tcp_peeked s" and "1 < len"
    and "os_recv api (tcp_handle s) (len - 1) False w = (RecvFailed, w')"
  shows "tcp_read api len s w = (- 1, [word_of_int (tcp_peeked s)], s\<lparr>tcp_peeked := - 1\<rparr>, w')
    \<and> tcp_stream pending (s\<lparr>tcp_peeked := - 1\<rparr>) w' = pending w'"
  using assms by (simp add: tcp_read_def tcp_stream_def Let_def)

theorem failed_recv_drops_peeked_byte_witness:
  "fst (tcp_read loop_os 4 (\<lparr>tcp_handle = 3, tcp_peeked = 65\<rparr>) (loop_start\<lparr>lw_reset := True\<rparr>)) = - 1"
proof -
  let ?s = "\<lparr>tcp_handle = 3, tcp_peeked = 65\<rparr>" and ?w = "loop_start\<lparr>lw_reset := True\<rparr>"
  have fail: "os_recv loop_os (tcp_handle ?s) (4 - 1) False ?w = (RecvFailed, ?w)"
    by (simp add: loop_os_def loop_recv_def loop_start_def)
  show ?thesis
    using failed_recv_drops_peeked_byte [OF _ _ _ fail] by (simp add: tcp_is_open_def kInvalid_def)
qed

text \<open>
  No descriptor leaks and none is closed twice. Start with a fresh \<open>TcpSocket\<close>,
  \<open>TcpListener\<close> and \<open>UdpSocket\<close> and perform any sequence of their operations, failing ones
  included; then the descriptors open in the process are those that were open at the start and
  the ones the three objects hold, each held once, and closing the three restores the start.
\<close>

theorem descriptors_never_leak:
  assumes "handle_os api opens" and "net_run api oprs (net_objs_new, w) = (n, w')"
  shows "net_owned opens (opens w) (n, w')
    \<and> opens (snd (net_run api [TcpClose, LstClose, UdpClose] (n, w'))) = opens w"
proof -
  have inv: "net_owned opens (opens w) (n, w')"
    using net_run_owned [OF assms(1) net_new_owned, of w oprs] assms(2) by simp
  obtain n2 w2 where last: "net_run api [TcpClose, LstClose, UdpClose] (n, w') = (n2, w2)"
    by (cases "net_run api [TcpClose, LstClose, UdpClose] (n, w')")
  have "net_owned opens (opens w) (n2, w2)"
    using net_run_owned [OF assms(1) inv] last by metis
  moreover have "tcp_handle (o_tcp n2) = kInvalid" "lst_handle (o_lst n2) = kInvalid"
    "udp_handle (o_udp n2) = kInvalid"
    using last by (auto simp: net_run_def net_step_def tcp_close_def lst_close_def udp_close_def
        tcp_is_open_def kInvalid_def split: prod.splits if_splits)
  ultimately show ?thesis
    using inv last by (simp add: net_owned_def)
qed

theorem descriptors_never_leak_witness:
  "lw_fds (snd (net_run loop_os [TcpClose, LstClose, UdpClose]
     (net_run loop_os [TcpConnect ''localhost'' 23, LstListen 23, LstAcceptInto, UdpBegin 0,
        TcpConnect ''127.0.0.1'' 0] (net_objs_new, loop_start)))) = {0, 1, 2}"
proof -
  obtain n w' where run: "net_run loop_os [TcpConnect ''localhost'' 23, LstListen 23, LstAcceptInto,
        UdpBegin 0, TcpConnect ''127.0.0.1'' 0] (net_objs_new, loop_start) = (n, w')"
    by fastforce
  show ?thesis
    using descriptors_never_leak [OF loop_handles run] run by (simp add: loop_start_def)
qed

text \<open>
  A received datagram is handed out once, in order and no further. After \<open>parse_packet\<close> took a
  datagram from the system and returned its length, any sequence of \<open>read\<close> calls yields its bytes
  from the front, up to the lengths asked for; the rest stays for later reads, and another
  \<open>parse_packet\<close> discards it.
\<close>

theorem udp_datagram_read_in_order:
  assumes "udp_handle u \<noteq> kInvalid"
    and "os_recvfrom api (udp_handle u) 2048 w = (Received d, w')"
    and "0 < length d" and "length d \<le> 2048"
    and "udp_reads lens (fst (snd (udp_parse_packet api u w))) = (bs, u')"
  shows "fst (udp_parse_packet api u w) = int (length d)
    \<and> bs = take (sum_list lens) d \<and> udp_rest u' = drop (sum_list lens) d"
proof -
  have one: "udp_parse_packet api u w = (int (length d), u\<lparr>recv_buffer := d, recv_pos := 0\<rparr>, w')"
    using assms(1-4) by (simp add: udp_parse_packet_def Let_def int_of_size_small)
  show ?thesis
    using udp_reads_rest [OF assms(5)] one by (simp add: udp_rest_def)
qed

theorem udp_datagram_read_in_order_witness:
  "fst (udp_reads [2, 0, 5] (fst (snd (udp_parse_packet loop_os (udp_new\<lparr>udp_handle := 4\<rparr>)
     (loop_start\<lparr>lw_dgrams := [[1, 2, 3], [4]]\<rparr>))))) = [1, 2, 3]"
proof -
  let ?u = "udp_new\<lparr>udp_handle := 4\<rparr>" and ?w = "loop_start\<lparr>lw_dgrams := [[1, 2, 3], [4]]\<rparr>"
  have rcv: "os_recvfrom loop_os (udp_handle ?u) 2048 ?w = (Received [1, 2, 3], loop_start\<lparr>lw_dgrams := [[4]]\<rparr>)"
    by (simp add: loop_os_def loop_start_def)
  show ?thesis
    using udp_datagram_read_in_order [OF _ rcv _ _ prod.collapse [symmetric], of "[2, 0, 5]"]
    by (simp add: kInvalid_def udp_new_def)
qed

end
