(* ===== verification/Tls.thy ===== *)
theory Tls
  imports Net
begin

text \<open>
  \<open>native/hal/src/tls.cpp\<close>: \<open>TlsSocket\<close>, a client stream over \<open>TcpSocket\<close> that the bundled
  mbedTLS encrypts. mbedTLS, a third-party library, is a parameter, a record \<open>tls_api\<close> of
  functions on its own state \<open>'s\<close> (context, configuration and generator together); they get the two
  BIO functions of the file and work on the \<open>TcpSocket\<close> through them. The steady clock is in
  nanoseconds. The two loops, of the handshake and of \<open>write\<close>, are partial functions:
  \<open>tls_connect_returns\<close> and \<open>tls_write_returns\<close> show that they end when the clock advances.
\<close>

section \<open>mbedTLS and the clock\<close>

record 'w bio =
  bio_out :: "bytes \<Rightarrow> tcp_socket \<Rightarrow> 'w \<Rightarrow> int \<times> tcp_socket \<times> 'w"
  bio_in :: "nat \<Rightarrow> tcp_socket \<Rightarrow> 'w \<Rightarrow> int \<times> bytes \<times> tcp_socket \<times> 'w"

record ('s, 'w) tls_api =
  WANT_READ :: int
  WANT_WRITE :: int
  SEND_FAILED :: int
  RECV_FAILED :: int
  ssl_init :: 's
  drbg_seed :: "string \<Rightarrow> 's \<Rightarrow> 'w \<Rightarrow> int \<times> 's \<times> 'w"
  config_defaults :: "'s \<Rightarrow> int \<times> 's"
  conf_verify_none :: "'s \<Rightarrow> 's"
  conf_rng :: "'s \<Rightarrow> 's"
  ssl_setup :: "'s \<Rightarrow> int \<times> 's"
  set_hostname :: "string \<Rightarrow> 's \<Rightarrow> 's"
  ssl_handshake :: "'w bio \<Rightarrow> 's \<Rightarrow> tcp_socket \<Rightarrow> 'w \<Rightarrow> int \<times> 's \<times> tcp_socket \<times> 'w"
  ssl_read :: "'w bio \<Rightarrow> nat \<Rightarrow> 's \<Rightarrow> tcp_socket \<Rightarrow> 'w \<Rightarrow> int \<times> bytes \<times> 's \<times> tcp_socket \<times> 'w"
  ssl_write :: "'w bio \<Rightarrow> bytes \<Rightarrow> 's \<Rightarrow> tcp_socket \<Rightarrow> 'w \<Rightarrow> int \<times> 's \<times> tcp_socket \<times> 'w"
  close_notify :: "'w bio \<Rightarrow> 's \<Rightarrow> tcp_socket \<Rightarrow> 'w \<Rightarrow> 's \<times> tcp_socket \<times> 'w"
  steady_now :: "'w \<Rightarrow> int"
  sleep_for :: "nat \<Rightarrow> 'w \<Rightarrow> 'w"

section \<open>The BIO functions\<close>

definition bio_send ::
  "'w net_api \<Rightarrow> ('s, 'w) tls_api \<Rightarrow> bytes \<Rightarrow> tcp_socket \<Rightarrow> 'w \<Rightarrow> int \<times> tcp_socket \<times> 'w" where
  "bio_send net api buf tcp w =
     (let (n, w1) = tcp_write net buf tcp w in
      if 0 < n then (int_of_size n, tcp, w1)
      else
        let (up, w2) = tcp_connected net tcp w1
        in (if up then WANT_WRITE api else SEND_FAILED api, tcp, w2))"

definition bio_recv ::
  "'w net_api \<Rightarrow> ('s, 'w) tls_api \<Rightarrow> nat \<Rightarrow> tcp_socket \<Rightarrow> 'w \<Rightarrow> int \<times> bytes \<times> tcp_socket \<times> 'w" where
  "bio_recv net api len tcp w =
     (let (n, buf, tcp1, w1) = tcp_read net len tcp w in
      if 0 < n then (n, buf, tcp1, w1)
      else if n < 0 then (RECV_FAILED api, buf, tcp1, w1)
      else
        let (up, w2) = tcp_connected net tcp1 w1
        in (if up then WANT_READ api else RECV_FAILED api, buf, tcp1, w2))"

definition tls_bio :: "'w net_api \<Rightarrow> ('s, 'w) tls_api \<Rightarrow> 'w bio" where
  "tls_bio net api = \<lparr>bio_out = bio_send net api, bio_in = bio_recv net api\<rparr>"

section \<open>State\<close>

record 's tls_socket =
  tls_tcp :: tcp_socket
  tls_ssl :: 's
  tls_rx :: bytes
  tls_rxpos :: nat
  tls_handshaked :: bool
  tls_fatal :: bool

definition tls_new :: "('s, 'w) tls_api \<Rightarrow> 's tls_socket" where
  "tls_new api =
     \<lparr>tls_tcp = tcp_new, tls_ssl = ssl_init api, tls_rx = [], tls_rxpos = 0,
      tls_handshaked = False, tls_fatal = False\<rparr>"

definition tls_pump ::
  "'w net_api \<Rightarrow> ('s, 'w) tls_api \<Rightarrow> 's tls_socket \<Rightarrow> 'w \<Rightarrow> 's tls_socket \<times> 'w" where
  "tls_pump net api s w =
     (if tls_rxpos s < length (tls_rx s) \<or> tls_fatal s then (s, w)
      else
        let s1 = s\<lparr>tls_rx := [], tls_rxpos := 0\<rparr>;
            (n, tmp, ssl, tcp, w1) = ssl_read api (tls_bio net api) 1536 (tls_ssl s1) (tls_tcp s1) w;
            s2 = s1\<lparr>tls_ssl := ssl, tls_tcp := tcp\<rparr>
        in
        if 0 < n then (s2\<lparr>tls_rx := take (nat n) tmp\<rparr>, w1)
        else if n = WANT_READ api \<or> n = WANT_WRITE api then (s2, w1)
        else (s2\<lparr>tls_fatal := True\<rparr>, w1))"

section \<open>Opening and closing\<close>

definition tls_close_tcp :: "'w net_api \<Rightarrow> 's tls_socket \<Rightarrow> 'w \<Rightarrow> 's tls_socket \<times> 'w" where
  "tls_close_tcp net s w = (let (tcp, w1) = tcp_close net (tls_tcp s) w in (s\<lparr>tls_tcp := tcp\<rparr>, w1))"

partial_function (option) tls_handshake_loop ::
  "'w net_api \<Rightarrow> ('s, 'w) tls_api \<Rightarrow> int \<Rightarrow> 's tls_socket \<Rightarrow> 'w \<Rightarrow> (bool \<times> 's tls_socket \<times> 'w) option"
where
  "tls_handshake_loop net api deadline s w =
     (let (ret, ssl, tcp, w1) = ssl_handshake api (tls_bio net api) (tls_ssl s) (tls_tcp s) w;
          s1 = s\<lparr>tls_ssl := ssl, tls_tcp := tcp\<rparr>
      in
      if ret = 0 then Some (True, s1, w1)
      else if ret \<noteq> WANT_READ api \<and> ret \<noteq> WANT_WRITE api
      then Some (False, tls_close_tcp net s1 w1)
      else if deadline < steady_now api w1 then Some (False, tls_close_tcp net s1 w1)
      else tls_handshake_loop net api deadline s1 (sleep_for api 2 w1))"

definition tls_connect ::
  "'w net_api \<Rightarrow> ('s, 'w) tls_api \<Rightarrow> string \<Rightarrow> u16 \<Rightarrow> 's tls_socket \<Rightarrow> 'w
     \<Rightarrow> (bool \<times> 's tls_socket \<times> 'w) option" where
  "tls_connect net api host port s w =
     (let (up, tcp, w1) = tcp_connect net host port (tls_tcp s) w; s1 = s\<lparr>tls_tcp := tcp\<rparr> in
      if \<not> up then Some (False, s1, w1)
      else
        let (r1, ssl1, w2) = drbg_seed api ''zimodem_hal_tls'' (tls_ssl s1) w1;
            s2 = s1\<lparr>tls_ssl := ssl1\<rparr>
        in
        if r1 \<noteq> 0 then Some (False, tls_close_tcp net s2 w2)
        else
          let (r2, ssl2) = config_defaults api ssl1; s3 = s2\<lparr>tls_ssl := ssl2\<rparr> in
          if r2 \<noteq> 0 then Some (False, tls_close_tcp net s3 w2)
          else
            let ssl3 = conf_rng api (conf_verify_none api ssl2);
                (r3, ssl4) = ssl_setup api ssl3;
                s4 = s3\<lparr>tls_ssl := ssl4\<rparr>
            in
            if r3 \<noteq> 0 then Some (False, tls_close_tcp net s4 w2)
            else
              let s5 = s4\<lparr>tls_ssl := set_hostname api (c_view host) ssl4\<rparr>;
                  deadline = steady_now api w2 + 15 * 10 ^ 9
              in
              case tls_handshake_loop net api deadline s5 w2 of
                None \<Rightarrow> None
              | Some (ok, s6, w3) \<Rightarrow>
                  Some (if ok then (True, s6\<lparr>tls_handshaked := True\<rparr>, w3) else (False, s6, w3)))"

definition tls_close :: "'w net_api \<Rightarrow> ('s, 'w) tls_api \<Rightarrow> 's tls_socket \<Rightarrow> 'w \<Rightarrow> 's tls_socket \<times> 'w" where
  "tls_close net api s w =
     (let (s1, w1) =
        (if tls_handshaked s \<and> \<not> tls_fatal s
         then let (ssl, tcp, w') = close_notify api (tls_bio net api) (tls_ssl s) (tls_tcp s) w
              in (s\<lparr>tls_ssl := ssl, tls_tcp := tcp\<rparr>, w')
         else (s, w));
          (s2, w2) = tls_close_tcp net s1 w1
      in (s2\<lparr>tls_handshaked := False, tls_fatal := True, tls_rx := [], tls_rxpos := 0\<rparr>, w2))"

section \<open>Reading\<close>

definition tls_connected :: "'w net_api \<Rightarrow> 's tls_socket \<Rightarrow> 'w \<Rightarrow> bool \<times> 'w" where
  "tls_connected net s w =
     (if tls_handshaked s \<and> \<not> tls_fatal s then tcp_connected net (tls_tcp s) w else (False, w))"

definition tls_available ::
  "'w net_api \<Rightarrow> ('s, 'w) tls_api \<Rightarrow> 's tls_socket \<Rightarrow> 'w \<Rightarrow> int \<times> 's tls_socket \<times> 'w" where
  "tls_available net api s w =
     (if \<not> tls_handshaked s then (0, s, w)
      else
        let (s1, w1) = tls_pump net api s w
        in (int_of_size (length (tls_rx s1) - tls_rxpos s1), s1, w1))"

definition tls_read ::
  "'w net_api \<Rightarrow> ('s, 'w) tls_api \<Rightarrow> nat \<Rightarrow> 's tls_socket \<Rightarrow> 'w \<Rightarrow> int \<times> bytes \<times> 's tls_socket \<times> 'w" where
  "tls_read net api len s w =
     (if \<not> tls_handshaked s \<or> len = 0 then (0, [], s, w)
      else
        let (s1, w1) = tls_pump net api s w; avail = length (tls_rx s1) - tls_rxpos s1 in
        if avail = 0 then (if tls_fatal s1 then - 1 else 0, [], s1, w1)
        else
          let n = min len avail
          in (int_of_size n, take n (drop (tls_rxpos s1) (tls_rx s1)),
              s1\<lparr>tls_rxpos := tls_rxpos s1 + n\<rparr>, w1))"

definition tls_peek_byte ::
  "'w net_api \<Rightarrow> ('s, 'w) tls_api \<Rightarrow> 's tls_socket \<Rightarrow> 'w \<Rightarrow> int \<times> 's tls_socket \<times> 'w" where
  "tls_peek_byte net api s w =
     (if \<not> tls_handshaked s then (- 1, s, w)
      else
        let (s1, w1) = tls_pump net api s w in
        (if tls_rxpos s1 < length (tls_rx s1) then uint (tls_rx s1 ! tls_rxpos s1) else - 1, s1, w1))"

section \<open>Writing\<close>

partial_function (option) tls_write_loop ::
  "'w net_api \<Rightarrow> ('s, 'w) tls_api \<Rightarrow> int \<Rightarrow> bytes \<Rightarrow> nat \<Rightarrow> 's tls_socket \<Rightarrow> 'w
     \<Rightarrow> (nat \<times> 's tls_socket \<times> 'w) option"
where
  "tls_write_loop net api deadline buf sent s w =
     (if \<not> sent < length buf then Some (sent, s, w)
      else
        let (n, ssl, tcp, w1) =
              ssl_write api (tls_bio net api) (drop sent buf) (tls_ssl s) (tls_tcp s) w;
            s1 = s\<lparr>tls_ssl := ssl, tls_tcp := tcp\<rparr>
        in
        if 0 < n then tls_write_loop net api deadline buf (sent + nat n) s1 w1
        else if n = WANT_READ api \<or> n = WANT_WRITE api
        then (if deadline < steady_now api w1 then Some (sent, s1, w1)
              else tls_write_loop net api deadline buf sent s1 (sleep_for api 2 w1))
        else Some (sent, s1\<lparr>tls_fatal := True\<rparr>, w1))"

definition tls_write ::
  "'w net_api \<Rightarrow> ('s, 'w) tls_api \<Rightarrow> bytes \<Rightarrow> 's tls_socket \<Rightarrow> 'w \<Rightarrow> (nat \<times> 's tls_socket \<times> 'w) option" where
  "tls_write net api buf s w =
     (if \<not> tls_handshaked s \<or> length buf = 0 then Some (0, s, w)
      else tls_write_loop net api (steady_now api w + 10 * 10 ^ 9) buf 0 s w)"

definition tls_set_no_delay :: "'w net_api \<Rightarrow> bool \<Rightarrow> 's tls_socket \<Rightarrow> 'w \<Rightarrow> 'w" where
  "tls_set_no_delay net enable s w = tcp_set_no_delay net enable (tls_tcp s) w"

definition tls_flush :: "'s tls_socket \<Rightarrow> 's tls_socket" where
  "tls_flush s = s"

definition tls_local_port :: "'w net_api \<Rightarrow> 's tls_socket \<Rightarrow> 'w \<Rightarrow> u16" where
  "tls_local_port net s w = tcp_local_port net (tls_tcp s) w"

definition tls_remote_ip :: "'w net_api \<Rightarrow> 's tls_socket \<Rightarrow> 'w \<Rightarrow> u32" where
  "tls_remote_ip net s w = tcp_remote_ip net (tls_tcp s) w"

section \<open>The loops end\<close>

text \<open>What is documented of the steady clock: it never goes back, and sleeping advances it.\<close>

definition clock_os :: "('s, 'w) tls_api \<Rightarrow> bool" where
  "clock_os api \<longleftrightarrow>
     (\<forall>n w. steady_now api w + int n * 10 ^ 6 \<le> steady_now api (sleep_for api n w)) \<and>
     (\<forall>b ssl tcp w. steady_now api w \<le> steady_now api (snd (snd (snd (ssl_handshake api b ssl tcp w))))) \<and>
     (\<forall>b bs ssl tcp w. steady_now api w \<le> steady_now api (snd (snd (snd (ssl_write api b bs ssl tcp w)))))"

lemma clock_sleep: "clock_os api \<Longrightarrow> steady_now api w < steady_now api (sleep_for api 2 w)"
  unfolding clock_os_def by (drule conjunct1, drule spec [of _ 2], drule spec [of _ w]) simp

lemma tls_close_tcp_closed: "\<not> tcp_is_open (tls_tcp (fst (tls_close_tcp net s w)))"
  by (simp add: tls_close_tcp_def tcp_close_def tcp_is_open_def split_def Let_def)

lemma tls_close_tcp_frame [simp]:
  "tls_handshaked (fst (tls_close_tcp net s w)) = tls_handshaked s"
  "tls_fatal (fst (tls_close_tcp net s w)) = tls_fatal s"
  "tls_rx (fst (tls_close_tcp net s w)) = tls_rx s"
  "tls_rxpos (fst (tls_close_tcp net s w)) = tls_rxpos s"
  "tls_ssl (fst (tls_close_tcp net s w)) = tls_ssl s"
  by (simp_all add: tls_close_tcp_def split_def Let_def)

definition session_same :: "'s tls_socket \<Rightarrow> 's tls_socket \<Rightarrow> bool" where
  "session_same s s' \<longleftrightarrow>
     tls_handshaked s' = tls_handshaked s \<and> tls_fatal s' = tls_fatal s
     \<and> tls_rx s' = tls_rx s \<and> tls_rxpos s' = tls_rxpos s"

lemma tls_handshake_loop_returns:
  assumes "clock_os api"
  shows "\<exists>ok s' w'. tls_handshake_loop net api deadline s w = Some (ok, s', w')
    \<and> (\<not> ok \<longrightarrow> \<not> tcp_is_open (tls_tcp s')) \<and> session_same s s'"
proof (induction "nat (deadline + 1 - steady_now api w)" arbitrary: s w rule: less_induct)
  case less
  obtain ret ssl tcp w1 where one:
    "ssl_handshake api (tls_bio net api) (tls_ssl s) (tls_tcp s) w = (ret, ssl, tcp, w1)"
    by (cases "ssl_handshake api (tls_bio net api) (tls_ssl s) (tls_tcp s) w")
  let ?s1 = "s\<lparr>tls_ssl := ssl, tls_tcp := tcp\<rparr>"
  show ?case
  proof (cases "ret \<noteq> 0 \<and> (ret = WANT_READ api \<or> ret = WANT_WRITE api) \<and> steady_now api w1 \<le> deadline")
    case False
    then show ?thesis
      using one tls_close_tcp_closed [of net ?s1 w1]
      by (subst tls_handshake_loop.simps) (auto simp: Let_def session_same_def split_def prod_eq_iff)
  next
    case True
    have "steady_now api w \<le> steady_now api w1"
      using assms one unfolding clock_os_def by (metis snd_conv)
    then have "nat (deadline + 1 - steady_now api (sleep_for api 2 w1)) < nat (deadline + 1 - steady_now api w)"
      using clock_sleep [OF assms, of w1] True by simp
    from less [OF this, of ?s1] True one show ?thesis
      by (subst tls_handshake_loop.simps) (auto simp: Let_def session_same_def)
  qed
qed

lemma tls_connect_result:
  assumes "clock_os api"
  shows "\<exists>ok s' w'. tls_connect net api host port s w = Some (ok, s', w')
    \<and> tls_fatal s' = tls_fatal s \<and> tls_rx s' = tls_rx s \<and> tls_rxpos s' = tls_rxpos s
    \<and> (if ok then tls_handshaked s'
       else tls_handshaked s' = tls_handshaked s \<and> \<not> tcp_is_open (tls_tcp s'))"
proof -
  have tcp_down: "\<not> tcp_is_open (fst (snd (tcp_connect net host port (tls_tcp s) w)))"
    if "\<not> fst (tcp_connect net host port (tls_tcp s) w)"
    using that
    by (auto simp: tcp_connect_def tcp_close_def tcp_is_open_def Let_def split_def split: option.splits prod.splits if_splits)
  obtain up tcp w1 where c: "tcp_connect net host port (tls_tcp s) w = (up, tcp, w1)"
    by (cases "tcp_connect net host port (tls_tcp s) w")
  obtain r1 ssl1 w2 where r1: "drbg_seed api ''zimodem_hal_tls'' (tls_ssl s) w1 = (r1, ssl1, w2)"
    by (cases "drbg_seed api ''zimodem_hal_tls'' (tls_ssl s) w1")
  obtain r2 ssl2 where r2: "config_defaults api ssl1 = (r2, ssl2)"
    by (cases "config_defaults api ssl1")
  obtain r3 ssl4 where r3: "ssl_setup api (conf_rng api (conf_verify_none api ssl2)) = (r3, ssl4)"
    by (cases "ssl_setup api (conf_rng api (conf_verify_none api ssl2))")
  let ?s5 = "s\<lparr>tls_tcp := tcp, tls_ssl := set_hostname api (c_view host) ssl4\<rparr>"
  obtain ok s6 w3 where loop:
    "tls_handshake_loop net api (steady_now api w2 + 15 * 10 ^ 9) ?s5 w2 = Some (ok, s6, w3)"
    and shut: "\<not> ok \<longrightarrow> \<not> tcp_is_open (tls_tcp s6)" and same: "session_same ?s5 s6"
    using tls_handshake_loop_returns [OF assms] by blast
  have closed: "\<exists>s' w'. tls_close_tcp net x v = (s', w') \<and> tls_fatal s' = tls_fatal x \<and> tls_rx s' = tls_rx x
      \<and> tls_rxpos s' = tls_rxpos x \<and> tls_handshaked s' = tls_handshaked x \<and> \<not> tcp_is_open (tls_tcp s')" for x v
    using tls_close_tcp_closed [of net x v] tls_close_tcp_frame [of net x v]
    by (cases "tls_close_tcp net x v") simp
  show ?thesis
  proof (cases "up \<and> r1 = 0 \<and> r2 = 0 \<and> r3 = 0")
    case True
    with c r1 r2 r3 loop shut same show ?thesis
      by (cases ok) (auto simp: tls_connect_def Let_def session_same_def)
  next
    case False
    then consider "\<not> up" | "up" "r1 \<noteq> 0" | "up" "r1 = 0" "r2 \<noteq> 0" | "up" "r1 = 0" "r2 = 0" "r3 \<noteq> 0"
      by blast
    then show ?thesis
    proof cases
      case 1
      then show ?thesis
        using tcp_down c by (auto simp: tls_connect_def)
    qed (use c r1 r2 r3 closed in \<open>simp_all add: tls_connect_def Let_def, fastforce+\<close>)
  qed
qed

lemma tls_write_loop_returns:
  assumes "clock_os api" and "sent \<le> length buf"
  shows "\<exists>n s' w'. tls_write_loop net api deadline buf sent s w = Some (n, s', w')"
proof (induction "(length buf - sent, nat (deadline + 1 - steady_now api w))" arbitrary: sent s w
    rule: wf_induct_rule [OF wf_lex_prod [OF wf_less_than wf_less_than]])
  case 1
  obtain n ssl tcp w1 where one:
    "ssl_write api (tls_bio net api) (drop sent buf) (tls_ssl s) (tls_tcp s) w = (n, ssl, tcp, w1)"
    by (cases "ssl_write api (tls_bio net api) (drop sent buf) (tls_ssl s) (tls_tcp s) w")
  let ?s1 = "s\<lparr>tls_ssl := ssl, tls_tcp := tcp\<rparr>"
  have later: "steady_now api w \<le> steady_now api w1"
    using assms one unfolding clock_os_def by (metis snd_conv)
  consider "\<not> sent < length buf" | "sent < length buf" "0 < n"
    | "sent < length buf" "\<not> 0 < n" "n = WANT_READ api \<or> n = WANT_WRITE api" "steady_now api w1 \<le> deadline"
    | "sent < length buf" "\<not> 0 < n" "n = WANT_READ api \<or> n = WANT_WRITE api" "deadline < steady_now api w1"
    | "sent < length buf" "\<not> 0 < n" "n \<noteq> WANT_READ api" "n \<noteq> WANT_WRITE api"
    by linarith
  then show ?case
  proof cases
    case 2
    have "length buf - (sent + nat n) < length buf - sent"
      using 2 by linarith
    then have "((length buf - (sent + nat n), nat (deadline + 1 - steady_now api w1)),
        length buf - sent, nat (deadline + 1 - steady_now api w)) \<in> less_than <*lex*> less_than"
      by simp
    from "1" [OF this, of ?s1] 2 one show ?thesis
      by (subst tls_write_loop.simps) (simp add: Let_def)
  next
    case 3
    then have "((length buf - sent, nat (deadline + 1 - steady_now api (sleep_for api 2 w1))),
        length buf - sent, nat (deadline + 1 - steady_now api w)) \<in> less_than <*lex*> less_than"
      using clock_sleep [OF assms(1), of w1] later by simp
    from "1" [OF this, of ?s1] 3 one show ?thesis
      by (subst tls_write_loop.simps) (auto simp: Let_def)
  next
    case 1
    then show ?thesis
      by (subst tls_write_loop.simps) simp
  next
    case 4
    with one show ?thesis
      by (subst tls_write_loop.simps) (auto simp: Let_def)
  next
    case 5
    with one show ?thesis
      by (subst tls_write_loop.simps) (auto simp: Let_def)
  qed
qed

section \<open>What is written and read\<close>

text \<open>
  What is documented of \<open>mbedtls_ssl_write\<close> and \<open>mbedtls_ssl_read\<close>, over the plaintext that
  the session has accepted (\<open>out\<close>) and the plaintext that it will still deliver (\<open>plain\<close>): a
  positive result counts the bytes accepted from the front, or delivered; any other result
  accepts, or delivers, none.
\<close>

definition tls_write_os :: "'w net_api \<Rightarrow> ('s, 'w) tls_api \<Rightarrow> ('s \<Rightarrow> 'w \<Rightarrow> bytes) \<Rightarrow> bool" where
  "tls_write_os net api out \<longleftrightarrow>
     (\<forall>bs ssl tcp w. case ssl_write api (tls_bio net api) bs ssl tcp w of (n, ssl', tcp', w') \<Rightarrow>
        n \<le> int (length bs) \<and> out ssl' w' = out ssl w @ take (nat n) bs) \<and>
     (\<forall>n ssl w. out ssl (sleep_for api n w) = out ssl w)"

definition tls_read_os ::
  "'w net_api \<Rightarrow> ('s, 'w) tls_api \<Rightarrow> ('s \<Rightarrow> tcp_socket \<Rightarrow> 'w \<Rightarrow> bytes) \<Rightarrow> bool" where
  "tls_read_os net api plain \<longleftrightarrow>
     (\<forall>len ssl tcp w. case ssl_read api (tls_bio net api) len ssl tcp w of (n, buf, ssl', tcp', w') \<Rightarrow>
        length buf \<le> len \<and> n \<le> int (length buf)
        \<and> plain ssl tcp w = take (nat n) buf @ plain ssl' tcp' w')"

lemma tls_write_loop_prefix:
  assumes "clock_os api" and "tls_write_os net api out" and "sent \<le> length buf"
    and "tls_write_loop net api deadline buf sent s w = Some (n, s', w')"
  shows "sent \<le> n \<and> n \<le> length buf \<and> out (tls_ssl s') w' = out (tls_ssl s) w @ take (n - sent) (drop sent buf)
    \<and> tls_handshaked s' = tls_handshaked s"
  using assms(3,4)
proof (induction "(length buf - sent, nat (deadline + 1 - steady_now api w))" arbitrary: sent s w
    rule: wf_induct_rule [OF wf_lex_prod [OF wf_less_than wf_less_than]])
  case 1
  obtain k ssl tcp w1 where one:
    "ssl_write api (tls_bio net api) (drop sent buf) (tls_ssl s) (tls_tcp s) w = (k, ssl, tcp, w1)"
    by (cases "ssl_write api (tls_bio net api) (drop sent buf) (tls_ssl s) (tls_tcp s) w")
  have k: "k \<le> int (length buf - sent)" and out1: "out ssl w1 = out (tls_ssl s) w @ take (nat k) (drop sent buf)"
    using assms(2) one unfolding tls_write_os_def
    by (metis (mono_tags, lifting) case_prod_conv length_drop)+
  have sleep: "out ssl (sleep_for api 2 w1) = out ssl w1"
    using assms(2) unfolding tls_write_os_def by blast
  let ?s1 = "s\<lparr>tls_ssl := ssl, tls_tcp := tcp\<rparr>"
  have later: "steady_now api w \<le> steady_now api w1"
    using assms(1) one unfolding clock_os_def by (metis snd_conv)
  note run = "1.prems"(2) [unfolded tls_write_loop.simps [of net api deadline buf sent s w]]
  consider "\<not> sent < length buf" | "sent < length buf" "0 < k"
    | "sent < length buf" "\<not> 0 < k" "k = WANT_READ api \<or> k = WANT_WRITE api" "steady_now api w1 \<le> deadline"
    | "sent < length buf" "\<not> 0 < k" "\<not> ((k = WANT_READ api \<or> k = WANT_WRITE api) \<and> steady_now api w1 \<le> deadline)"
    by linarith
  then show ?case
  proof cases
    case 1
    then show ?thesis
      using run "1.prems"(1) by simp
  next
    case 2
    have next_sent: "sent + nat k \<le> length buf"
      using 2 k by linarith
    have "length buf - (sent + nat k) < length buf - sent"
      using 2 by linarith
    then have dec: "((length buf - (sent + nat k), nat (deadline + 1 - steady_now api w1)),
        length buf - sent, nat (deadline + 1 - steady_now api w)) \<in> less_than <*lex*> less_than"
      by simp
    have rest: "tls_write_loop net api deadline buf (sent + nat k) ?s1 w1 = Some (n, s', w')"
      using run 2 one by (simp add: Let_def)
    have ih: "sent + nat k \<le> n" "n \<le> length buf"
      "out (tls_ssl s') w' = out ssl w1 @ take (n - (sent + nat k)) (drop (sent + nat k) buf)"
      "tls_handshaked s' = tls_handshaked s"
      using "1.hyps" [OF dec next_sent rest] by simp_all
    have "take (n - sent) (drop sent buf)
        = take (nat k) (drop sent buf) @ take (n - (sent + nat k)) (drop (sent + nat k) buf)"
      using ih(1) take_add [of "nat k" "n - (sent + nat k)" "drop sent buf"]
      by (simp add: add.commute)
    with ih out1 show ?thesis by simp
  next
    case 3
    then have dec: "((length buf - sent, nat (deadline + 1 - steady_now api (sleep_for api 2 w1))),
        length buf - sent, nat (deadline + 1 - steady_now api w)) \<in> less_than <*lex*> less_than"
      using clock_sleep [OF assms(1), of w1] later by simp
    have "tls_write_loop net api deadline buf sent ?s1 (sleep_for api 2 w1) = Some (n, s', w')"
      using run 3 one by (auto simp: Let_def)
    from "1.hyps" [OF dec "1.prems"(1) this] out1 sleep 3 show ?thesis by simp
  next
    case 4
    then have "n = sent" "tls_ssl s' = ssl" "w' = w1" "tls_handshaked s' = tls_handshaked s"
      using run one by (auto simp: Let_def split: if_splits)
    with 4 out1 "1.prems"(1) show ?thesis by simp
  qed
qed

text \<open>Decrypted bytes not handed out stand before what the session will still deliver.\<close>

definition tls_stream :: "('s \<Rightarrow> tcp_socket \<Rightarrow> 'w \<Rightarrow> bytes) \<Rightarrow> 's tls_socket \<Rightarrow> 'w \<Rightarrow> bytes" where
  "tls_stream plain s w = drop (tls_rxpos s) (tls_rx s) @ plain (tls_ssl s) (tls_tcp s) w"

definition tls_inv :: "'s tls_socket \<Rightarrow> bool" where
  "tls_inv s \<longleftrightarrow> tls_rxpos s \<le> length (tls_rx s) \<and> length (tls_rx s) \<le> 1536"

lemma tls_pump_stream:
  assumes os: "tls_read_os net api plain" and inv: "tls_inv s" and run: "tls_pump net api s w = (s', w')"
  shows "tls_inv s' \<and> tls_stream plain s' w' = tls_stream plain s w
    \<and> tls_handshaked s' = tls_handshaked s"
proof -
  obtain n buf ssl tcp w1 where one:
    "ssl_read api (tls_bio net api) 1536 (tls_ssl s) (tls_tcp s) w = (n, buf, ssl, tcp, w1)"
    by (cases "ssl_read api (tls_bio net api) 1536 (tls_ssl s) (tls_tcp s) w")
  have "length buf \<le> 1536" "plain (tls_ssl s) (tls_tcp s) w = take (nat n) buf @ plain ssl tcp w1"
    using os one unfolding tls_read_os_def by (metis (mono_tags, lifting) case_prod_conv)+
  with inv run one show ?thesis
    by (auto simp: tls_pump_def tls_stream_def tls_inv_def Let_def split: if_splits)
qed

lemma tls_read_stream:
  assumes os: "tls_read_os net api plain" and inv: "tls_inv s"
    and run: "tls_read net api len s w = (r, buf, s', w')"
  shows "tls_inv s' \<and> tls_stream plain s w = buf @ tls_stream plain s' w'
    \<and> (if r = - 1 then buf = [] else r = int (length buf)) \<and> length buf \<le> len"
proof (cases "\<not> tls_handshaked s \<or> len = 0")
  case True
  then show ?thesis
    using run inv by (auto simp: tls_read_def)
next
  case False
  obtain s1 w1 where pump: "tls_pump net api s w = (s1, w1)"
    by (cases "tls_pump net api s w")
  have p: "tls_inv s1" "tls_stream plain s1 w1 = tls_stream plain s w"
    using tls_pump_stream [OF os inv pump] by simp_all
  let ?n = "min len (length (tls_rx s1) - tls_rxpos s1)"
  show ?thesis
  proof (cases "length (tls_rx s1) - tls_rxpos s1 = 0")
    case True
    then have "buf = []" "s' = s1" "w' = w1" "r = - 1 \<or> r = 0"
      using run False pump by (auto simp: tls_read_def Let_def split: if_splits)
    with p show ?thesis by auto
  next
    case more: False
    then have res: "buf = take ?n (drop (tls_rxpos s1) (tls_rx s1))" "w' = w1"
        "s' = s1\<lparr>tls_rxpos := tls_rxpos s1 + ?n\<rparr>" "r = int_of_size ?n"
      using run False pump by (auto simp: tls_read_def Let_def split: if_splits)
    have small: "?n < 2147483648" and len: "length buf = ?n"
      using p(1) res(1) by (auto simp: tls_inv_def)
    have "tls_stream plain s1 w1 = buf @ tls_stream plain s' w'"
    proof -
      have "drop (tls_rxpos s1) (tls_rx s1) = buf @ drop ?n (drop (tls_rxpos s1) (tls_rx s1))"
        unfolding res(1) by (rule append_take_drop_id [symmetric])
      then show ?thesis
        using res by (simp add: tls_stream_def add.commute)
    qed
    moreover have "tls_inv s'"
      using p(1) res(3) by (auto simp: tls_inv_def)
    moreover have "r = int (length buf)"
      using res(4) len small by (simp add: int_of_size_small)
    ultimately show ?thesis
      using p(2) len by simp
  qed
qed

definition tls_step ::
  "'w net_api \<Rightarrow> ('s, 'w) tls_api \<Rightarrow> source_op \<Rightarrow> 's tls_socket \<times> 'w \<Rightarrow> (int \<times> bytes) \<times> 's tls_socket \<times> 'w"
where
  "tls_step net api opr st =
     (let (s, w) = st in
      case opr of
        Available \<Rightarrow> let (v, s1, w1) = tls_available net api s w in ((v, []), s1, w1)
      | PeekByte \<Rightarrow> let (v, s1, w1) = tls_peek_byte net api s w in ((v, []), s1, w1)
      | ReadInto len \<Rightarrow> let (r, buf, s1, w1) = tls_read net api len s w in ((r, buf), s1, w1))"

definition tls_valid ::
  "'w net_api \<Rightarrow> ('s, 'w) tls_api \<Rightarrow> ('s \<Rightarrow> tcp_socket \<Rightarrow> 'w \<Rightarrow> bytes) \<Rightarrow> 's tls_socket \<times> 'w \<Rightarrow> bool" where
  "tls_valid net api plain st \<longleftrightarrow> tls_inv (fst st) \<and> tls_read_os net api plain"

lemma tls_step_stream:
  assumes os: "tls_read_os net api plain" and inv: "tls_inv s"
    and run: "tls_step net api opr (s, w) = ((r, buf), s', w')"
  shows "tls_inv s' \<and> tls_stream plain s w = take (nat r) buf @ tls_stream plain s' w'"
proof (cases opr)
  case Available
  then show ?thesis
    using run inv tls_pump_stream [OF os inv]
    by (auto simp: tls_step_def tls_available_def Let_def split: if_splits prod.splits)
next
  case PeekByte
  then show ?thesis
    using run inv tls_pump_stream [OF os inv]
    by (auto simp: tls_step_def tls_peek_byte_def Let_def split: if_splits prod.splits)
next
  case (ReadInto len)
  then have "tls_read net api len s w = (r, buf, s', w')"
    using run by (auto simp: tls_step_def split: prod.splits)
  from tls_read_stream [OF os inv this] show ?thesis
    by (cases "r = - 1") auto
qed

interpretation tls_source: byte_source "\<lambda>st. tls_stream plain (fst st) (snd st)"
    "tls_valid net api plain" "\<lambda>opr. True" "\<lambda>out. True" "tls_step net api"
proof
  fix st opr out st'
  assume valid: "tls_valid net api plain st" and run: "tls_step net api opr st = (out, st')"
  obtain s w r buf s' w' where names: "st = (s, w)" "out = (r, buf)" "st' = (s', w')"
    by (cases st; cases out; cases st')
  note one = tls_step_stream [OF _ _ run [unfolded names], of plain]
  show "tls_valid net api plain st'"
    using one valid names by (simp add: tls_valid_def)
  show "tls_stream plain (fst st) (snd st) = obtained [out] @ tls_stream plain (fst st') (snd st')"
    using one valid names by (simp add: tls_valid_def)
qed

section \<open>A null cipher over the loopback system, for concrete instances\<close>

text \<open>The session state is the plaintext still to be delivered.\<close>

definition loop_tls :: "(bytes, loop_world) tls_api" where
  "loop_tls =
     \<lparr>WANT_READ = - 26880, WANT_WRITE = - 26752, SEND_FAILED = - 78, RECV_FAILED = - 76,
      ssl_init = [79, 75],
      drbg_seed = (\<lambda>p ssl w. (0, ssl, w)),
      config_defaults = (\<lambda>ssl. (0, ssl)),
      conf_verify_none = (\<lambda>ssl. ssl),
      conf_rng = (\<lambda>ssl. ssl),
      ssl_setup = (\<lambda>ssl. (0, ssl)),
      set_hostname = (\<lambda>host ssl. ssl),
      ssl_handshake = (\<lambda>b ssl tcp w. (if lw_clock w < 3000000 then - 26880 else 0, ssl, tcp, w)),
      ssl_read = (\<lambda>b len ssl tcp w.
        (if ssl = [] then (- 26880, [], [], tcp, w)
         else (int (length (take len ssl)), take len ssl, drop len ssl, tcp, w))),
      ssl_write = (\<lambda>b bs ssl tcp w.
        (int (length (take 4 bs)), ssl, tcp, w\<lparr>lw_sent := lw_sent w @ [take 4 bs]\<rparr>)),
      close_notify = (\<lambda>b ssl tcp w. (ssl, tcp, w)),
      steady_now = lw_clock,
      sleep_for = (\<lambda>n w. w\<lparr>lw_clock := lw_clock w + int n * 1000000\<rparr>)\<rparr>"

lemma loop_tls_clock: "clock_os loop_tls"
  by (simp add: clock_os_def loop_tls_def)

lemma loop_tls_write: "tls_write_os loop_os loop_tls (\<lambda>ssl w. concat (lw_sent w))"
  by (auto simp: tls_write_os_def loop_tls_def min_def)

lemma loop_tls_read: "tls_read_os loop_os loop_tls (\<lambda>ssl tcp w. ssl)"
  by (auto simp: tls_read_os_def loop_tls_def min_def)

lemma loop_tls_setup:
  "drbg_seed loop_tls p ssl w = (0, ssl, w)"
  "config_defaults loop_tls ssl = (0, ssl)"
  "ssl_setup loop_tls ssl = (0, ssl)"
  by (simp_all add: loop_tls_def)

lemma loop_tls_handshake:
  "3000000 \<le> lw_clock w \<Longrightarrow> tls_handshake_loop loop_os loop_tls d s w = Some (True, s, w)"
  by (subst tls_handshake_loop.simps) (simp add: loop_tls_def)

section \<open>Properties\<close>

text \<open>
  A TLS client reads the session's plaintext without gaps or repeats. Whatever way
  \<open>available\<close>, \<open>peek_byte\<close> and \<open>read\<close> calls follow one another, through refills of the buffer,
  polls that find nothing and fatal errors, the bytes the reads returned, followed by the buffered
  ones and what the session will still deliver, are exactly what it was to deliver at the start.
\<close>

theorem tls_reads_deliver_the_plaintext:
  assumes "tls_read_os net api plain" and "tls_inv s"
    and "source_run (tls_step net api) oprs (s, w) = (outs, s', w')"
  shows "tls_stream plain s w = obtained outs @ tls_stream plain s' w' \<and> tls_inv s'"
  using tls_source.run_delivers [OF assms(3), of plain] assms(1,2)
  by (simp add: tls_valid_def list_all_iff)

theorem tls_reads_deliver_the_plaintext_witness:
  "\<exists>outs s' w'. source_run (tls_step loop_os loop_tls)
       [Available, PeekByte, ReadInto 1, ReadInto 9, ReadInto 9]
       ((tls_new loop_tls)\<lparr>tls_handshaked := True\<rparr>, loop_start) = (outs, s', w')
     \<and> [79, 75] = obtained outs @ tls_stream (\<lambda>ssl tcp w. ssl) s' w'"
proof -
  let ?s = "(tls_new loop_tls)\<lparr>tls_handshaked := True\<rparr>"
  obtain outs s' w' where run: "source_run (tls_step loop_os loop_tls)
      [Available, PeekByte, ReadInto 1, ReadInto 9, ReadInto 9] (?s, loop_start) = (outs, s', w')"
    by (metis surj_pair)
  have inv: "tls_inv ?s"
    by (simp add: tls_inv_def tls_new_def)
  have "tls_stream (\<lambda>ssl tcp w. ssl) ?s loop_start = [79, 75]"
    by (simp add: tls_stream_def tls_new_def loop_tls_def)
  then show ?thesis
    using tls_reads_deliver_the_plaintext [OF loop_tls_read inv run] run by auto
qed

text \<open>
  C23: \<open>TlsSocket::write\<close> returns, and what it returns is what was accepted. Where the clock
  advances the loop ends (by its ten second deadline at the latest) and yields a count, at most
  the length asked for, such that exactly that prefix of the buffer was accepted for encryption,
  once and in order.
\<close>

theorem tls_write_returns:
  assumes "clock_os api" and "tls_write_os net api out"
  shows "\<exists>n s' w'. tls_write net api buf s w = Some (n, s', w')
    \<and> n \<le> length buf \<and> out (tls_ssl s') w' = out (tls_ssl s) w @ take n buf"
proof (cases "\<not> tls_handshaked s \<or> length buf = 0")
  case True
  then show ?thesis
    by (auto simp: tls_write_def)
next
  case False
  obtain n s' w' where run:
    "tls_write_loop net api (steady_now api w + 10 * 10 ^ 9) buf 0 s w = Some (n, s', w')"
    using tls_write_loop_returns [OF assms(1), of 0 buf net "steady_now api w + 10 * 10 ^ 9" s w] by auto
  from tls_write_loop_prefix [OF assms le0 run] run False show ?thesis
    by (simp add: tls_write_def)
qed

theorem tls_write_returns_witness:
  "\<exists>n s' w'. tls_write loop_os loop_tls [1, 2, 3, 4, 5] ((tls_new loop_tls)\<lparr>tls_handshaked := True\<rparr>) loop_start
     = Some (n, s', w') \<and> n \<le> 5"
  using tls_write_returns [OF loop_tls_clock loop_tls_write, of "[1, 2, 3, 4, 5]"
      "(tls_new loop_tls)\<lparr>tls_handshaked := True\<rparr>" loop_start]
  by fastforce

text \<open>
  C24: \<open>TlsSocket::connect\<close> returns. Where the clock advances, a handshake that makes no progress
  is given up after its fifteen second deadline; \<open>connect\<close> then answers false with the TCP socket
  closed, as on every other failure, and where it answers true the handshake is recorded.
\<close>

theorem tls_connect_returns:
  assumes "clock_os api"
  shows "\<exists>ok s' w'. tls_connect net api host port s w = Some (ok, s', w')
    \<and> (if ok then tls_handshaked s' else \<not> tcp_is_open (tls_tcp s'))"
  using tls_connect_result [OF assms, of net host port s w] by (auto split: if_splits)

theorem tls_connect_returns_witness:
  "\<exists>ok s' w'. tls_connect loop_os loop_tls ''localhost'' 443 (tls_new loop_tls) loop_start = Some (ok, s', w')"
  using tls_connect_returns [OF loop_tls_clock, of loop_os "''localhost''" 443 "tls_new loop_tls" loop_start]
  by blast

text \<open>Writing does not look at the mark that the session is dead.\<close>

lemma tls_write_loop_ignores_fatal:
  assumes "tls_write_loop net api deadline buf sent s w = Some r"
  shows "\<exists>m. tls_write_loop net api deadline buf sent (s\<lparr>tls_fatal := b\<rparr>) w
    = Some (fst r, (fst (snd r))\<lparr>tls_fatal := m\<rparr>, snd (snd r))"
proof (rule tls_write_loop.raw_induct [OF _ assms, where P = "\<lambda>net api deadline buf sent s w r.
    \<exists>m. tls_write_loop net api deadline buf sent (s\<lparr>tls_fatal := b\<rparr>) w
      = Some (fst r, (fst (snd r))\<lparr>tls_fatal := m\<rparr>, snd (snd r))"])
  fix wl :: "'c net_api \<Rightarrow> ('d, 'c) tls_api \<Rightarrow> int \<Rightarrow> bytes \<Rightarrow> nat \<Rightarrow> 'd tls_socket \<Rightarrow> 'c \<Rightarrow> (nat \<times> 'd tls_socket \<times> 'c) option"
  fix net api deadline buf sent s w r
  assume ih: "\<And>net api deadline buf sent s w r. wl net api deadline buf sent s w = Some r \<Longrightarrow>
      \<exists>m. tls_write_loop net api deadline buf sent (s\<lparr>tls_fatal := b\<rparr>) w
        = Some (fst r, (fst (snd r))\<lparr>tls_fatal := m\<rparr>, snd (snd r))"
    and run: "(if \<not> sent < length buf then Some (sent, s, w)
      else
        let (n, ssl, tcp, w1) = ssl_write api (tls_bio net api) (drop sent buf) (tls_ssl s) (tls_tcp s) w;
            s1 = s\<lparr>tls_ssl := ssl, tls_tcp := tcp\<rparr>
        in
        if 0 < n then wl net api deadline buf (sent + nat n) s1 w1
        else if n = WANT_READ api \<or> n = WANT_WRITE api
        then (if deadline < steady_now api w1 then Some (sent, s1, w1)
              else wl net api deadline buf sent s1 (sleep_for api 2 w1))
        else Some (sent, s1\<lparr>tls_fatal := True\<rparr>, w1)) = Some r"
  obtain n ssl tcp w1 where one: "ssl_write api (tls_bio net api) (drop sent buf) (tls_ssl s) (tls_tcp s) w = (n, ssl, tcp, w1)"
    by (cases "ssl_write api (tls_bio net api) (drop sent buf) (tls_ssl s) (tls_tcp s) w")
  let ?s1 = "s\<lparr>tls_ssl := ssl, tls_tcp := tcp\<rparr>"
  have s1: "s\<lparr>tls_ssl := ssl, tls_tcp := tcp, tls_fatal := b\<rparr> = s\<lparr>tls_fatal := b, tls_ssl := ssl, tls_tcp := tcp\<rparr>"
    by simp
  note rec = ih [of net api deadline buf _ ?s1 _ r]
  have step: "tls_write_loop net api deadline buf sent (s\<lparr>tls_fatal := b\<rparr>) w =
      (if \<not> sent < length buf then Some (sent, s\<lparr>tls_fatal := b\<rparr>, w)
       else if 0 < n then tls_write_loop net api deadline buf (sent + nat n) (?s1\<lparr>tls_fatal := b\<rparr>) w1
       else if n = WANT_READ api \<or> n = WANT_WRITE api
       then (if deadline < steady_now api w1 then Some (sent, ?s1\<lparr>tls_fatal := b\<rparr>, w1)
             else tls_write_loop net api deadline buf sent (?s1\<lparr>tls_fatal := b\<rparr>) (sleep_for api 2 w1))
       else Some (sent, ?s1\<lparr>tls_fatal := True\<rparr>, w1))"
    by (subst tls_write_loop.simps) (simp add: one s1 Let_def)
  show "\<exists>m. tls_write_loop net api deadline buf sent (s\<lparr>tls_fatal := b\<rparr>) w
      = Some (fst r, (fst (snd r))\<lparr>tls_fatal := m\<rparr>, snd (snd r))"
    unfolding step using run rec [of "sent + nat n" w1] rec [of sent "sleep_for api 2 w1"] one
    by (auto simp: Let_def split: if_splits)
qed

text \<open>
  C40: a \<open>TlsSocket\<close> that was closed reads nothing any more although \<open>connect\<close> says it is up.
  \<open>close\<close> marks the session fatal and no later call takes the mark back: a \<open>connect\<close> after it may
  open the TCP connection, complete the handshake and answer true, and still \<open>connected\<close> is false,
  \<open>available\<close> is 0, and \<open>read\<close> answers -1 for ever. \<open>write\<close> does not look at the mark: it encrypts
  and sends the same bytes, and returns the same count, as on a live session.
\<close>

theorem connect_after_close_reads_nothing:
  assumes "clock_os api"
    and "tls_connect net api host port (fst (tls_close net api s w)) (snd (tls_close net api s w))
      = Some (True, s2, w2)"
  shows "tls_connected net s2 w2 = (False, w2) \<and> tls_available net api s2 w2 = (0, s2, w2)
    \<and> (0 < len \<longrightarrow> tls_read net api len s2 w2 = (- 1, [], s2, w2))
    \<and> (\<exists>n s3 w3 m. tls_write net api buf s2 w2 = Some (n, s3, w3)
        \<and> tls_write net api buf (s2\<lparr>tls_fatal := False\<rparr>) w2 = Some (n, s3\<lparr>tls_fatal := m\<rparr>, w3))"
proof -
  have "tls_fatal (fst (tls_close net api s w))" "tls_rx (fst (tls_close net api s w)) = []"
    "tls_rxpos (fst (tls_close net api s w)) = 0"
    by (simp_all add: tls_close_def Let_def split_def)
  with tls_connect_result [OF assms(1), of net host port "fst (tls_close net api s w)"
      "snd (tls_close net api s w)"] assms(2)
  have dead: "tls_fatal s2" "tls_rx s2 = []" "tls_rxpos s2 = 0" and up: "tls_handshaked s2"
    by auto
  have "\<exists>n s3 w3 m. tls_write net api buf s2 w2 = Some (n, s3, w3)
      \<and> tls_write net api buf (s2\<lparr>tls_fatal := False\<rparr>) w2 = Some (n, s3\<lparr>tls_fatal := m\<rparr>, w3)"
  proof (cases "buf = []")
    case True
    then show ?thesis
      by (auto simp: tls_write_def)
  next
    case False
    let ?deadline = "steady_now api w2 + 10 * 10 ^ 9"
    obtain n s3 w3 where run: "tls_write_loop net api ?deadline buf 0 s2 w2 = Some (n, s3, w3)"
      using tls_write_loop_returns [OF assms(1), of 0 buf net ?deadline s2 w2] by auto
    then show ?thesis
      using tls_write_loop_ignores_fatal [OF run, of False] up False by (simp add: tls_write_def)
  qed
  with dead up show ?thesis
    by (simp add: tls_connected_def tls_available_def tls_read_def tls_pump_def)
qed

theorem connect_after_close_reads_nothing_witness:
  "\<exists>s2 w2. tls_connect loop_os loop_tls ''localhost'' 443
       (fst (tls_close loop_os loop_tls (tls_new loop_tls) (loop_start\<lparr>lw_clock := 3000000\<rparr>)))
       (snd (tls_close loop_os loop_tls (tls_new loop_tls) (loop_start\<lparr>lw_clock := 3000000\<rparr>)))
       = Some (True, s2, w2)
     \<and> \<not> fst (tls_connected loop_os s2 w2)"
proof -
  let ?c = "tls_close loop_os loop_tls (tls_new loop_tls) (loop_start\<lparr>lw_clock := 3000000\<rparr>)"
  let ?tcp = "\<lparr>tcp_handle = 3, tcp_peeked = - 1\<rparr>"
  let ?w = "loop_start\<lparr>lw_clock := 3000000, lw_fds := {0, 1, 2, 3}, lw_next := 4\<rparr>"
  have tcp: "tcp_connect loop_os ''localhost'' 443 (tls_tcp (fst ?c)) (snd ?c) = (True, ?tcp, ?w)"
    by (auto simp: tls_close_def tls_close_tcp_def tls_new_def tcp_new_def tcp_close_def
        tcp_is_open_def tcp_connect_def resolve_ipv4_def loop_os_def loop_fresh_def
        loop_start_def kInvalid_def c_view_def)
  have "lw_clock ?w = 3000000"
    by simp
  then have "\<exists>s2 w2. tls_connect loop_os loop_tls ''localhost'' 443 (fst ?c) (snd ?c) = Some (True, s2, w2)"
    unfolding tls_connect_def tcp by (simp add: loop_tls_setup loop_tls_handshake)
  then obtain s2 w2 where run: "tls_connect loop_os loop_tls ''localhost'' 443 (fst ?c) (snd ?c) = Some (True, s2, w2)"
    by blast
  have "tls_connected loop_os s2 w2 = (False, w2)"
    by (rule connect_after_close_reads_nothing [OF loop_tls_clock run, THEN conjunct1])
  then have "\<not> fst (tls_connected loop_os s2 w2)"
    by simp
  with run show ?thesis
    by blast
qed

text \<open>
  A \<open>connect\<close> that fails does not leave the object closed. On an object with an old session,
  a \<open>connect\<close> whose TCP connection cannot be opened answers false with the old session's
  handshake mark and its buffered bytes still in place, so \<open>available\<close> and \<open>read\<close> go on
  delivering the old peer's bytes.
\<close>

theorem failed_reconnect_keeps_old_bytes:
  assumes "tls_handshaked s" and "tls_rxpos s < length (tls_rx s)"
    and "fst (tcp_connect net host port (tls_tcp s) w) = False"
  shows "\<exists>s' w'. tls_connect net api host port s w = Some (False, s', w')
    \<and> tls_available net api s' w' = (int_of_size (length (tls_rx s) - tls_rxpos s), s', w')
    \<and> fst (snd (tls_read net api len s' w')) = take len (drop (tls_rxpos s) (tls_rx s))"
proof -
  obtain tcp w1 where c: "tcp_connect net host port (tls_tcp s) w = (False, tcp, w1)"
    using assms(3) by (cases "tcp_connect net host port (tls_tcp s) w") simp
  let ?s = "s\<lparr>tls_tcp := tcp\<rparr>"
  have pump: "tls_pump net api ?s w1 = (?s, w1)"
    using assms(2) by (simp add: tls_pump_def)
  have "tls_connect net api host port s w = Some (False, ?s, w1)"
    by (simp add: tls_connect_def c)
  moreover have "tls_available net api ?s w1 = (int_of_size (length (tls_rx s) - tls_rxpos s), ?s, w1)"
    using assms(1) by (simp add: tls_available_def pump)
  moreover have "fst (snd (tls_read net api len ?s w1)) = take len (drop (tls_rxpos s) (tls_rx s))"
    using assms(1,2) by (auto simp: tls_read_def pump Let_def min_def)
  ultimately show ?thesis
    by blast
qed

theorem failed_reconnect_keeps_old_bytes_witness:
  "\<exists>s' w'. fst (snd (tls_read loop_os loop_tls 9 s' (w' :: loop_world))) = [79, 75]"
proof -
  let ?s = "(tls_new loop_tls)\<lparr>tls_handshaked := True, tls_rx := [0, 79, 75], tls_rxpos := 1\<rparr>"
  have "fst (tcp_connect loop_os ''nowhere'' 443 (tls_tcp ?s) loop_start) = False"
    by (simp add: tls_new_def tcp_new_def tcp_connect_def tcp_close_def tcp_is_open_def
        resolve_ipv4_def loop_os_def c_view_def)
  from failed_reconnect_keeps_old_bytes [OF _ _ this, of loop_tls 9] show ?thesis
    by auto
qed

end
