(* ===== verification/IPAddr.thy ===== *)
theory IPAddr
  imports WString
begin

unbundle bit_operations_syntax

text \<open>
  \<open>IPAddress\<close> of \<open>arduino/IPAddress.h\<close>: four octets, packed into and out of a 32-bit word with
  octet 0 in the low-order byte, indexed modulo four, printed as a dotted quad. The implicit
  conversion to \<open>uint32_t\<close> is what C++ compares two addresses by, and makes the type a
  \<open>linorder\<close> here.
\<close>

datatype ip_address = IPAddress u8 u8 u8 u8

definition ip_default :: ip_address where
  "ip_default = IPAddress 0 0 0 0"

definition ip_of_u32 :: "u32 \<Rightarrow> ip_address" where
  "ip_of_u32 address =
     IPAddress (ucast address) (ucast (drop_bit 8 address)) (ucast (drop_bit 16 address))
       (ucast (drop_bit 24 address))"

primrec ip_octets :: "ip_address \<Rightarrow> u8 list" where
  "ip_octets (IPAddress o1 o2 o3 o4) = [o1, o2, o3, o4]"

text \<open>\<open>static_cast<size_t>(index) & 3\<close> of an \<open>int\<close>.\<close>

definition ip_index :: "int \<Rightarrow> nat" where
  "ip_index index = nat (index mod 4)"

definition ip_at :: "ip_address \<Rightarrow> int \<Rightarrow> u8" where
  "ip_at ip index = ip_octets ip ! ip_index index"

definition ip_of_octets :: "u8 list \<Rightarrow> ip_address" where
  "ip_of_octets os = IPAddress (os ! 0) (os ! 1) (os ! 2) (os ! 3)"

definition ip_set_at :: "ip_address \<Rightarrow> int \<Rightarrow> u8 \<Rightarrow> ip_address" where
  "ip_set_at ip index b = ip_of_octets ((ip_octets ip)[ip_index index := b])"

primrec ip_to_u32 :: "ip_address \<Rightarrow> u32" where
  "ip_to_u32 (IPAddress o1 o2 o3 o4) =
     ucast o1 OR push_bit 8 (ucast o2) OR push_bit 16 (ucast o3) OR push_bit 24 (ucast o4)"

definition ip_eq :: "ip_address \<Rightarrow> ip_address \<Rightarrow> bool" where
  "ip_eq a b \<longleftrightarrow> ip_octets a ! 0 = ip_octets b ! 0 \<and> ip_octets a ! 1 = ip_octets b ! 1
     \<and> ip_octets a ! 2 = ip_octets b ! 2 \<and> ip_octets a ! 3 = ip_octets b ! 3"

definition ip_ne :: "ip_address \<Rightarrow> ip_address \<Rightarrow> bool" where
  "ip_ne a b \<longleftrightarrow> \<not> ip_eq a b"

definition dotted :: "ip_address \<Rightarrow> string" where
  "dotted ip =
     dec_of_nat (unat (ip_octets ip ! 0)) @ ''.'' @ dec_of_nat (unat (ip_octets ip ! 1)) @ ''.''
       @ dec_of_nat (unat (ip_octets ip ! 2)) @ ''.'' @ dec_of_nat (unat (ip_octets ip ! 3))"

text \<open>\<open>snprintf\<close> into sixteen characters, then \<open>String(buf)\<close>.\<close>

definition ip_toString :: "ip_address \<Rightarrow> arduino_string" where
  "ip_toString ip = string_of_cstr (Some (vsnprintf_buf 16 (Some (dotted ip))))"

section \<open>Packing\<close>

lemma ip_of_u32_to_u32 [simp]: "ip_of_u32 (ip_to_u32 ip) = ip"
proof (cases ip)
  case (IPAddress o1 o2 o3 o4)
  show ?thesis
    unfolding IPAddress ip_of_u32_def ip_to_u32.simps ip_address.inject
    by (intro conjI; rule bit_word_eqI; auto simp: bit_simps dest: bit_imp_le_length)
qed

lemma ip_to_u32_of_u32 [simp]: "ip_to_u32 (ip_of_u32 w) = w"
proof (rule bit_word_eqI)
  fix n assume "n < LENGTH(32)"
  then consider "n < 8" | "8 \<le> n" "n < 16" | "16 \<le> n" "n < 24" | "24 \<le> n" "n < 32"
    by fastforce
  then show "bit (ip_to_u32 (ip_of_u32 w)) n = bit w n"
    by cases (auto simp: ip_of_u32_def bit_simps)
qed

lemma ip_to_u32_inject: "ip_to_u32 a = ip_to_u32 b \<longleftrightarrow> a = b"
  by (metis ip_of_u32_to_u32)

instantiation ip_address :: linorder
begin

definition less_eq_ip_address :: "ip_address \<Rightarrow> ip_address \<Rightarrow> bool" where
  "a \<le> b \<longleftrightarrow> ip_to_u32 a \<le> ip_to_u32 b"

definition less_ip_address :: "ip_address \<Rightarrow> ip_address \<Rightarrow> bool" where
  "a < b \<longleftrightarrow> ip_to_u32 a < ip_to_u32 b"

instance
  by standard
    (auto simp: less_eq_ip_address_def less_ip_address_def less_le_not_le ip_to_u32_inject [symmetric])

end

section \<open>Printing\<close>

text \<open>The address a dotted quad denotes.\<close>

definition parse_dotted :: "string \<Rightarrow> ip_address option" where
  "parse_dotted s =
     (let ps = split_on CHR ''.'' s in
      if length ps = 4 \<and> list_all (\<lambda>p. p \<noteq> [] \<and> dec_value p < 256) ps
      then Some (ip_of_octets (map (\<lambda>p. word_of_nat (dec_value p)) ps)) else None)"

lemma dec_of_nat_no_dot: "CHR ''.'' \<notin> set (dec_of_nat n)"
  using dec_of_nat_digits [of "CHR ''.''" n] by auto

lemma dec_of_nat_Nil [simp]: "dec_of_nat n \<noteq> []"
  by (simp add: dec_of_nat.simps [of n])

lemma octet_bound: "unat (b :: u8) < 256"
proof -
  have "unat b < 2 ^ LENGTH(8)"
    by (rule unsigned_less)
  then show ?thesis by simp
qed

lemma octet_length: "length (dec_of_nat (unat (b :: u8))) \<le> 3"
  using octet_bound [of b] by (intro dec_of_nat_length) simp_all

lemma dotted_length: "length (dotted ip) \<le> 15"
proof (cases ip)
  case (IPAddress a b c d)
  then show ?thesis
    using octet_length [of a] octet_length [of b] octet_length [of c] octet_length [of d]
    by (simp add: dotted_def)
qed

lemma dotted_nul_free: "nul_free (dotted ip)"
  by (simp add: dotted_def)

lemma c_view_append_nul: "nul_free t \<Longrightarrow> c_view (t @ [CHR 0x00]) = t"
  by (induction t) (simp_all add: c_view_def)

lemma ip_toString_dotted: "value_of (ip_toString ip) = dotted ip"
  using dotted_length [of ip] dotted_nul_free [of ip]
  by (simp add: ip_toString_def string_of_cstr_def cstr_or_empty_def vsnprintf_buf_def c_view_append_nul)

lemma split_dotted:
  "split_on CHR ''.'' (dotted (IPAddress a b c d)) =
     [dec_of_nat (unat a), dec_of_nat (unat b), dec_of_nat (unat c), dec_of_nat (unat d)]"
  by (simp add: dotted_def split_on_append split_on_plain dec_of_nat_no_dot)

lemma parse_dotted_dotted: "parse_dotted (dotted ip) = Some ip"
proof (cases ip)
  case (IPAddress a b c d)
  then show ?thesis
    using octet_bound by (simp add: parse_dotted_def split_dotted dec_value_inverse ip_of_octets_def)
qed

section \<open>Properties\<close>

text \<open>
  An address and its 32-bit form determine each other. Unpacking a packed address and packing
  an unpacked word give back what there was, for every address and every word, octet 0 in the low
  byte; an indexed store is read back at the same index, indices counting modulo four.
\<close>

theorem ip_pack_roundtrip:
  "ip_of_u32 (ip_to_u32 ip) = ip \<and> ip_to_u32 (ip_of_u32 w) = w
     \<and> ip_at (ip_of_u32 w) 0 = ucast w
     \<and> ip_at (ip_set_at ip i b) j = (if i mod 4 = j mod 4 then b else ip_at ip j)"
proof -
  have four: "length (ip_octets ip) = 4" for ip
    by (cases ip) simp
  have less: "ip_index k < 4" for k
    by (simp add: ip_index_def)
  have collect: "ip_octets (ip_of_octets os) = os" if "length os = 4" for os
    using that by (auto simp: ip_of_octets_def numeral_eq_Suc length_Suc_conv)
  have "ip_index i = ip_index j \<longleftrightarrow> i mod 4 = j mod 4"
    by (simp add: ip_index_def eq_nat_nat_iff)
  then show ?thesis
    by (simp add: ip_at_def ip_set_at_def collect four less nth_list_update)
      (simp add: ip_of_u32_def ip_index_def)
qed

text \<open>
  C28: the printed form fits its buffer and denotes the address. \<open>toString\<close> never truncates: the
  dotted quad has at most 15 characters, and splitting it at the dots and reading the four
  decimal numbers gives the address back.
\<close>

theorem ip_toString_roundtrip:
  "length (value_of (ip_toString ip)) \<le> 15 \<and> parse_dotted (value_of (ip_toString ip)) = Some ip"
  by (simp add: ip_toString_dotted dotted_length parse_dotted_dotted)

end
