(* ===== verification/WiFi.thy ===== *)
theory WiFi
  imports Tls IPAddr PrintStream
begin

text \<open>
  The Arduino network classes: \<open>WiFiClient.h\<close>, \<open>WiFiClientSecure.h\<close>, \<open>WiFiServer.h\<close>,
  \<open>WiFiUdp.h\<close> and \<open>WiFi.h\<close>. Clients share their sockets through \<open>std::shared_ptr\<close>: the model
  has a store of sockets with their use counts, and client objects that point into it, so that
  copies alias and the last owner closes. The virtual methods dispatch on the dynamic type, a
  \<open>Plain\<close> or a \<open>Secure\<close> transport; assigning a secure client to a \<open>WiFiClient\<close> slices it.
\<close>

section \<open>The methods of \<open>WiFiClient\<close>\<close>

definition client_connect ::
  "'w net_api \<Rightarrow> c_string \<Rightarrow> u16 \<Rightarrow> tcp_socket \<Rightarrow> 'w \<Rightarrow> int \<times> tcp_socket \<times> 'w" where
  "client_connect net host port s w =
     (let (ok, s1, w1) = tcp_connect net (cstr_or_empty host) port s w
      in (if ok then 1 else 0, s1, w1))"

definition client_connected :: "'w net_api \<Rightarrow> tcp_socket \<Rightarrow> 'w \<Rightarrow> u8 \<times> 'w" where
  "client_connected net s w = (let (up, w1) = tcp_connected net s w in (if up then 1 else 0, w1))"

definition client_available :: "'w net_api \<Rightarrow> tcp_socket \<Rightarrow> 'w \<Rightarrow> int" where
  "client_available net s w = tcp_available net s w"

definition client_read :: "'w net_api \<Rightarrow> tcp_socket \<Rightarrow> 'w \<Rightarrow> int \<times> tcp_socket \<times> 'w" where
  "client_read net s w =
     (let (n, buf, s1, w1) = tcp_read net 1 s w in (if n = 1 then uint (hd buf) else - 1, s1, w1))"

definition client_read_buf ::
  "'w net_api \<Rightarrow> nat \<Rightarrow> tcp_socket \<Rightarrow> 'w \<Rightarrow> int \<times> bytes \<times> tcp_socket \<times> 'w" where
  "client_read_buf net len s w = tcp_read net len s w"

definition client_peek :: "'w net_api \<Rightarrow> tcp_socket \<Rightarrow> 'w \<Rightarrow> int \<times> tcp_socket \<times> 'w" where
  "client_peek net s w = tcp_peek_byte net s w"

definition client_write :: "'w net_api \<Rightarrow> bytes \<Rightarrow> tcp_socket \<Rightarrow> 'w \<Rightarrow> nat \<times> 'w" where
  "client_write net buf s w = tcp_write net buf s w"

definition client_write_byte :: "'w net_api \<Rightarrow> u8 \<Rightarrow> tcp_socket \<Rightarrow> 'w \<Rightarrow> nat \<times> 'w" where
  "client_write_byte net b s w = tcp_write net [b] s w"

definition client_flush :: "tcp_socket \<Rightarrow> tcp_socket" where
  "client_flush s = tcp_flush s"

definition client_setNoDelay :: "'w net_api \<Rightarrow> bool \<Rightarrow> tcp_socket \<Rightarrow> 'w \<Rightarrow> 'w" where
  "client_setNoDelay net nodelay s w = tcp_set_no_delay net nodelay s w"

definition client_stop :: "'w net_api \<Rightarrow> tcp_socket \<Rightarrow> 'w \<Rightarrow> tcp_socket \<times> 'w" where
  "client_stop net s w = tcp_close net s w"

definition client_localPort :: "'w net_api \<Rightarrow> tcp_socket \<Rightarrow> 'w \<Rightarrow> u16" where
  "client_localPort net s w = tcp_local_port net s w"

definition client_remoteIP :: "'w net_api \<Rightarrow> tcp_socket \<Rightarrow> 'w \<Rightarrow> ip_address" where
  "client_remoteIP net s w = ip_of_u32 (tcp_remote_ip net s w)"

section \<open>The overrides of \<open>WiFiClientSecure\<close>\<close>

definition secure_connect ::
  "'w net_api \<Rightarrow> ('s, 'w) tls_api \<Rightarrow> c_string \<Rightarrow> u16 \<Rightarrow> 's tls_socket \<Rightarrow> 'w
     \<Rightarrow> (int \<times> 's tls_socket \<times> 'w) option" where
  "secure_connect net api host port s w =
     (case tls_connect net api (cstr_or_empty host) port s w of
        None \<Rightarrow> None
      | Some (ok, s1, w1) \<Rightarrow> Some (if ok then 1 else 0, s1, w1))"

definition secure_connected :: "'w net_api \<Rightarrow> 's tls_socket \<Rightarrow> 'w \<Rightarrow> u8 \<times> 'w" where
  "secure_connected net s w = (let (up, w1) = tls_connected net s w in (if up then 1 else 0, w1))"

definition secure_available ::
  "'w net_api \<Rightarrow> ('s, 'w) tls_api \<Rightarrow> 's tls_socket \<Rightarrow> 'w \<Rightarrow> int \<times> 's tls_socket \<times> 'w" where
  "secure_available net api s w = tls_available net api s w"

definition secure_read ::
  "'w net_api \<Rightarrow> ('s, 'w) tls_api \<Rightarrow> 's tls_socket \<Rightarrow> 'w \<Rightarrow> int \<times> 's tls_socket \<times> 'w" where
  "secure_read net api s w =
     (let (n, buf, s1, w1) = tls_read net api 1 s w in (if n = 1 then uint (hd buf) else - 1, s1, w1))"

definition secure_read_buf ::
  "'w net_api \<Rightarrow> ('s, 'w) tls_api \<Rightarrow> nat \<Rightarrow> 's tls_socket \<Rightarrow> 'w \<Rightarrow> int \<times> bytes \<times> 's tls_socket \<times> 'w" where
  "secure_read_buf net api len s w = tls_read net api len s w"

definition secure_peek ::
  "'w net_api \<Rightarrow> ('s, 'w) tls_api \<Rightarrow> 's tls_socket \<Rightarrow> 'w \<Rightarrow> int \<times> 's tls_socket \<times> 'w" where
  "secure_peek net api s w = tls_peek_byte net api s w"

definition secure_write ::
  "'w net_api \<Rightarrow> ('s, 'w) tls_api \<Rightarrow> bytes \<Rightarrow> 's tls_socket \<Rightarrow> 'w \<Rightarrow> (nat \<times> 's tls_socket \<times> 'w) option" where
  "secure_write net api buf s w = tls_write net api buf s w"

definition secure_write_byte ::
  "'w net_api \<Rightarrow> ('s, 'w) tls_api \<Rightarrow> u8 \<Rightarrow> 's tls_socket \<Rightarrow> 'w \<Rightarrow> (nat \<times> 's tls_socket \<times> 'w) option" where
  "secure_write_byte net api b s w = tls_write net api [b] s w"

definition secure_flush :: "'s tls_socket \<Rightarrow> 's tls_socket" where
  "secure_flush s = tls_flush s"

definition secure_setNoDelay :: "'w net_api \<Rightarrow> bool \<Rightarrow> 's tls_socket \<Rightarrow> 'w \<Rightarrow> 'w" where
  "secure_setNoDelay net nodelay s w = tls_set_no_delay net nodelay s w"

definition secure_stop ::
  "'w net_api \<Rightarrow> ('s, 'w) tls_api \<Rightarrow> 's tls_socket \<Rightarrow> 'w \<Rightarrow> 's tls_socket \<times> 'w" where
  "secure_stop net api s w = tls_close net api s w"

definition secure_localPort :: "'w net_api \<Rightarrow> 's tls_socket \<Rightarrow> 'w \<Rightarrow> u16" where
  "secure_localPort net s w = tls_local_port net s w"

definition secure_remoteIP :: "'w net_api \<Rightarrow> 's tls_socket \<Rightarrow> 'w \<Rightarrow> ip_address" where
  "secure_remoteIP net s w = ip_of_u32 (tls_remote_ip net s w)"

text \<open>The certificate setters take their argument and do nothing.\<close>

definition secure_setCACert :: "c_string \<Rightarrow> 's tls_socket \<Rightarrow> 's tls_socket" where
  "secure_setCACert pem s = s"

definition secure_setCACertBundle :: "bytes option \<Rightarrow> 's tls_socket \<Rightarrow> 's tls_socket" where
  "secure_setCACertBundle bundle s = s"

definition secure_setCertificate :: "c_string \<Rightarrow> 's tls_socket \<Rightarrow> 's tls_socket" where
  "secure_setCertificate pem s = s"

definition secure_setPrivateKey :: "c_string \<Rightarrow> 's tls_socket \<Rightarrow> 's tls_socket" where
  "secure_setPrivateKey pem s = s"

definition secure_verify :: "c_string \<Rightarrow> c_string \<Rightarrow> bool" where
  "secure_verify fingerprint host = True"

section \<open>Dispatch on the dynamic type\<close>

datatype 's transport = Plain tcp_socket | Secure "'s tls_socket"

definition vt_connect ::
  "'w net_api \<Rightarrow> ('s, 'w) tls_api \<Rightarrow> c_string \<Rightarrow> u16 \<Rightarrow> 's transport \<Rightarrow> 'w
     \<Rightarrow> (int \<times> 's transport \<times> 'w) option" where
  "vt_connect net api host port tr w =
     (case tr of
        Plain s \<Rightarrow> let (r, s1, w1) = client_connect net host port s w in Some (r, Plain s1, w1)
      | Secure s \<Rightarrow> map_option (\<lambda>(r, s1, w1). (r, Secure s1, w1)) (secure_connect net api host port s w))"

text \<open>
  Both classes implement \<open>connect(IPAddress, port)\<close> by the virtual \<open>connect\<close> of the printed
  address; the overloads with a timeout drop it.
\<close>

definition vt_connect_ip ::
  "'w net_api \<Rightarrow> ('s, 'w) tls_api \<Rightarrow> ip_address \<Rightarrow> u16 \<Rightarrow> 's transport \<Rightarrow> 'w
     \<Rightarrow> (int \<times> 's transport \<times> 'w) option" where
  "vt_connect_ip net api ip port tr w =
     vt_connect net api (Some (string_c_str (ip_toString ip))) port tr w"

definition vt_connect_timeout ::
  "'w net_api \<Rightarrow> ('s, 'w) tls_api \<Rightarrow> c_string \<Rightarrow> u16 \<Rightarrow> int \<Rightarrow> 's transport \<Rightarrow> 'w
     \<Rightarrow> (int \<times> 's transport \<times> 'w) option" where
  "vt_connect_timeout net api host port timeout_ms tr w = vt_connect net api host port tr w"

definition vt_connect_ip_timeout ::
  "'w net_api \<Rightarrow> ('s, 'w) tls_api \<Rightarrow> ip_address \<Rightarrow> u16 \<Rightarrow> int \<Rightarrow> 's transport \<Rightarrow> 'w
     \<Rightarrow> (int \<times> 's transport \<times> 'w) option" where
  "vt_connect_ip_timeout net api ip port timeout_ms tr w = vt_connect_ip net api ip port tr w"

definition vt_fd :: "'s transport \<Rightarrow> int" where
  "vt_fd tr = - 1"

definition vt_read ::
  "'w net_api \<Rightarrow> ('s, 'w) tls_api \<Rightarrow> 's transport \<Rightarrow> 'w \<Rightarrow> int \<times> 's transport \<times> 'w" where
  "vt_read net api tr w =
     (case tr of
        Plain s \<Rightarrow> let (v, s1, w1) = client_read net s w in (v, Plain s1, w1)
      | Secure s \<Rightarrow> let (v, s1, w1) = secure_read net api s w in (v, Secure s1, w1))"

definition vt_available ::
  "'w net_api \<Rightarrow> ('s, 'w) tls_api \<Rightarrow> 's transport \<Rightarrow> 'w \<Rightarrow> int \<times> 's transport \<times> 'w" where
  "vt_available net api tr w =
     (case tr of
        Plain s \<Rightarrow> (client_available net s w, Plain s, w)
      | Secure s \<Rightarrow> let (v, s1, w1) = secure_available net api s w in (v, Secure s1, w1))"

definition vt_read_buf ::
  "'w net_api \<Rightarrow> ('s, 'w) tls_api \<Rightarrow> nat \<Rightarrow> 's transport \<Rightarrow> 'w \<Rightarrow> int \<times> bytes \<times> 's transport \<times> 'w" where
  "vt_read_buf net api len tr w =
     (case tr of
        Plain s \<Rightarrow> let (r, buf, s1, w1) = client_read_buf net len s w in (r, buf, Plain s1, w1)
      | Secure s \<Rightarrow> let (r, buf, s1, w1) = secure_read_buf net api len s w in (r, buf, Secure s1, w1))"

definition vt_peek ::
  "'w net_api \<Rightarrow> ('s, 'w) tls_api \<Rightarrow> 's transport \<Rightarrow> 'w \<Rightarrow> int \<times> 's transport \<times> 'w" where
  "vt_peek net api tr w =
     (case tr of
        Plain s \<Rightarrow> let (v, s1, w1) = client_peek net s w in (v, Plain s1, w1)
      | Secure s \<Rightarrow> let (v, s1, w1) = secure_peek net api s w in (v, Secure s1, w1))"

definition vt_stop ::
  "'w net_api \<Rightarrow> ('s, 'w) tls_api \<Rightarrow> 's transport \<Rightarrow> 'w \<Rightarrow> 's transport \<times> 'w" where
  "vt_stop net api tr w =
     (case tr of
        Plain s \<Rightarrow> let (s1, w1) = client_stop net s w in (Plain s1, w1)
      | Secure s \<Rightarrow> let (s1, w1) = secure_stop net api s w in (Secure s1, w1))"

definition vt_connected ::
  "'w net_api \<Rightarrow> 's transport \<Rightarrow> 'w \<Rightarrow> u8 \<times> 'w" where
  "vt_connected net tr w =
     (case tr of Plain s \<Rightarrow> client_connected net s w | Secure s \<Rightarrow> secure_connected net s w)"

definition vt_write ::
  "'w net_api \<Rightarrow> ('s, 'w) tls_api \<Rightarrow> bytes \<Rightarrow> 's transport \<Rightarrow> 'w \<Rightarrow> (nat \<times> 's transport \<times> 'w) option" where
  "vt_write net api buf tr w =
     (case tr of
        Plain s \<Rightarrow> let (n, w1) = client_write net buf s w in Some (n, Plain s, w1)
      | Secure s \<Rightarrow> map_option (\<lambda>(n, s1, w1). (n, Secure s1, w1)) (secure_write net api buf s w))"

definition vt_write_byte ::
  "'w net_api \<Rightarrow> ('s, 'w) tls_api \<Rightarrow> u8 \<Rightarrow> 's transport \<Rightarrow> 'w \<Rightarrow> (nat \<times> 's transport \<times> 'w) option" where
  "vt_write_byte net api b tr w =
     (case tr of
        Plain s \<Rightarrow> let (n, w1) = client_write_byte net b s w in Some (n, Plain s, w1)
      | Secure s \<Rightarrow> map_option (\<lambda>(n, s1, w1). (n, Secure s1, w1)) (secure_write_byte net api b s w))"

definition vt_flush :: "'s transport \<Rightarrow> 's transport" where
  "vt_flush tr = (case tr of Plain s \<Rightarrow> Plain (client_flush s) | Secure s \<Rightarrow> Secure (secure_flush s))"

definition vt_setNoDelay :: "'w net_api \<Rightarrow> bool \<Rightarrow> 's transport \<Rightarrow> 'w \<Rightarrow> 'w" where
  "vt_setNoDelay net nodelay tr w =
     (case tr of
        Plain s \<Rightarrow> client_setNoDelay net nodelay s w
      | Secure s \<Rightarrow> secure_setNoDelay net nodelay s w)"

definition vt_localPort :: "'w net_api \<Rightarrow> 's transport \<Rightarrow> 'w \<Rightarrow> u16" where
  "vt_localPort net tr w =
     (case tr of Plain s \<Rightarrow> client_localPort net s w | Secure s \<Rightarrow> secure_localPort net s w)"

definition vt_remoteIP :: "'w net_api \<Rightarrow> 's transport \<Rightarrow> 'w \<Rightarrow> ip_address" where
  "vt_remoteIP net tr w =
     (case tr of Plain s \<Rightarrow> client_remoteIP net s w | Secure s \<Rightarrow> secure_remoteIP net s w)"

section \<open>What a client reads, whatever its class\<close>

text \<open>\<open>read()\<close> without arguments answers the byte itself; here it counts as one byte obtained.\<close>

datatype client_op = Source source_op | ReadOne

definition vt_step ::
  "'w net_api \<Rightarrow> ('s, 'w) tls_api \<Rightarrow> client_op \<Rightarrow> 's transport \<times> 'w \<Rightarrow> (int \<times> bytes) \<times> 's transport \<times> 'w"
where
  "vt_step net api opr st =
     (let (tr, w) = st in
      case opr of
        Source Available \<Rightarrow> let (v, tr1, w1) = vt_available net api tr w in ((v, []), tr1, w1)
      | Source PeekByte \<Rightarrow> let (v, tr1, w1) = vt_peek net api tr w in ((v, []), tr1, w1)
      | Source (ReadInto len) \<Rightarrow>
          let (r, buf, tr1, w1) = vt_read_buf net api len tr w in ((r, buf), tr1, w1)
      | ReadOne \<Rightarrow>
          let (v, tr1, w1) = vt_read net api tr w
          in (if v = - 1 then (0, []) else (1, [word_of_int v]), tr1, w1))"

fun small_client_read :: "client_op \<Rightarrow> bool" where
  "small_client_read (Source opr) \<longleftrightarrow> small_read opr"
| "small_client_read ReadOne \<longleftrightarrow> True"

primrec vt_stream ::
  "('w \<Rightarrow> bytes) \<Rightarrow> ('s \<Rightarrow> tcp_socket \<Rightarrow> 'w \<Rightarrow> bytes) \<Rightarrow> 'w \<Rightarrow> 's transport \<Rightarrow> bytes" where
  "vt_stream pending plain w (Plain s) = tcp_stream pending s w"
| "vt_stream pending plain w (Secure s) = tls_stream plain s w"

primrec vt_valid ::
  "'w net_api \<Rightarrow> ('s, 'w) tls_api \<Rightarrow> ('w \<Rightarrow> bytes) \<Rightarrow> ('s \<Rightarrow> tcp_socket \<Rightarrow> 'w \<Rightarrow> bytes) \<Rightarrow> 's transport \<Rightarrow> bool" where
  "vt_valid net api pending plain (Plain s) \<longleftrightarrow> tcp_inv s \<and> stream_os net (tcp_handle s) pending"
| "vt_valid net api pending plain (Secure s) \<longleftrightarrow> tls_inv s \<and> tls_read_os net api plain"

lemmas vt_unfolded = vt_available_def vt_peek_def vt_read_buf_def client_available_def client_peek_def
  client_read_buf_def secure_available_def secure_peek_def secure_read_buf_def

lemma vt_step_plain:
  "vt_step net api (Source opr) (Plain s, w)
     = (let (out, s1, w1) = tcp_step net opr (s, w) in (out, Plain s1, w1))"
  by (cases opr) (simp_all add: vt_step_def tcp_step_def vt_unfolded Let_def split_def)

lemma vt_step_secure:
  "vt_step net api (Source opr) (Secure s, w)
     = (let (out, s1, w1) = tls_step net api opr (s, w) in (out, Secure s1, w1))"
  by (cases opr) (simp_all add: vt_step_def tls_step_def vt_unfolded Let_def split_def)

text \<open>One byte: the buffer form with length 1 in disguise.\<close>

lemma tcp_read_1:
  assumes "tcp_inv s" and "stream_os net (tcp_handle s) pending" and "tcp_read net 1 s w = (n, buf, s1, w1)"
  shows "(n = 1 \<longrightarrow> length buf = 1) \<and> (n \<noteq> 1 \<longrightarrow> buf = [])"
proof -
  have len: "length buf \<le> 1"
    using tcp_read_stream [OF assms(2,3)] by simp
  show ?thesis
  proof (cases "n = - 1")
    case True
    have "buf \<noteq> [b]" for b
      using True assms(3)
      by (auto simp: tcp_read_def recv_int_def recv_bytes_def Let_def split_def
          split: if_splits recv_result.splits)
    with True len show ?thesis
      by (cases buf) auto
  next
    case False
    from tcp_read_count [OF assms(2,3) _ this] len show ?thesis
      by (cases buf) auto
  qed
qed

lemma tls_read_1:
  assumes "tls_inv s" and "tls_read_os net api plain" and "tls_read net api 1 s w = (n, buf, s1, w1)"
  shows "(n = 1 \<longrightarrow> length buf = 1) \<and> (n \<noteq> 1 \<longrightarrow> buf = [])"
  using tls_read_stream [OF assms(2,1,3)] by (cases buf) (auto split: if_splits)

lemma uint_not_minus_1: "uint (b :: u8) \<noteq> - 1"
  using uint_ge_0 [of b] by linarith

lemma vt_read_one:
  assumes "vt_valid net api pending plain tr" and "vt_step net api ReadOne (tr, w) = ((r, buf), tr', w')"
  shows "vt_valid net api pending plain tr'
    \<and> vt_stream pending plain w tr = take (nat r) buf @ vt_stream pending plain w' tr'"
proof (cases tr)
  case (Plain s)
  obtain n bs s1 w1 where one: "tcp_read net 1 s w = (n, bs, s1, w1)"
    by (cases "tcp_read net 1 s w")
  have inv: "tcp_inv s" and os: "stream_os net (tcp_handle s) pending"
    using assms(1) Plain by simp_all
  have "tr' = Plain s1" "w' = w1" "take (nat r) buf = bs"
    using assms(2) Plain one tcp_read_1 [OF inv os one]
    by (cases bs; auto simp: vt_step_def vt_read_def client_read_def uint_not_minus_1 split: if_splits)+
  with Plain os tcp_read_inv [OF inv one] tcp_read_stream [OF os one] show ?thesis
    by simp
next
  case (Secure s)
  obtain n bs s1 w1 where one: "tls_read net api 1 s w = (n, bs, s1, w1)"
    by (cases "tls_read net api 1 s w")
  have inv: "tls_inv s" and os: "tls_read_os net api plain"
    using assms(1) Secure by simp_all
  have "tr' = Secure s1" "w' = w1" "take (nat r) buf = bs"
    using assms(2) Secure one tls_read_1 [OF inv os one]
    by (cases bs; auto simp: vt_step_def vt_read_def secure_read_def uint_not_minus_1 split: if_splits)+
  with Secure os tls_read_stream [OF os inv one] show ?thesis
    by simp
qed

lemma vt_step_stream:
  assumes valid: "vt_valid net api pending plain tr" and small: "small_client_read opr"
    and run: "vt_step net api opr (tr, w) = ((r, buf), tr', w')"
  shows "vt_valid net api pending plain tr'
    \<and> (keeps_bytes (r, buf) \<longrightarrow>
        vt_stream pending plain w tr = take (nat r) buf @ vt_stream pending plain w' tr')"
proof (cases opr)
  case ReadOne
  then show ?thesis
    using vt_read_one [OF valid] run by simp
next
  case (Source sop)
  show ?thesis
  proof (cases tr)
    case (Plain s)
    then obtain s1 where one: "tcp_step net sop (s, w) = ((r, buf), s1, w')" and tr': "tr' = Plain s1"
      using run Source vt_step_plain [of net api sop s w] by (auto simp: Let_def split: prod.splits)
    show ?thesis
      using tcp_step_stream [OF _ _ _ one, of pending] valid small Source Plain tr' by auto
  next
    case (Secure s)
    then obtain s1 where one: "tls_step net api sop (s, w) = ((r, buf), s1, w')" and tr': "tr' = Secure s1"
      using run Source vt_step_secure [of net api sop s w] by (auto simp: Let_def split: prod.splits)
    show ?thesis
      using tls_step_stream [OF _ _ one, of plain] valid Secure tr' by auto
  qed
qed

interpretation client_source: byte_source "\<lambda>st. vt_stream pending plain (snd st) (fst st)"
    "\<lambda>st. vt_valid net api pending plain (fst st)" small_client_read keeps_bytes "vt_step net api"
proof
  fix st opr out st'
  assume valid: "vt_valid net api pending plain (fst st)" and small: "small_client_read opr"
    and run: "vt_step net api opr st = (out, st')"
  obtain tr w r buf tr' w' where names: "st = (tr, w)" "out = (r, buf)" "st' = (tr', w')"
    by (cases st; cases out; cases st')
  note one = vt_step_stream [OF _ small run [unfolded names], of pending plain]
  show "vt_valid net api pending plain (fst st')"
    using one valid names by simp
  assume "keeps_bytes out"
  then show "vt_stream pending plain (snd st) (fst st) = obtained [out] @ vt_stream pending plain (snd st') (fst st')"
    using one valid names by simp
qed

section \<open>Shared ownership\<close>

text \<open>
  A \<open>shared_ptr\<close> store: use count and object. \<open>release\<close> drops one owner and destroys the object,
  whose destructor closes it, with the last.
\<close>

type_synonym 'x shared = "nat \<rightharpoonup> nat \<times> 'x"

definition make_shared :: "nat \<Rightarrow> 'x \<Rightarrow> 'x shared \<Rightarrow> 'x shared" where
  "make_shared p x st = st(p \<mapsto> (1, x))"

definition acquire :: "nat \<Rightarrow> 'x shared \<Rightarrow> 'x shared" where
  "acquire p st = (case st p of None \<Rightarrow> st | Some (n, x) \<Rightarrow> st(p \<mapsto> (n + 1, x)))"

definition release :: "('x \<Rightarrow> 'w \<Rightarrow> 'w) \<Rightarrow> nat \<Rightarrow> 'x shared \<Rightarrow> 'w \<Rightarrow> 'x shared \<times> 'w" where
  "release destroy p st w =
     (case st p of
        None \<Rightarrow> (st, w)
      | Some (n, x) \<Rightarrow> if n \<le> 1 then (st(p := None), destroy x w) else (st(p \<mapsto> (n - 1, x)), w))"

definition update_shared :: "nat \<Rightarrow> 'x \<Rightarrow> 'x shared \<Rightarrow> 'x shared" where
  "update_shared p x st = (case st p of None \<Rightarrow> st | Some (n, old) \<Rightarrow> st(p \<mapsto> (n, x)))"

section \<open>Client objects\<close>

text \<open>\<open>wc_tls\<close> is \<open>None\<close> for a \<open>WiFiClient\<close>, the secure transport for a \<open>WiFiClientSecure\<close>.\<close>

record wifi_client =
  wc_socket :: nat
  wc_tls :: "nat option"
  wc_insecure :: bool

record 's wifi =
  tcp_store :: "tcp_socket shared"
  tls_store :: "'s tls_socket shared"
  clients :: "nat \<rightharpoonup> wifi_client"

definition wifi_init :: "'s wifi" where
  "wifi_init = \<lparr>tcp_store = Map.empty, tls_store = Map.empty, clients = Map.empty\<rparr>"

definition client_from_socket :: "nat \<Rightarrow> nat \<Rightarrow> tcp_socket \<Rightarrow> 's wifi \<Rightarrow> 's wifi" where
  "client_from_socket i p s st =
     st\<lparr>tcp_store := make_shared p s (tcp_store st),
        clients := (clients st)(i \<mapsto> \<lparr>wc_socket = p, wc_tls = None, wc_insecure = False\<rparr>)\<rparr>"

definition client_new :: "nat \<Rightarrow> nat \<Rightarrow> 's wifi \<Rightarrow> 's wifi" where
  "client_new i p st = client_from_socket i p tcp_new st"

definition secure_new :: "('s, 'w) tls_api \<Rightarrow> nat \<Rightarrow> nat \<Rightarrow> nat \<Rightarrow> 's wifi \<Rightarrow> 's wifi" where
  "secure_new api i p q st =
     st\<lparr>tcp_store := make_shared p tcp_new (tcp_store st),
        tls_store := make_shared q (tls_new api) (tls_store st),
        clients := (clients st)(i \<mapsto> \<lparr>wc_socket = p, wc_tls = Some q, wc_insecure = False\<rparr>)\<rparr>"

definition tls_destroy :: "'w net_api \<Rightarrow> ('s, 'w) tls_api \<Rightarrow> 's tls_socket \<Rightarrow> 'w \<Rightarrow> 'w" where
  "tls_destroy net api s w = snd (tls_close net api s w)"

text \<open>
  \<open>dst = src\<close> through references to \<open>WiFiClient\<close>: the socket pointer is copied, nothing else.
\<close>

definition client_assign ::
  "'w net_api \<Rightarrow> nat \<Rightarrow> nat \<Rightarrow> 's wifi \<Rightarrow> 'w \<Rightarrow> ('s wifi \<times> 'w) option" where
  "client_assign net dst src st w =
     (case (clients st dst, clients st src) of
        (Some d, Some s) \<Rightarrow>
          let (ts, w1) = release (tcp_destroy net) (wc_socket d) (acquire (wc_socket s) (tcp_store st)) w
          in Some (st\<lparr>tcp_store := ts, clients := (clients st)(dst \<mapsto> d\<lparr>wc_socket := wc_socket s\<rparr>)\<rparr>, w1)
      | _ \<Rightarrow> None)"

text \<open>
  \<open>dst = src\<close> between \<open>WiFiClientSecure\<close> objects: the base first, then the members of the derived
  class, its TLS pointer and its flag.
\<close>

definition tls_assign ::
  "'w net_api \<Rightarrow> ('s, 'w) tls_api \<Rightarrow> nat \<Rightarrow> nat \<Rightarrow> bool \<Rightarrow> 's wifi \<Rightarrow> 'w \<Rightarrow> ('s wifi \<times> 'w) option" where
  "tls_assign net api dst q insecure st w =
     (case clients st dst of
        None \<Rightarrow> None
      | Some d \<Rightarrow>
          (case wc_tls d of
             None \<Rightarrow> None
           | Some old \<Rightarrow>
               let (ls, w1) = release (tls_destroy net api) old (acquire q (tls_store st)) w
               in Some (st\<lparr>tls_store := ls,
                    clients := (clients st)(dst \<mapsto> d\<lparr>wc_tls := Some q, wc_insecure := insecure\<rparr>)\<rparr>, w1)))"

definition secure_assign ::
  "'w net_api \<Rightarrow> ('s, 'w) tls_api \<Rightarrow> nat \<Rightarrow> nat \<Rightarrow> 's wifi \<Rightarrow> 'w \<Rightarrow> ('s wifi \<times> 'w) option" where
  "secure_assign net api dst src st w =
     (case clients st src of
        None \<Rightarrow> None
      | Some s \<Rightarrow>
          (case (wc_tls s, client_assign net dst src st w) of
             (Some q, Some (st1, w1)) \<Rightarrow> tls_assign net api dst q (wc_insecure s) st1 w1
           | _ \<Rightarrow> None))"

text \<open>The copy constructors: of a \<open>WiFiClient\<close>, from any client, and of a \<open>WiFiClientSecure\<close>.\<close>

definition client_copy :: "nat \<Rightarrow> nat \<Rightarrow> 's wifi \<Rightarrow> 's wifi option" where
  "client_copy i src st =
     (case clients st src of
        None \<Rightarrow> None
      | Some s \<Rightarrow>
          Some (st\<lparr>tcp_store := acquire (wc_socket s) (tcp_store st),
            clients := (clients st)(i \<mapsto> \<lparr>wc_socket = wc_socket s, wc_tls = None, wc_insecure = False\<rparr>)\<rparr>))"

definition secure_copy :: "nat \<Rightarrow> nat \<Rightarrow> 's wifi \<Rightarrow> 's wifi option" where
  "secure_copy i src st =
     (case clients st src of
        None \<Rightarrow> None
      | Some s \<Rightarrow>
          (case wc_tls s of
             None \<Rightarrow> None
           | Some q \<Rightarrow>
               Some (st\<lparr>tcp_store := acquire (wc_socket s) (tcp_store st), tls_store := acquire q (tls_store st),
                 clients := (clients st)(i \<mapsto> s)\<rparr>)))"

text \<open>The end of a client object's life, members first to last in reverse order.\<close>

definition client_destroy ::
  "'w net_api \<Rightarrow> ('s, 'w) tls_api \<Rightarrow> nat \<Rightarrow> 's wifi \<Rightarrow> 'w \<Rightarrow> ('s wifi \<times> 'w) option" where
  "client_destroy net api i st w =
     (case clients st i of
        None \<Rightarrow> None
      | Some c \<Rightarrow>
          let (ls, w1) = (case wc_tls c of
                            None \<Rightarrow> (tls_store st, w)
                          | Some q \<Rightarrow> release (tls_destroy net api) q (tls_store st) w);
              (ts, w2) = release (tcp_destroy net) (wc_socket c) (tcp_store st) w1
          in Some (st\<lparr>tcp_store := ts, tls_store := ls, clients := (clients st)(i := None)\<rparr>, w2))"

definition set_insecure :: "nat \<Rightarrow> 's wifi \<Rightarrow> 's wifi" where
  "set_insecure i st =
     (case clients st i of
        None \<Rightarrow> st
      | Some c \<Rightarrow> st\<lparr>clients := (clients st)(i \<mapsto> c\<lparr>wc_insecure := True\<rparr>)\<rparr>)"

text \<open>The transport that a virtual call on client \<open>i\<close> reaches, and storing its new state.\<close>

definition transport_of :: "nat \<Rightarrow> 's wifi \<Rightarrow> 's transport option" where
  "transport_of i st =
     (case clients st i of
        None \<Rightarrow> None
      | Some c \<Rightarrow>
          (case wc_tls c of
             None \<Rightarrow> map_option (\<lambda>x. Plain (snd x)) (tcp_store st (wc_socket c))
           | Some q \<Rightarrow> map_option (\<lambda>x. Secure (snd x)) (tls_store st q)))"

definition put_transport :: "nat \<Rightarrow> 's transport \<Rightarrow> 's wifi \<Rightarrow> 's wifi" where
  "put_transport i tr st =
     (case clients st i of
        None \<Rightarrow> st
      | Some c \<Rightarrow>
          (case (wc_tls c, tr) of
             (None, Plain s) \<Rightarrow> st\<lparr>tcp_store := update_shared (wc_socket c) s (tcp_store st)\<rparr>
           | (Some q, Secure s) \<Rightarrow> st\<lparr>tls_store := update_shared q s (tls_store st)\<rparr>
           | _ \<Rightarrow> st))"

section \<open>Server, datagrams, adapter\<close>

record wifi_server =
  srv_port :: u16
  srv_listener :: tcp_listener

definition server_new :: "u16 \<Rightarrow> wifi_server" where
  "server_new port = \<lparr>srv_port = port, srv_listener = lst_new\<rparr>"

definition server_begin :: "'w net_api \<Rightarrow> wifi_server \<Rightarrow> 'w \<Rightarrow> wifi_server \<times> 'w" where
  "server_begin net s w =
     (let (ok, l, w1) = lst_listen net (srv_port s) (srv_listener s) w in (s\<lparr>srv_listener := l\<rparr>, w1))"

definition server_stop :: "'w net_api \<Rightarrow> wifi_server \<Rightarrow> 'w \<Rightarrow> wifi_server \<times> 'w" where
  "server_stop net s w = (let (l, w1) = lst_close net (srv_listener s) w in (s\<lparr>srv_listener := l\<rparr>, w1))"

definition server_hasClient :: "'w net_api \<Rightarrow> wifi_server \<Rightarrow> 'w \<Rightarrow> bool" where
  "server_hasClient net s w = lst_has_pending_client net (srv_listener s) w"

text \<open>The accepted socket is moved into the shared object of a new client.\<close>

definition server_available ::
  "'w net_api \<Rightarrow> wifi_server \<Rightarrow> nat \<Rightarrow> nat \<Rightarrow> 's wifi \<Rightarrow> 'w \<Rightarrow> 's wifi \<times> 'w" where
  "server_available net srv i p st w =
     (let (tmp, w1) = lst_accept net (srv_listener srv) w; (s, tmp1) = tcp_move_ctor tmp
      in (client_from_socket i p s st, tcp_destroy net tmp1 w1))"

definition wifi_udp_begin :: "'w net_api \<Rightarrow> u16 \<Rightarrow> udp_socket \<Rightarrow> 'w \<Rightarrow> bool \<times> udp_socket \<times> 'w" where
  "wifi_udp_begin net port u w = udp_begin net port u w"

definition wifi_udp_beginPacket :: "ip_address \<Rightarrow> u16 \<Rightarrow> udp_socket \<Rightarrow> bool \<times> udp_socket" where
  "wifi_udp_beginPacket ip port u = udp_begin_packet (string_c_str (ip_toString ip)) port u"

definition wifi_udp_write :: "bytes \<Rightarrow> udp_socket \<Rightarrow> nat \<times> udp_socket" where
  "wifi_udp_write bs u = udp_write bs u"

definition wifi_udp_endPacket :: "'w net_api \<Rightarrow> udp_socket \<Rightarrow> 'w \<Rightarrow> bool \<times> udp_socket \<times> 'w" where
  "wifi_udp_endPacket net u w = udp_end_packet net u w"

definition wifi_udp_parsePacket :: "'w net_api \<Rightarrow> udp_socket \<Rightarrow> 'w \<Rightarrow> int \<times> udp_socket \<times> 'w" where
  "wifi_udp_parsePacket net u w = udp_parse_packet net u w"

definition wifi_udp_read :: "nat \<Rightarrow> udp_socket \<Rightarrow> int \<times> bytes \<times> udp_socket" where
  "wifi_udp_read len u = udp_read len u"

interpretation udp_sink: byte_sink send_buffer wifi_udp_write
  by unfold_locales (simp_all add: wifi_udp_write_def udp_write_def)

record wifi_adapter =
  local_ip :: ip_address
  hostname :: string

definition wifi_adapter_init :: wifi_adapter where
  "wifi_adapter_init = \<lparr>local_ip = IPAddress 127 0 0 1, hostname = []\<rparr>"

definition wifi_status :: "wifi_adapter \<Rightarrow> int" where
  "wifi_status a = 3"

definition wifi_begin :: "c_string \<Rightarrow> c_string \<Rightarrow> wifi_adapter \<Rightarrow> bool \<times> wifi_adapter" where
  "wifi_begin ssid password a = (True, a)"

definition wifi_config ::
  "ip_address \<Rightarrow> ip_address \<Rightarrow> ip_address \<Rightarrow> ip_address \<Rightarrow> wifi_adapter \<Rightarrow> bool \<times> wifi_adapter" where
  "wifi_config ip gateway subnet dns a = (True, a)"

definition wifi_setHostname :: "c_string \<Rightarrow> wifi_adapter \<Rightarrow> wifi_adapter" where
  "wifi_setHostname name a = a\<lparr>hostname := cstr_or_empty name\<rparr>"

definition wifi_disconnect :: "wifi_adapter \<Rightarrow> wifi_adapter" where
  "wifi_disconnect a = a"

definition wifi_mode :: "int \<Rightarrow> wifi_adapter \<Rightarrow> wifi_adapter" where
  "wifi_mode m a = a"

definition wifi_localIP :: "wifi_adapter \<Rightarrow> ip_address" where
  "wifi_localIP a = local_ip a"

definition wifi_gatewayIP :: "wifi_adapter \<Rightarrow> ip_address" where
  "wifi_gatewayIP a = IPAddress 192 168 1 1"

definition wifi_subnetMask :: "wifi_adapter \<Rightarrow> ip_address" where
  "wifi_subnetMask a = IPAddress 255 255 255 0"

text \<open>The reference parameter: what it holds afterwards.\<close>

definition wifi_hostByName ::
  "'w net_api \<Rightarrow> c_string \<Rightarrow> ip_address \<Rightarrow> 'w \<Rightarrow> bool \<times> ip_address \<times> 'w" where
  "wifi_hostByName net host out w =
     (case resolve_ipv4 net (cstr_or_empty host) w of
        (None, w1) \<Rightarrow> (False, out, w1)
      | (Some addr, w1) \<Rightarrow> (True, ip_of_u32 addr, w1))"

definition wifi_scanNetworks :: "wifi_adapter \<Rightarrow> int" where "wifi_scanNetworks a = 0"
definition wifi_SSID :: "int \<Rightarrow> arduino_string" where "wifi_SSID i = String []"
definition wifi_RSSI :: "int \<Rightarrow> int" where "wifi_RSSI i = 0"
definition wifi_encryptionType :: "int \<Rightarrow> int" where "wifi_encryptionType i = 0"
definition wifi_macAddress :: arduino_string where "wifi_macAddress = String ''00:00:00:00:00:00''"

section \<open>Use counts are exact\<close>

text \<open>\<open>own p\<close> is the set of objects that hold a pointer to \<open>p\<close>.\<close>

definition exact_entry :: "(nat \<times> 'x) option \<Rightarrow> nat set \<Rightarrow> bool" where
  "exact_entry e os \<longleftrightarrow>
     (case e of
        None \<Rightarrow> os = {}
      | Some (n, x) \<Rightarrow> finite os \<and> os \<noteq> {} \<and> n = card os)"

definition exact :: "'x shared \<Rightarrow> (nat \<Rightarrow> nat set) \<Rightarrow> bool" where
  "exact st own \<longleftrightarrow> (\<forall>p. exact_entry (st p) (own p))"

lemma exact_entry_simps [simp]:
  "exact_entry None os \<longleftrightarrow> os = {}"
  "exact_entry (Some (n, x)) os \<longleftrightarrow> finite os \<and> os \<noteq> {} \<and> n = card os"
  by (simp_all add: exact_entry_def)

lemma exact_at: "exact st own \<Longrightarrow> exact_entry (st p) (own p)"
  by (simp add: exact_def)

lemma exact_upd: "exact st own \<Longrightarrow> exact_entry e os \<Longrightarrow> exact (st(p := e)) (own(p := os))"
  by (simp add: exact_def)

lemma exact_live: "exact st own \<Longrightarrow> i \<in> own p \<Longrightarrow> \<exists>n x. st p = Some (n, x) \<and> 1 \<le> n"
  using exact_at [of st own p] by (cases "st p") (auto simp: Suc_le_eq card_gt_0_iff)

lemma exact_make: "exact st own \<Longrightarrow> exact (make_shared p x st) (own(p := {i}))"
  unfolding make_shared_def by (rule exact_upd) simp_all

lemma exact_acquire:
  assumes "exact st own" and "st p \<noteq> None" and "i \<notin> own p"
  shows "exact (acquire p st) (own(p := insert i (own p)))"
proof -
  obtain n x where st: "st p = Some (n, x)"
    using assms(2) by auto
  with exact_at [OF assms(1), of p] assms(3) show ?thesis
    using exact_upd [OF assms(1), of "Some (n + 1, x)" "insert i (own p)" p] by (simp add: acquire_def)
qed

lemma exact_release:
  assumes "exact st own" and "i \<in> own p"
  shows "exact (fst (release destroy p st w)) (own(p := own p - {i}))"
proof -
  obtain n x where st: "st p = Some (n, x)" and n: "1 \<le> n"
    using exact_live [OF assms] by blast
  have p: "finite (own p)" "n = card (own p)"
    using exact_at [OF assms(1), of p] st by simp_all
  have c: "card (own p - {i}) = n - 1"
    using p assms(2) by simp
  show ?thesis
  proof (cases "n \<le> 1")
    case True
    then have "own p - {i} = {}"
      using c p by (metis card_eq_0_iff diff_is_0_eq finite_Diff)
    then show ?thesis
      using exact_upd [OF assms(1), of None "own p - {i}" p] st True by (simp add: release_def)
  next
    case False
    then have "own p - {i} \<noteq> {}"
      using c by (metis card.empty diff_is_0_eq)
    then show ?thesis
      using exact_upd [OF assms(1), of "Some (n - 1, x)" "own p - {i}" p] st False c p
      by (simp add: release_def)
  qed
qed

lemma exact_update: "exact st own \<Longrightarrow> exact (update_shared p x st) own"
  using exact_at [of st own p] exact_upd [of st own _ "own p" p]
  by (cases "st p") (auto simp: update_shared_def)

lemma release_acquire_same:
  "st p = Some (n, x) \<Longrightarrow> 1 \<le> n \<Longrightarrow> release destroy p (acquire p st) w = (st, w)"
  by (auto simp: release_def acquire_def fun_eq_iff)

definition socket_owners :: "(nat \<rightharpoonup> wifi_client) \<Rightarrow> nat \<Rightarrow> nat set" where
  "socket_owners cs p = {i. \<exists>c. cs i = Some c \<and> wc_socket c = p}"

definition tls_owners :: "(nat \<rightharpoonup> wifi_client) \<Rightarrow> nat \<Rightarrow> nat set" where
  "tls_owners cs q = {i. \<exists>c. cs i = Some c \<and> wc_tls c = Some q}"

definition wifi_inv :: "'s wifi \<Rightarrow> bool" where
  "wifi_inv st \<longleftrightarrow>
     exact (tcp_store st) (socket_owners (clients st)) \<and> exact (tls_store st) (tls_owners (clients st))"

text \<open>
  What a program does with clients. \<open>call\<close> stands for any virtual method: it may change the state
  of the transport it reaches, and the world, but not its kind.
\<close>

fun same_kind :: "'s transport \<Rightarrow> 's transport \<Rightarrow> bool" where
  "same_kind (Plain a) (Plain b) \<longleftrightarrow> True"
| "same_kind (Secure a) (Secure b) \<longleftrightarrow> True"
| "same_kind a b \<longleftrightarrow> False"

inductive wifi_step ::
  "'w net_api \<Rightarrow> ('s, 'w) tls_api \<Rightarrow> 's wifi \<times> 'w \<Rightarrow> 's wifi \<times> 'w \<Rightarrow> bool" for net api where
  construct: "clients st i = None \<Longrightarrow> tcp_store st p = None \<Longrightarrow>
     wifi_step net api (st, w) (client_new i p st, w)"
| construct_secure: "clients st i = None \<Longrightarrow> tcp_store st p = None \<Longrightarrow> tls_store st q = None \<Longrightarrow>
     wifi_step net api (st, w) (secure_new api i p q st, w)"
| accept: "clients st i = None \<Longrightarrow> tcp_store st p = None \<Longrightarrow>
     server_available net srv i p st w = (st', w') \<Longrightarrow> wifi_step net api (st, w) (st', w')"
| assign: "client_assign net dst src st w = Some (st', w') \<Longrightarrow> wifi_step net api (st, w) (st', w')"
| assign_secure: "secure_assign net api dst src st w = Some (st', w') \<Longrightarrow> wifi_step net api (st, w) (st', w')"
| copy: "clients st i = None \<Longrightarrow> client_copy i src st = Some st' \<Longrightarrow> wifi_step net api (st, w) (st', w)"
| copy_secure: "clients st i = None \<Longrightarrow> secure_copy i src st = Some st' \<Longrightarrow> wifi_step net api (st, w) (st', w)"
| destroy: "client_destroy net api i st w = Some (st', w') \<Longrightarrow> wifi_step net api (st, w) (st', w')"
| insecure: "wifi_step net api (st, w) (set_insecure i st, w)"
| call: "transport_of i st = Some tr \<Longrightarrow> same_kind tr tr' \<Longrightarrow>
     wifi_step net api (st, w) (put_transport i tr' st, w')"

inductive wifi_reachable ::
  "'w net_api \<Rightarrow> ('s, 'w) tls_api \<Rightarrow> 's wifi \<times> 'w \<Rightarrow> bool" for net api where
  start: "wifi_reachable net api (wifi_init, w)"
| step: "wifi_reachable net api sw \<Longrightarrow> wifi_step net api sw sw' \<Longrightarrow> wifi_reachable net api sw'"

inductive_cases wifi_stepE: "wifi_step net api (st, w) (st', w')"

lemma owners_new:
  "cs i = None \<Longrightarrow> socket_owners (cs(i \<mapsto> c)) p =
     (if p = wc_socket c then insert i (socket_owners cs p) else socket_owners cs p)"
  "cs i = None \<Longrightarrow> tls_owners (cs(i \<mapsto> c)) q =
     (if wc_tls c = Some q then insert i (tls_owners cs q) else tls_owners cs q)"
  by (auto simp: socket_owners_def tls_owners_def)

lemma owners_removed:
  "socket_owners (cs(i := None)) p = socket_owners cs p - {i}"
  "tls_owners (cs(i := None)) q = tls_owners cs q - {i}"
  by (auto simp: socket_owners_def tls_owners_def)

lemma owner_sockets: "cs i = Some c \<Longrightarrow> i \<in> socket_owners cs p \<longleftrightarrow> p = wc_socket c"
  by (auto simp: socket_owners_def)

lemma owner_tls: "cs i = Some c \<Longrightarrow> i \<in> tls_owners cs q \<longleftrightarrow> wc_tls c = Some q"
  by (auto simp: tls_owners_def)

lemma exact_none: "exact st own \<Longrightarrow> st p = None \<Longrightarrow> own p = {}"
  using exact_at [of st own p] by simp

lemma client_from_socket_inv:
  assumes "wifi_inv st" and "clients st i = None" and "tcp_store st p = None"
  shows "wifi_inv (client_from_socket i p s st)"
proof -
  have tcp: "exact (tcp_store st) (socket_owners (clients st))"
    and tls: "exact (tls_store st) (tls_owners (clients st))"
    using assms(1) by (simp_all add: wifi_inv_def)
  let ?c = "\<lparr>wc_socket = p, wc_tls = None, wc_insecure = False\<rparr>"
  have "socket_owners ((clients st)(i \<mapsto> ?c)) = (socket_owners (clients st))(p := {i})"
    using exact_none [OF tcp assms(3)] by (auto simp: fun_eq_iff owners_new(1) [where cs = "clients st", OF assms(2)])
  moreover have "tls_owners ((clients st)(i \<mapsto> ?c)) = tls_owners (clients st)"
    by (auto simp: fun_eq_iff owners_new(2) [where cs = "clients st", OF assms(2)])
  ultimately show ?thesis
    using exact_make [OF tcp, of p s i] tls by (simp add: wifi_inv_def client_from_socket_def)
qed

lemma secure_new_inv:
  assumes "wifi_inv st" and "clients st i = None" and "tcp_store st p = None" and "tls_store st q = None"
  shows "wifi_inv (secure_new api i p q st)"
proof -
  have tcp: "exact (tcp_store st) (socket_owners (clients st))"
    and tls: "exact (tls_store st) (tls_owners (clients st))"
    using assms(1) by (simp_all add: wifi_inv_def)
  let ?c = "\<lparr>wc_socket = p, wc_tls = Some q, wc_insecure = False\<rparr>"
  have "socket_owners ((clients st)(i \<mapsto> ?c)) = (socket_owners (clients st))(p := {i})"
    using exact_none [OF tcp assms(3)] by (auto simp: fun_eq_iff owners_new(1) [where cs = "clients st", OF assms(2)])
  moreover have "tls_owners ((clients st)(i \<mapsto> ?c)) = (tls_owners (clients st))(q := {i})"
    using exact_none [OF tls assms(4)] by (auto simp: fun_eq_iff owners_new(2) [where cs = "clients st", OF assms(2)])
  ultimately show ?thesis
    using exact_make [OF tcp, of p tcp_new i] exact_make [OF tls, of q "tls_new api" i]
    by (simp add: wifi_inv_def secure_new_def)
qed

text \<open>Owner \<open>dst\<close> gives up \<open>p\<close> for \<open>q\<close>, which \<open>src\<close> holds.\<close>

definition moved_owner :: "nat \<Rightarrow> nat \<Rightarrow> nat \<Rightarrow> (nat \<Rightarrow> nat set) \<Rightarrow> nat \<Rightarrow> nat set" where
  "moved_owner dst p q own = (if p = q then own else (own(q := insert dst (own q)))(p := own p - {dst}))"

lemma exact_reassign:
  assumes own: "exact st own" and dst: "dst \<in> own p" and src: "src \<in> own q" and one: "p \<noteq> q \<Longrightarrow> dst \<notin> own q"
  shows "exact (fst (release destroy p (acquire q st) w)) (moved_owner dst p q own)"
proof (cases "p = q")
  case True
  obtain n x where "st q = Some (n, x)" "1 \<le> n"
    using exact_live [OF own src] by blast
  from release_acquire_same [where st = st and destroy = destroy and w = w, OF this] own True show ?thesis
    by (simp add: moved_owner_def)
next
  case False
  have "exact (acquire q st) (own(q := insert dst (own q)))"
    using exact_acquire [OF own] exact_live [OF own src] one False by force
  from exact_release [OF this, of dst p destroy w] dst False show ?thesis
    by (simp add: moved_owner_def)
qed

text \<open>
  What it gives up is destroyed exactly if nobody else held it; what \<open>q\<close> refers to, and what anybody
  else holds, stays.
\<close>

lemma reassign_effect:
  assumes own: "exact st own" and dst: "dst \<in> own p" and src: "src \<in> own q" and one: "\<forall>i p q. i \<in> own p \<longrightarrow> i \<in> own q \<longrightarrow> p = q"
    and run: "release destroy p (acquire q st) w = (st', w')"
  shows "w' = (if dst \<noteq> src \<and> own p = {dst} then destroy (snd (the (st p))) w else w)"
    and "r = q \<or> k \<noteq> dst \<and> k \<in> own r \<Longrightarrow> map_option snd (st' r) = map_option snd (st r)"
proof -
  obtain n x where p: "st p = Some (n, x)" "1 \<le> n"
    using exact_live [OF own dst] by blast
  obtain m y where q: "st q = Some (m, y)" "1 \<le> m"
    using exact_live [OF own src] by blast
  have card: "finite (own p)" "n = card (own p)"
    using exact_at [OF own, of p] p by simp_all
  have alone: "n \<le> 1 \<longleftrightarrow> own p = {dst}"
  proof
    assume "n \<le> 1"
    with card p(2) have "card (own p) = 1"
      by simp
    then show "own p = {dst}"
      using dst by (metis card_1_singletonE singletonD)
  next
    assume "own p = {dst}"
    with card show "n \<le> 1"
      by simp
  qed
  have same: "st' = st \<and> w' = w" if "p = q"
    using release_acquire_same [where st = st and destroy = destroy and w = w, OF p] that run by simp
  have src_p: "p = q" if "dst = src"
    using one dst src that by blast
  show "w' = (if dst \<noteq> src \<and> own p = {dst} then destroy (snd (the (st p))) w else w)"
  proof (cases "p = q")
    case True
    then have "dst = src \<or> own p \<noteq> {dst}"
      using src by auto
    with same True show ?thesis
      by auto
  next
    case False
    then have "dst \<noteq> src"
      using src_p by blast
    with False run p q alone show ?thesis
      by (auto simp: release_def acquire_def split: if_splits)
  qed
  assume r: "r = q \<or> k \<noteq> dst \<and> k \<in> own r"
  show "map_option snd (st' r) = map_option snd (st r)"
  proof (cases "p = q")
    case True
    with same show ?thesis
      by simp
  next
    case False
    have "own p \<noteq> {dst}" if "r = p"
      using r that False by auto
    with False run p q alone show ?thesis
      by (auto simp: release_def acquire_def split: if_splits)
  qed
qed

lemma socket_owner_one: "\<forall>i p q. i \<in> socket_owners cs p \<longrightarrow> i \<in> socket_owners cs q \<longrightarrow> p = q"
  by (auto simp: socket_owners_def)

lemma tls_owner_one: "\<forall>i p q. i \<in> tls_owners cs p \<longrightarrow> i \<in> tls_owners cs q \<longrightarrow> p = q"
  by (auto simp: tls_owners_def)

lemma client_assign_shape:
  assumes "client_assign net dst src st w = Some (st', w')"
  obtains d s ts where "clients st dst = Some d" and "clients st src = Some s"
    and "release (tcp_destroy net) (wc_socket d) (acquire (wc_socket s) (tcp_store st)) w = (ts, w')"
    and "st' = st\<lparr>tcp_store := ts, clients := (clients st)(dst \<mapsto> d\<lparr>wc_socket := wc_socket s\<rparr>)\<rparr>"
  using assms by (auto simp: client_assign_def split: option.splits prod.splits)

lemma tls_assign_shape:
  assumes "tls_assign net api dst q insecure st w = Some (st', w')"
  obtains d old ls where "clients st dst = Some d" and "wc_tls d = Some old"
    and "release (tls_destroy net api) old (acquire q (tls_store st)) w = (ls, w')"
    and "st' = st\<lparr>tls_store := ls, clients := (clients st)(dst \<mapsto> d\<lparr>wc_tls := Some q, wc_insecure := insecure\<rparr>)\<rparr>"
  using assms by (auto simp: tls_assign_def split: option.splits prod.splits)

lemma secure_assign_shape:
  assumes "secure_assign net api dst src st w = Some (st', w')"
  obtains s q st1 w1 where "clients st src = Some s" and "wc_tls s = Some q"
    and "client_assign net dst src st w = Some (st1, w1)"
    and "tls_assign net api dst q (wc_insecure s) st1 w1 = Some (st', w')"
  using assms by (auto simp: secure_assign_def split: option.splits)

lemma client_assign_inv:
  assumes inv: "wifi_inv st" and run: "client_assign net dst src st w = Some (st', w')"
  shows "wifi_inv st'"
proof -
  have tcp: "exact (tcp_store st) (socket_owners (clients st))"
    and tls: "exact (tls_store st) (tls_owners (clients st))"
    using inv by (simp_all add: wifi_inv_def)
  obtain d s ts where d: "clients st dst = Some d" and s: "clients st src = Some s"
    and rel: "release (tcp_destroy net) (wc_socket d) (acquire (wc_socket s) (tcp_store st)) w = (ts, w')"
    and st': "st' = st\<lparr>tcp_store := ts, clients := (clients st)(dst \<mapsto> d\<lparr>wc_socket := wc_socket s\<rparr>)\<rparr>"
    using run by (rule client_assign_shape)
  let ?cs = "(clients st)(dst \<mapsto> d\<lparr>wc_socket := wc_socket s\<rparr>)"
  have "tls_owners ?cs = tls_owners (clients st)"
    using d by (auto simp: fun_eq_iff tls_owners_def)
  moreover have "socket_owners ?cs = moved_owner dst (wc_socket d) (wc_socket s) (socket_owners (clients st))"
    using d by (auto simp: fun_eq_iff socket_owners_def moved_owner_def)
  moreover have "exact ts (moved_owner dst (wc_socket d) (wc_socket s) (socket_owners (clients st)))"
    using exact_reassign [OF tcp, of dst "wc_socket d" src "wc_socket s" "tcp_destroy net" w] rel
      owner_sockets [where cs = "clients st", OF d] owner_sockets [where cs = "clients st", OF s] by simp
  ultimately show ?thesis
    using tls by (simp add: wifi_inv_def st')
qed

lemma tls_assign_inv:
  assumes inv: "wifi_inv st" and src: "src \<in> tls_owners (clients st) q"
    and run: "tls_assign net api dst q insecure st w = Some (st', w')"
  shows "wifi_inv st'"
proof -
  have tcp: "exact (tcp_store st) (socket_owners (clients st))"
    and tls: "exact (tls_store st) (tls_owners (clients st))"
    using inv by (simp_all add: wifi_inv_def)
  obtain d old ls where d: "clients st dst = Some d" "wc_tls d = Some old"
    and rel: "release (tls_destroy net api) old (acquire q (tls_store st)) w = (ls, w')"
    and st': "st' = st\<lparr>tls_store := ls, clients := (clients st)(dst \<mapsto> d\<lparr>wc_tls := Some q, wc_insecure := insecure\<rparr>)\<rparr>"
    using run by (rule tls_assign_shape)
  let ?cs = "(clients st)(dst \<mapsto> d\<lparr>wc_tls := Some q, wc_insecure := insecure\<rparr>)"
  have "socket_owners ?cs = socket_owners (clients st)"
    using d by (auto simp: fun_eq_iff socket_owners_def)
  moreover have "tls_owners ?cs = moved_owner dst old q (tls_owners (clients st))"
    using d by (auto simp: fun_eq_iff tls_owners_def moved_owner_def)
  moreover have "exact ls (moved_owner dst old q (tls_owners (clients st)))"
    using exact_reassign [OF tls, of dst old src q "tls_destroy net api" w] rel src d(2)
      owner_tls [where cs = "clients st", OF d(1)] by simp
  ultimately show ?thesis
    using tcp by (simp add: wifi_inv_def st')
qed

lemma secure_assign_inv:
  assumes inv: "wifi_inv st" and run: "secure_assign net api dst src st w = Some (st', w')"
  shows "wifi_inv st'"
proof -
  obtain s q st1 w1 where s: "clients st src = Some s" "wc_tls s = Some q"
    and one: "client_assign net dst src st w = Some (st1, w1)"
    and two: "tls_assign net api dst q (wc_insecure s) st1 w1 = Some (st', w')"
    using run by (rule secure_assign_shape)
  obtain d ts where "clients st dst = Some d"
    and "st1 = st\<lparr>tcp_store := ts, clients := (clients st)(dst \<mapsto> d\<lparr>wc_socket := wc_socket s\<rparr>)\<rparr>"
    using one s(1) by (auto elim: client_assign_shape)
  with s have "src \<in> tls_owners (clients st1) q"
    by (auto simp: tls_owners_def)
  with client_assign_inv [OF inv one] two show ?thesis
    by (blast intro: tls_assign_inv)
qed

lemma copy_inv:
  assumes inv: "wifi_inv st" and new: "clients st i = None"
  shows "client_copy i src st = Some st' \<Longrightarrow> wifi_inv st'"
    and "secure_copy i src st = Some st' \<Longrightarrow> wifi_inv st'"
proof -
  have tcp: "exact (tcp_store st) (socket_owners (clients st))"
    and tls: "exact (tls_store st) (tls_owners (clients st))"
    using inv by (simp_all add: wifi_inv_def)
  have sock: "exact (acquire (wc_socket s) (tcp_store st)) (socket_owners ((clients st)(i \<mapsto> c)))"
    if "clients st src = Some s" "wc_socket c = wc_socket s" for s c
  proof -
    have "socket_owners ((clients st)(i \<mapsto> c)) = (socket_owners (clients st))(wc_socket s := insert i (socket_owners (clients st) (wc_socket s)))"
      using that(2) by (auto simp: fun_eq_iff owners_new(1) [where cs = "clients st", OF new])
    then show ?thesis
      using exact_acquire [OF tcp, of "wc_socket s" i] exact_live [OF tcp, of src "wc_socket s"] new
        owner_sockets [where cs = "clients st", OF that(1)] by (force simp: socket_owners_def)
  qed
  show "wifi_inv st'" if copy: "client_copy i src st = Some st'"
  proof -
    obtain s where s: "clients st src = Some s"
      and st': "st' = st\<lparr>tcp_store := acquire (wc_socket s) (tcp_store st),
        clients := (clients st)(i \<mapsto> \<lparr>wc_socket = wc_socket s, wc_tls = None, wc_insecure = False\<rparr>)\<rparr>"
      using copy by (auto simp: client_copy_def split: option.splits)
    have "tls_owners (clients st') = tls_owners (clients st)"
      by (auto simp: st' fun_eq_iff owners_new(2) [where cs = "clients st", OF new])
    with sock [OF s, of "\<lparr>wc_socket = wc_socket s, wc_tls = None, wc_insecure = False\<rparr>"] tls show ?thesis
      by (simp add: wifi_inv_def st')
  qed
  show "wifi_inv st'" if copy: "secure_copy i src st = Some st'"
  proof -
    obtain s q where s: "clients st src = Some s" and q: "wc_tls s = Some q"
      and st': "st' = st\<lparr>tcp_store := acquire (wc_socket s) (tcp_store st), tls_store := acquire q (tls_store st),
        clients := (clients st)(i \<mapsto> s)\<rparr>"
      using copy by (auto simp: secure_copy_def split: option.splits)
    have "tls_owners (clients st') = (tls_owners (clients st))(q := insert i (tls_owners (clients st) q))"
      using q by (auto simp: st' fun_eq_iff owners_new(2) [where cs = "clients st", OF new])
    moreover have "exact (acquire q (tls_store st)) ((tls_owners (clients st))(q := insert i (tls_owners (clients st) q)))"
      using exact_acquire [OF tls, of q i] exact_live [OF tls, of src q] new
        owner_tls [where cs = "clients st", OF s] q by (force simp: tls_owners_def)
    ultimately show ?thesis
      using sock [OF s, of s] by (simp add: wifi_inv_def st')
  qed
qed

lemma client_destroy_inv:
  assumes inv: "wifi_inv st" and run: "client_destroy net api i st w = Some (st', w')"
  shows "wifi_inv st'"
proof -
  have tcp: "exact (tcp_store st) (socket_owners (clients st))"
    and tls: "exact (tls_store st) (tls_owners (clients st))"
    using inv by (simp_all add: wifi_inv_def)
  obtain c where c: "clients st i = Some c"
    using run by (auto simp: client_destroy_def split: option.splits)
  obtain ls w1 where ls: "(case wc_tls c of None \<Rightarrow> (tls_store st, w)
      | Some q \<Rightarrow> release (tls_destroy net api) q (tls_store st) w) = (ls, w1)" (is "?rel = _")
    by (cases ?rel)
  let ?ts = "fst (release (tcp_destroy net) (wc_socket c) (tcp_store st) w1)"
  let ?cs = "(clients st)(i := None)"
  have st': "st' = st\<lparr>tcp_store := ?ts, tls_store := ls, clients := ?cs\<rparr>"
    using run c ls by (auto simp: client_destroy_def split: prod.splits)
  have "socket_owners ?cs = (socket_owners (clients st))(wc_socket c := socket_owners (clients st) (wc_socket c) - {i})"
    using owner_sockets [where cs = "clients st", OF c] by (auto simp: fun_eq_iff owners_removed)
  then have "exact ?ts (socket_owners ?cs)"
    using exact_release [OF tcp, of i "wc_socket c" "tcp_destroy net" w1] owner_sockets [where cs = "clients st", OF c] by simp
  moreover have "exact ls (tls_owners ?cs)"
  proof (cases "wc_tls c")
    case None
    have "tls_owners ?cs = tls_owners (clients st)"
      using owner_tls [where cs = "clients st", OF c] None by (auto simp: fun_eq_iff owners_removed)
    then show ?thesis
      using ls None tls by simp
  next
    case (Some q)
    have "tls_owners ?cs = (tls_owners (clients st))(q := tls_owners (clients st) q - {i})"
      using owner_tls [where cs = "clients st", OF c] Some by (auto simp: fun_eq_iff owners_removed)
    moreover have "ls = fst (release (tls_destroy net api) q (tls_store st) w)"
      using ls Some by simp
    ultimately show ?thesis
      using exact_release [OF tls, of i q "tls_destroy net api" w] owner_tls [where cs = "clients st", OF c] Some by simp
  qed
  ultimately show ?thesis
    by (simp add: wifi_inv_def st')
qed

lemma put_transport_inv: "wifi_inv st \<Longrightarrow> wifi_inv (put_transport i tr st)"
  by (auto simp: put_transport_def wifi_inv_def exact_update split: option.splits transport.splits)

lemma set_insecure_inv: "wifi_inv st \<Longrightarrow> wifi_inv (set_insecure i st)"
proof -
  have "clients st i = Some c \<Longrightarrow>
      socket_owners ((clients st)(i \<mapsto> c\<lparr>wc_insecure := True\<rparr>)) = socket_owners (clients st)
      \<and> tls_owners ((clients st)(i \<mapsto> c\<lparr>wc_insecure := True\<rparr>)) = tls_owners (clients st)" for c
    by (auto simp: fun_eq_iff socket_owners_def tls_owners_def)
  then show "wifi_inv st \<Longrightarrow> wifi_inv (set_insecure i st)"
    by (auto simp: set_insecure_def wifi_inv_def split: option.split)
qed

lemma wifi_step_inv:
  "wifi_step net api (st, w) (st', w') \<Longrightarrow> wifi_inv st \<Longrightarrow> wifi_inv st'"
  by (erule wifi_stepE)
    (auto simp: client_new_def server_available_def client_from_socket_inv secure_new_inv
      set_insecure_inv put_transport_inv split: prod.splits dest: client_assign_inv secure_assign_inv copy_inv client_destroy_inv)

lemma wifi_reachable_inv: "wifi_reachable net api sw \<Longrightarrow> wifi_inv (fst sw)"
proof (induction rule: wifi_reachable.induct)
  case (start w)
  then show ?case
    by (simp add: wifi_inv_def wifi_init_def exact_def socket_owners_def tls_owners_def)
next
  case (step sw sw')
  then show ?case
    using wifi_step_inv by (cases sw; cases sw') simp
qed

section \<open>Properties\<close>

text \<open>
  Shared sockets live exactly as long as a client refers to them. In every state that
  construction, acceptance, copying, assignment, destruction and method calls can reach, every live
  client reaches a live transport, every socket's use count is the number of clients that hold it,
  and no socket or TLS session remains that nobody holds.
\<close>

lemma use_counts_exact:
  assumes "wifi_reachable net api (st, w)"
  shows "(clients st i = Some c \<longrightarrow> transport_of i st \<noteq> None \<and> tcp_store st (wc_socket c) \<noteq> None)
    \<and> (tcp_store st p = Some (n, s) \<longrightarrow> n = card (socket_owners (clients st) p) \<and> 0 < n)
    \<and> (tls_store st q = Some (m, t) \<longrightarrow> m = card (tls_owners (clients st) q) \<and> 0 < m)"
proof -
  have tcp: "exact (tcp_store st) (socket_owners (clients st))"
    and tls: "exact (tls_store st) (tls_owners (clients st))"
    using wifi_reachable_inv [OF assms] by (simp_all add: wifi_inv_def)
  have "transport_of i st \<noteq> None \<and> tcp_store st (wc_socket c) \<noteq> None"
    if live: "clients st i = Some c"
  proof -
    obtain k x where sock: "tcp_store st (wc_socket c) = Some (k, x)"
      using exact_live [OF tcp, of i "wc_socket c"] owner_sockets [where cs = "clients st", OF live] by auto
    show ?thesis
    proof (cases "wc_tls c")
      case None
      with sock live show ?thesis
        by (simp add: transport_of_def)
    next
      case (Some q')
      then obtain k' y where "tls_store st q' = Some (k', y)"
        using exact_live [OF tls, of i q'] owner_tls [where cs = "clients st", OF live] by auto
      with sock live Some show ?thesis
        by (simp add: transport_of_def)
    qed
  qed
  moreover have "n = card (socket_owners (clients st) p) \<and> 0 < n" if "tcp_store st p = Some (n, s)"
    using exact_at [OF tcp, of p] that by (auto simp: card_gt_0_iff)
  moreover have "m = card (tls_owners (clients st) q) \<and> 0 < m" if "tls_store st q = Some (m, t)"
    using exact_at [OF tls, of q] that by (auto simp: card_gt_0_iff)
  ultimately show ?thesis by blast
qed

lemma put_of_shared:
  assumes "clients st i = Some c" and "clients st j = Some d" and "wc_socket c = wc_socket d" and "wc_tls c = wc_tls d"
    and "transport_of j st = Some old" and "same_kind old tr"
  shows "transport_of i (put_transport j tr st) = Some tr"
  using assms by (cases old; cases tr) (auto simp: transport_of_def put_transport_def update_shared_def split: option.splits)

lemma map_option_snd: "map_option (\<lambda>x. f (snd x)) e = map_option f (map_option snd e)"
  by (simp add: option.map_comp comp_def)

lemma transport_of_cong:
  assumes "clients st' k = clients st k"
    and "\<And>c. clients st k = Some c \<Longrightarrow> map_option snd (tcp_store st' (wc_socket c)) = map_option snd (tcp_store st (wc_socket c))"
    and "\<And>c q. clients st k = Some c \<Longrightarrow> wc_tls c = Some q \<Longrightarrow> map_option snd (tls_store st' q) = map_option snd (tls_store st q)"
  shows "transport_of k st' = transport_of k st"
  using assms unfolding transport_of_def map_option_snd [where f = Plain] map_option_snd [where f = Secure]
  by (auto split: option.split)

text \<open>What either assignment does to the stores and to the world.\<close>

definition assign_clients ::
  "'w net_api \<Rightarrow> ('s, 'w) tls_api \<Rightarrow> nat \<Rightarrow> nat \<Rightarrow> 's wifi \<Rightarrow> 'w \<Rightarrow> ('s wifi \<times> 'w) option" where
  "assign_clients net api dst src st w =
     (if map_option wc_tls (clients st dst) = Some None then client_assign net dst src st w
      else secure_assign net api dst src st w)"

definition last_holder :: "nat \<Rightarrow> nat \<Rightarrow> nat set \<Rightarrow> bool" where
  "last_holder dst src own \<longleftrightarrow> dst \<noteq> src \<and> own = {dst}"

lemma assign_clients_effect:
  assumes inv: "wifi_inv st" and d: "clients st dst = Some d" and s: "clients st src = Some s"
    and kind: "wc_tls d = None \<longleftrightarrow> wc_tls s = None" and run: "assign_clients net api dst src st w = Some (st', w')"
  shows "clients st' = (clients st)(dst \<mapsto> d\<lparr>wc_socket := wc_socket s, wc_tls := wc_tls s,
        wc_insecure := (if wc_tls s = None then wc_insecure d else wc_insecure s)\<rparr>)"
    and "r = wc_socket s \<or> k \<noteq> dst \<and> k \<in> socket_owners (clients st) r \<Longrightarrow>
      map_option snd (tcp_store st' r) = map_option snd (tcp_store st r)"
    and "wc_tls s = Some q \<or> k \<noteq> dst \<and> k \<in> tls_owners (clients st) q \<Longrightarrow>
      map_option snd (tls_store st' q) = map_option snd (tls_store st q)"
    and "w' = (let w1 = if last_holder dst src (socket_owners (clients st) (wc_socket d))
          then tcp_destroy net (snd (the (tcp_store st (wc_socket d)))) w else w
        in case wc_tls d of
          None \<Rightarrow> w1
        | Some old \<Rightarrow> if last_holder dst src (tls_owners (clients st) old)
            then tls_destroy net api (snd (the (tls_store st old))) w1 else w1)"
proof -
  have tcp: "exact (tcp_store st) (socket_owners (clients st))"
    and tls: "exact (tls_store st) (tls_owners (clients st))"
    using inv by (simp_all add: wifi_inv_def)
  obtain st1 w1 where base: "client_assign net dst src st w = Some (st1, w1)"
    using d s by (auto simp: client_assign_def split_def Let_def)
  then obtain ts where rel: "release (tcp_destroy net) (wc_socket d) (acquire (wc_socket s) (tcp_store st)) w = (ts, w1)"
    and st1: "st1 = st\<lparr>tcp_store := ts, clients := (clients st)(dst \<mapsto> d\<lparr>wc_socket := wc_socket s\<rparr>)\<rparr>"
    using d s by (auto elim: client_assign_shape)
  have own: "dst \<in> socket_owners (clients st) (wc_socket d)" "src \<in> socket_owners (clients st) (wc_socket s)"
    using d s by (simp_all add: socket_owners_def)
  note effect = reassign_effect [OF tcp own socket_owner_one rel]
  have result: "if wc_tls s = None then st' = st1 \<and> w' = w1
      else tls_assign net api dst (the (wc_tls s)) (wc_insecure s) st1 w1 = Some (st', w')"
    using run base d s kind by (auto simp: assign_clients_def secure_assign_def split: option.splits)
  show "clients st' = (clients st)(dst \<mapsto> d\<lparr>wc_socket := wc_socket s, wc_tls := wc_tls s,
        wc_insecure := (if wc_tls s = None then wc_insecure d else wc_insecure s)\<rparr>)"
    using result kind st1 by (auto simp: fun_eq_iff elim!: tls_assign_shape split: if_splits)
  have "tcp_store st' = ts"
    using result st1 by (auto elim!: tls_assign_shape split: if_splits)
  then show "map_option snd (tcp_store st' r) = map_option snd (tcp_store st r)"
    if "r = wc_socket s \<or> k \<noteq> dst \<and> k \<in> socket_owners (clients st) r"
    using effect(2) [OF that] by simp
  have "(wc_tls s = Some q \<or> k \<noteq> dst \<and> k \<in> tls_owners (clients st) q \<longrightarrow>
        map_option snd (tls_store st' q) = map_option snd (tls_store st q))
      \<and> w' = (case wc_tls d of
          None \<Rightarrow> w1
        | Some old \<Rightarrow> if last_holder dst src (tls_owners (clients st) old)
            then tls_destroy net api (snd (the (tls_store st old))) w1 else w1)" for q
  proof (cases "wc_tls s")
    case None
    with result kind st1 show ?thesis
      by simp
  next
    case (Some new)
    then obtain old where old: "wc_tls d = Some old"
      using kind by auto
    obtain ls where rel2: "release (tls_destroy net api) old (acquire new (tls_store st)) w1 = (ls, w')"
      and ls: "tls_store st' = ls"
      using result Some st1 old by (auto elim!: tls_assign_shape)
    have "dst \<in> tls_owners (clients st) old" "src \<in> tls_owners (clients st) new"
      using d s old Some by (simp_all add: tls_owners_def)
    note second = reassign_effect [OF tls this tls_owner_one rel2]
    show ?thesis
      using second(1) second(2) [of q k] old Some ls by (auto simp: last_holder_def)
  qed
  then show "wc_tls s = Some q \<or> k \<noteq> dst \<and> k \<in> tls_owners (clients st) q \<Longrightarrow>
      map_option snd (tls_store st' q) = map_option snd (tls_store st q)"
    and "w' = (let w1 = if last_holder dst src (socket_owners (clients st) (wc_socket d))
          then tcp_destroy net (snd (the (tcp_store st (wc_socket d)))) w else w
        in case wc_tls d of
          None \<Rightarrow> w1
        | Some old \<Rightarrow> if last_holder dst src (tls_owners (clients st) old)
            then tls_destroy net api (snd (the (tls_store st old))) w1 else w1)"
    using effect(1) [folded last_holder_def] by (simp_all only: Let_def)
qed

text \<open>
  C21: an assigned client shares the connection. After \<open>dst = src\<close> between two \<open>WiFiClient\<close>s, or two
  \<open>WiFiClientSecure\<close>s, both talk over the connection that \<open>src\<close> had, and whatever a method called
  on one leaves there (a connection opened through \<open>src\<close> after the assignment, say) is what a method
  called on the other finds. Every other client keeps its connection as it was. The connection
  that \<open>dst\<close> had before is closed exactly when no other client holds it, first the socket of the
  base class, then the TLS session.
\<close>

theorem assigned_client_shares_connection:
  assumes "wifi_reachable net api (st, w)"
    and "clients st dst = Some d" and "clients st src = Some s"
    and "wc_tls d = None \<longleftrightarrow> wc_tls s = None"
    and "assign_clients net api dst src st w = Some (st', w')"
  shows "transport_of dst st' = transport_of src st \<and> transport_of src st' = transport_of src st
    \<and> (same_kind (the (transport_of src st)) tr \<longrightarrow>
        transport_of dst (put_transport src tr st') = Some tr \<and> transport_of src (put_transport dst tr st') = Some tr)
    \<and> (k \<noteq> dst \<longrightarrow> transport_of k st' = transport_of k st)
    \<and> w' = (let w1 = if last_holder dst src (socket_owners (clients st) (wc_socket d))
          then tcp_destroy net (snd (the (tcp_store st (wc_socket d)))) w else w
        in case wc_tls d of
          None \<Rightarrow> w1
        | Some old \<Rightarrow> if last_holder dst src (tls_owners (clients st) old)
            then tls_destroy net api (snd (the (tls_store st old))) w1 else w1)"
proof -
  have inv: "wifi_inv st"
    using wifi_reachable_inv [OF assms(1)] by simp
  note effect = assign_clients_effect [OF inv assms(2-5)]
  have live: "transport_of src st \<noteq> None"
    using use_counts_exact [OF assms(1), of src s] assms(3) by blast
  have src: "transport_of src st' = transport_of src st"
  proof (cases "src = dst")
    case True
    then have "clients st' src = clients st src"
      using assms(2,3) effect(1) by simp
    then show ?thesis
      using assms(3) effect(2,3) by (intro transport_of_cong) auto
  next
    case False
    then show ?thesis
      using assms(3) effect(1-3) by (intro transport_of_cong) auto
  qed
  have others: "transport_of k st' = transport_of k st" if "k \<noteq> dst"
    using that effect(1) effect(2) [of _ k] effect(3) [of _ k]
    by (intro transport_of_cong) (auto simp: socket_owners_def tls_owners_def)
  obtain d' s' where cl: "clients st' dst = Some d'" "clients st' src = Some s'"
    and same: "wc_socket d' = wc_socket s'" "wc_tls d' = wc_tls s'"
    using effect(1) assms(2,3) by (cases "src = dst") auto
  then have dst: "transport_of dst st' = transport_of src st'"
    using same by (cases "wc_tls s'") (simp_all add: transport_of_def)
  have put: "transport_of dst (put_transport src tr st') = Some tr" "transport_of src (put_transport dst tr st') = Some tr"
    if "same_kind (the (transport_of src st)) tr"
    using put_of_shared [OF cl same] put_of_shared [OF cl(2,1) same [symmetric]] live src dst that by fastforce+
  show ?thesis
    by (intro conjI impI; (rule effect(4) | simp add: src dst others put))
qed

theorem assigned_client_shares_connection_witness:
  "\<exists>st' w'. transport_of 2 (put_transport 1 (Plain (tcp_adopt 9)) (st' :: bytes wifi)) = Some (Plain (tcp_adopt 9))
     \<and> lw_fds (w' :: loop_world) = {0, 1, 2}"
proof -
  let ?a = "client_new 1 7 (wifi_init :: bytes wifi)"
  let ?b = "client_new 2 8 ?a"
  let ?st = "put_transport 2 (Plain (tcp_adopt 3)) ?b"
  let ?w = "loop_start\<lparr>lw_fds := {0, 1, 2, 3}\<rparr>"
  have one: "wifi_reachable loop_os loop_tls (?a, loop_start)"
    by (rule wifi_reachable.step [OF wifi_reachable.start wifi_step.construct])
      (simp_all add: wifi_init_def)
  have two: "wifi_reachable loop_os loop_tls (?b, loop_start)"
    by (rule wifi_reachable.step [OF one wifi_step.construct])
      (simp_all add: wifi_init_def client_new_def client_from_socket_def make_shared_def)
  have tr: "transport_of 2 ?b = Some (Plain tcp_new)" "transport_of 1 ?st = Some (Plain tcp_new)"
    and st2: "tcp_store ?st 8 = Some (1, tcp_adopt 3)"
    by (simp_all add: transport_of_def put_transport_def client_new_def client_from_socket_def make_shared_def update_shared_def)
  have three: "wifi_reachable loop_os loop_tls (?st, ?w)"
    by (rule wifi_reachable.step [OF two wifi_step.call [OF tr(1)]]) simp
  have c1: "clients ?st 1 = Some \<lparr>wc_socket = 7, wc_tls = None, wc_insecure = False\<rparr>"
    and c2: "clients ?st 2 = Some \<lparr>wc_socket = 8, wc_tls = None, wc_insecure = False\<rparr>"
    by (simp_all add: client_new_def client_from_socket_def put_transport_def wifi_init_def)
  have own: "socket_owners (clients ?st) 8 = {2}"
    by (auto simp: socket_owners_def client_new_def client_from_socket_def put_transport_def wifi_init_def split: if_splits)
  obtain st' w' where asg: "assign_clients loop_os loop_tls 2 1 ?st ?w = Some (st', w')"
    using c1 c2 by (simp add: assign_clients_def client_assign_def Let_def split_def)
  note shared = assigned_client_shares_connection [OF three c2 c1 _ asg, of "Plain (tcp_adopt 9)"]
  have "w' = tcp_destroy loop_os (tcp_adopt 3) ?w"
    using conjunct2 [OF conjunct2 [OF conjunct2 [OF conjunct2 [OF shared]]]]
    by (simp only: Let_def wifi_client.simps option.case own st2 last_holder_def) simp
  then have "lw_fds w' = {0, 1, 2}"
    by (auto simp: tcp_destroy_def tcp_close_def tcp_adopt_def tcp_is_open_def kInvalid_def loop_os_def)
  moreover have "transport_of 2 (put_transport 1 (Plain (tcp_adopt 9)) st') = Some (Plain (tcp_adopt 9))"
    using conjunct1 [OF conjunct2 [OF conjunct2 [OF shared]]] tr(2) by simp
  ultimately show ?thesis
    by (intro exI [of _ st'] exI [of _ w'] conjI)
qed

text \<open>
  \<open>connect(IPAddress, port)\<close> dials that address. Where the system's \<open>inet_pton\<close> reads a dotted
  quad as documented (first octet first in memory, so in the low byte of a little-endian word), a
  \<open>WiFiClient\<close> given an address goes through its printed form to the socket call with exactly the
  packed address and port, with no name lookup.
\<close>

theorem connect_ip_dials_that_address:
  assumes "\<And>a. inet_pton net (dotted a) = Some (ip_to_u32 a)"
  shows "resolve_ipv4 net (cstr_or_empty (Some (string_c_str (ip_toString ip)))) w = (Some (ip_to_u32 ip), w)
    \<and> vt_connect_ip net api ip port (Plain s) w =
        (let (s1, w1) = tcp_close net s w; (fd, w2) = os_socket net SOCK_STREAM w1 in
         if fd = kInvalid then Some (0, Plain s1, w2)
         else
           let (rc, w3) = os_connect net fd (ip_to_u32 ip) port w2 in
           if rc = 0
           then Some (1, Plain (s1\<lparr>tcp_handle := fd\<rparr>), os_set_non_blocking net fd w3)
           else Some (0, Plain s1, os_close net fd w3))"
proof -
  have str: "cstr_or_empty (Some (string_c_str (ip_toString ip))) = dotted ip"
    by (simp add: cstr_or_empty_def string_c_str_def ip_toString_dotted dotted_nul_free)
  have "resolve_ipv4 net (dotted ip) v = (Some (ip_to_u32 ip), v)" for v
    using assms by (simp add: resolve_ipv4_def dotted_nul_free)
  then show ?thesis
    by (auto simp: vt_connect_ip_def vt_connect_def client_connect_def str tcp_connect_def Let_def split_def)
qed

theorem connect_ip_dials_that_address_witness:
  "fst (resolve_ipv4 (loop_os\<lparr>inet_pton := \<lambda>h. map_option ip_to_u32 (parse_dotted h)\<rparr>) ''10.0.0.1'' loop_start)
     = Some (ip_to_u32 (IPAddress 10 0 0 1))"
proof -
  let ?net = "loop_os\<lparr>inet_pton := \<lambda>h. map_option ip_to_u32 (parse_dotted h)\<rparr>"
  have doc: "inet_pton ?net (dotted a) = Some (ip_to_u32 a)" for a
    by (simp add: parse_dotted_dotted)
  have "dotted (IPAddress 10 0 0 1) = ''10.0.0.1''"
    by code_simp
  then have str: "cstr_or_empty (Some (string_c_str (ip_toString (IPAddress 10 0 0 1)))) = ''10.0.0.1''"
    by (simp add: cstr_or_empty_def string_c_str_def ip_toString_dotted dotted_nul_free)
  show ?thesis
    using connect_ip_dials_that_address [OF doc, THEN conjunct1, of "IPAddress 10 0 0 1" loop_start]
    unfolding str by (rule arg_cong [where f = fst, THEN trans]) (rule fst_conv)
qed

lemma udp_puts_frame:
  "udp_handle (snd (puts wifi_udp_write parts u)) = udp_handle u
     \<and> pending_host (snd (puts wifi_udp_write parts u)) = pending_host u
     \<and> pending_port (snd (puts wifi_udp_write parts u)) = pending_port u"
  by (induction parts arbitrary: u) (simp_all add: Let_def split_def wifi_udp_write_def udp_write_def)

text \<open>
  What is written between \<open>beginPacket\<close> and \<open>endPacket\<close> leaves as one datagram. On an open
  \<open>WiFiUDP\<close> whose destination resolves, \<open>endPacket\<close> makes one \<open>sendto\<close> of the concatenation of the
  writes, whatever the buffer held before \<open>beginPacket\<close>, to the address and port given there, and
  leaves an empty buffer; the writes report all their bytes taken.
\<close>

theorem udp_packet_sent_whole:
  assumes "udp_handle u \<noteq> kInvalid" and "resolve_ipv4 net (dotted ip) w = (Some addr, w1)"
    and "puts wifi_udp_write parts (snd (wifi_udp_beginPacket ip port u)) = (n, u2)"
  shows "n = length (concat parts)
    \<and> fst (wifi_udp_endPacket net u2 w)
        = (0 \<le> fst (os_sendto net (udp_handle u) (concat parts) addr port w1))
    \<and> snd (snd (wifi_udp_endPacket net u2 w)) = snd (os_sendto net (udp_handle u) (concat parts) addr port w1)
    \<and> send_buffer (fst (snd (wifi_udp_endPacket net u2 w))) = []"
proof -
  let ?u1 = "snd (wifi_udp_beginPacket ip port u)"
  have u1: "udp_handle ?u1 = udp_handle u" "pending_host ?u1 = dotted ip" "pending_port ?u1 = port"
    "send_buffer ?u1 = []"
    by (simp_all add: wifi_udp_beginPacket_def udp_begin_packet_def string_c_str_def
        ip_toString_dotted dotted_nul_free)
  have "n = length (concat parts)" "send_buffer u2 = concat parts"
    using udp_sink.puts_take_all [of parts ?u1] assms(3) u1(4) by simp_all
  moreover have "udp_handle u2 = udp_handle u" "pending_host u2 = dotted ip" "pending_port u2 = port"
    using udp_puts_frame [of parts ?u1] assms(3) u1 by simp_all
  ultimately show ?thesis
    using assms(1,2) by (simp add: wifi_udp_endPacket_def udp_end_packet_def Let_def split_def)
qed

theorem udp_packet_sent_whole_witness:
  "let net = loop_os\<lparr>inet_pton := \<lambda>h. Some 7\<rparr>;
       (n, u2) = puts wifi_udp_write [[1], [2, 3]]
         (snd (wifi_udp_beginPacket (IPAddress 10 0 0 1) 123 (udp_new\<lparr>udp_handle := 4\<rparr>)))
   in n = 3 \<and> snd (snd (wifi_udp_endPacket net u2 loop_start)) = loop_start\<lparr>lw_sent := [[1, 2, 3]]\<rparr>"
proof -
  let ?net = "loop_os\<lparr>inet_pton := \<lambda>h. Some 7\<rparr>" and ?u = "udp_new\<lparr>udp_handle := 4\<rparr>"
  let ?ip = "IPAddress 10 0 0 1"
  have res: "resolve_ipv4 ?net (dotted ?ip) loop_start = (Some 7, loop_start)"
    by (simp add: resolve_ipv4_def)
  obtain n u2 where run: "puts wifi_udp_write [[1], [2, 3]] (snd (wifi_udp_beginPacket ?ip 123 ?u)) = (n, u2)"
    by fastforce
  have "n = 3 \<and> snd (snd (wifi_udp_endPacket ?net u2 loop_start)) = loop_start\<lparr>lw_sent := [[1, 2, 3]]\<rparr>"
    using udp_packet_sent_whole [OF _ res run] by (simp add: kInvalid_def loop_os_def loop_start_def)
  then show ?thesis
    by (simp only: run Let_def prod.case)
qed



end
