(* ===== verification/WiFiHandles.thy ===== *)
theory WiFiHandles
  imports WiFi
begin

text \<open>
  A program with any number of the network objects of the Arduino classes: clients of both kinds,
  which share their sockets, servers and datagram sockets. Which descriptors of the operating
  system are open then, and who owns them.
\<close>

section \<open>The TLS client hands descriptors over\<close>

text \<open>
  mbedTLS reaches the connection through the two BIO functions only; seeding and sleeping have
  nothing to do with it.
\<close>

definition tls_handle_os :: "'w net_api \<Rightarrow> ('s, 'w) tls_api \<Rightarrow> ('w \<Rightarrow> int set) \<Rightarrow> bool" where
  "tls_handle_os net api opens \<longleftrightarrow>
     (\<forall>p ssl w r ssl' w'. drbg_seed api p ssl w = (r, ssl', w') \<longrightarrow> opens w' = opens w) \<and>
     (\<forall>n w. opens (sleep_for api n w) = opens w) \<and>
     (\<forall>ssl tcp w r ssl' tcp' w'. ssl_handshake api (tls_bio net api) ssl tcp w = (r, ssl', tcp', w')
        \<longrightarrow> opens w' = opens w \<and> tcp_handle tcp' = tcp_handle tcp) \<and>
     (\<forall>n ssl tcp w r buf ssl' tcp' w'. ssl_read api (tls_bio net api) n ssl tcp w = (r, buf, ssl', tcp', w')
        \<longrightarrow> opens w' = opens w \<and> tcp_handle tcp' = tcp_handle tcp) \<and>
     (\<forall>bs ssl tcp w r ssl' tcp' w'. ssl_write api (tls_bio net api) bs ssl tcp w = (r, ssl', tcp', w')
        \<longrightarrow> opens w' = opens w \<and> tcp_handle tcp' = tcp_handle tcp) \<and>
     (\<forall>ssl tcp w ssl' tcp' w'. close_notify api (tls_bio net api) ssl tcp w = (ssl', tcp', w')
        \<longrightarrow> opens w' = opens w \<and> tcp_handle tcp' = tcp_handle tcp)"

definition handles_os :: "'w net_api \<Rightarrow> ('s, 'w) tls_api \<Rightarrow> ('w \<Rightarrow> int set) \<Rightarrow> bool" where
  "handles_os net api opens \<longleftrightarrow> handle_os net opens \<and> tls_handle_os net api opens"

abbreviation tls_handle :: "'s tls_socket \<Rightarrow> int" where
  "tls_handle s \<equiv> tcp_handle (tls_tcp s)"

lemma hands_over_same:
  "hands_over opens h w h' w1 \<Longrightarrow> opens w2 = opens w1 \<Longrightarrow> hands_over opens h w h' w2"
  by (simp add: hands_over_def)

lemma hands_over_sub: "hands_over opens h w h' w' \<Longrightarrow> owned h' \<subseteq> opens w'"
  by (simp add: hands_over_def)

lemma tls_close_tcp_hands_over:
  "handle_os net opens \<Longrightarrow> owned (tls_handle s) \<subseteq> opens w \<Longrightarrow> tls_close_tcp net s w = (s', w') \<Longrightarrow>
     hands_over opens (tls_handle s) w (tls_handle s') w'"
  by (auto simp: tls_close_tcp_def split: prod.splits dest!: tcp_close_hands_over)

text \<open>What one call of mbedTLS leaves.\<close>

lemma tls_calls_keep:
  assumes "tls_handle_os net api opens"
  shows "drbg_seed api p ssl w = (r, ssl', w') \<Longrightarrow> opens w' = opens w"
    and "opens (sleep_for api n w) = opens w"
    and "ssl_handshake api (tls_bio net api) ssl tcp w = (r, ssl', tcp', w')
      \<Longrightarrow> opens w' = opens w \<and> tcp_handle tcp' = tcp_handle tcp"
    and "ssl_read api (tls_bio net api) n ssl tcp w = (r, buf, ssl', tcp', w')
      \<Longrightarrow> opens w' = opens w \<and> tcp_handle tcp' = tcp_handle tcp"
    and "ssl_write api (tls_bio net api) bs ssl tcp w = (r, ssl', tcp', w')
      \<Longrightarrow> opens w' = opens w \<and> tcp_handle tcp' = tcp_handle tcp"
    and "close_notify api (tls_bio net api) ssl tcp w = (ssl', tcp', w')
      \<Longrightarrow> opens w' = opens w \<and> tcp_handle tcp' = tcp_handle tcp"
  using assms unfolding tls_handle_os_def by - metis+

lemma tls_handshake_loop_hands_over:
  assumes "tls_handshake_loop net api deadline s w = Some r"
  shows "handles_os net api opens \<longrightarrow> owned (tls_handle s) \<subseteq> opens w
    \<longrightarrow> (case r of (ok, s', w') \<Rightarrow> hands_over opens (tls_handle s) w (tls_handle s') w')"
proof (rule tls_handshake_loop.raw_induct [OF _ assms, where P = "\<lambda>net api deadline s w r.
    handles_os net api opens \<longrightarrow> owned (tls_handle s) \<subseteq> opens w
    \<longrightarrow> (case r of (ok, s', w') \<Rightarrow> hands_over opens (tls_handle s) w (tls_handle s') w')"], goal_cases)
  case (1 loop net api deadline s w r)
  show ?case
  proof (intro impI)
    assume os: "handles_os net api opens" and own: "owned (tls_handle s) \<subseteq> opens w"
    obtain ret ssl tcp w1 where one:
      "ssl_handshake api (tls_bio net api) (tls_ssl s) (tls_tcp s) w = (ret, ssl, tcp, w1)"
      by (cases "ssl_handshake api (tls_bio net api) (tls_ssl s) (tls_tcp s) w")
    let ?s1 = "s\<lparr>tls_ssl := ssl, tls_tcp := tcp\<rparr>"
    have kept: "opens w1 = opens w" "tcp_handle tcp = tls_handle s"
      using tls_calls_keep(3) [of net api opens, OF _ one] os by (simp_all add: handles_os_def)
    have shut: "hands_over opens (tls_handle s) w (tls_handle s') w'"
      if "tls_close_tcp net ?s1 w1 = (s', w')" for s' w'
      using tls_close_tcp_hands_over [of net opens ?s1 w1, OF _ _ that] os own kept by (simp add: handles_os_def hands_over_def)
    obtain ok s' w' where r: "r = (ok, s', w')"
      by (cases r)
    have again: "hands_over opens (tls_handle s) w (tls_handle s') w'"
      if "loop net api deadline ?s1 (sleep_for api 2 w1) = Some (ok, s', w')"
      using 1(1) [OF that] os own kept tls_calls_keep(2) [of net api opens 2 w1]
      by (auto simp: handles_os_def hands_over_def)
    from 1(2) one kept own show "case r of (ok, s', w') \<Rightarrow> hands_over opens (tls_handle s) w (tls_handle s') w'"
      by (auto simp: r Let_def hands_over_refl intro: shut again split: if_splits)
  qed
qed

lemma tls_write_loop_keeps:
  assumes "tls_write_loop net api deadline buf sent s w = Some r"
  shows "tls_handle_os net api opens
    \<longrightarrow> (case r of (n, s', w') \<Rightarrow> opens w' = opens w \<and> tls_handle s' = tls_handle s)"
proof (rule tls_write_loop.raw_induct [OF _ assms, where P = "\<lambda>net api deadline buf sent s w r.
    tls_handle_os net api opens
    \<longrightarrow> (case r of (n, s', w') \<Rightarrow> opens w' = opens w \<and> tls_handle s' = tls_handle s)"], goal_cases)
  case (1 loop net api deadline buf sent s w r)
  show ?case
  proof
    assume os: "tls_handle_os net api opens"
    obtain n ssl tcp w1 where one:
      "ssl_write api (tls_bio net api) (drop sent buf) (tls_ssl s) (tls_tcp s) w = (n, ssl, tcp, w1)"
      by (cases "ssl_write api (tls_bio net api) (drop sent buf) (tls_ssl s) (tls_tcp s) w")
    let ?s1 = "s\<lparr>tls_ssl := ssl, tls_tcp := tcp\<rparr>"
    have kept: "opens w1 = opens w" "tcp_handle tcp = tls_handle s"
      using tls_calls_keep(5) [of net api opens, OF os one] by simp_all
    obtain m s' w' where r: "r = (m, s', w')"
      by (cases r)
    have again: "opens w' = opens w \<and> tls_handle s' = tls_handle s"
      if "loop net api deadline buf k ?s1 v = Some (m, s', w')" and "opens v = opens w1" for k v
      using 1(1) [OF that(1)] os kept that(2) by simp
    from 1(2) one kept show "case r of (n, s', w') \<Rightarrow> opens w' = opens w \<and> tls_handle s' = tls_handle s"
      using tls_calls_keep(2) [of net api opens 2 w1, OF os]
      by (auto simp: r Let_def dest: again split: if_splits)
  qed
qed

lemma tls_connect_hands_over:
  assumes os: "handles_os net api opens" and own: "owned (tls_handle s) \<subseteq> opens w"
    and run: "tls_connect net api host port s w = Some (ok, s', w')"
  shows "hands_over opens (tls_handle s) w (tls_handle s') w'"
proof -
  have net: "handle_os net opens" and tls: "tls_handle_os net api opens"
    using os by (simp_all add: handles_os_def)
  obtain up tcp w1 where c: "tcp_connect net host port (tls_tcp s) w = (up, tcp, w1)"
    by (cases "tcp_connect net host port (tls_tcp s) w")
  have dialled: "hands_over opens (tls_handle s) w (tcp_handle tcp) w1"
    using tcp_connect_hands_over [OF net own c] by simp
  obtain r1 ssl1 w2 where r1: "drbg_seed api ''zimodem_hal_tls'' (tls_ssl s) w1 = (r1, ssl1, w2)"
    by (cases "drbg_seed api ''zimodem_hal_tls'' (tls_ssl s) w1")
  have up: "hands_over opens (tls_handle s) w (tcp_handle tcp) w2"
    using hands_over_same [OF dialled] tls_calls_keep(1) [of net api opens, OF tls r1] by simp
  obtain r2 ssl2 where r2: "config_defaults api ssl1 = (r2, ssl2)"
    by (cases "config_defaults api ssl1")
  obtain r3 ssl4 where r3: "ssl_setup api (conf_rng api (conf_verify_none api ssl2)) = (r3, ssl4)"
    by (cases "ssl_setup api (conf_rng api (conf_verify_none api ssl2))")
  have shut: "hands_over opens (tls_handle s) w (tls_handle s') w'"
    if "tls_close_tcp net x w2 = (s', w')" "tls_tcp x = tcp" for x
    using tls_close_tcp_hands_over [OF net _ that(1)] hands_over_sub [OF up] hands_over_trans [OF up] that(2) by simp
  have shake: "hands_over opens (tls_handle s) w (tls_handle s6) w3"
    if "tls_handshake_loop net api d (s\<lparr>tls_tcp := tcp, tls_ssl := k\<rparr>) w2 = Some (b, s6, w3)" for d k b s6 w3
    using tls_handshake_loop_hands_over [OF that, of opens] os hands_over_sub [OF up]
      hands_over_trans [OF up] by simp
  from run c dialled r1 r2 r3 show ?thesis
    by (auto simp: tls_connect_def Let_def intro: shut split: if_splits option.splits) (drule shake, simp)+
qed

lemma tls_close_hands_over:
  assumes os: "handles_os net api opens" and own: "owned (tls_handle s) \<subseteq> opens w"
    and run: "tls_close net api s w = (s', w')"
  shows "hands_over opens (tls_handle s) w (tls_handle s') w' \<and> tls_handle s' = kInvalid"
proof -
  have net: "handle_os net opens" and tls: "tls_handle_os net api opens"
    using os by (simp_all add: handles_os_def)
  obtain ssl tcp w1 where n: "close_notify api (tls_bio net api) (tls_ssl s) (tls_tcp s) w = (ssl, tcp, w1)"
    by (cases "close_notify api (tls_bio net api) (tls_ssl s) (tls_tcp s) w")
  have kept: "opens w1 = opens w" "tcp_handle tcp = tls_handle s"
    using tls_calls_keep(6) [of net api opens, OF tls n] by simp_all
  have shut: "hands_over opens (tls_handle s) w (tcp_handle y) v'" "tcp_handle y = kInvalid"
    if "tcp_close net x v = (y, v')" "tcp_handle x = tls_handle s" "opens v = opens w" for x y v v'
    using tcp_close_hands_over [OF net _ that(1)] own that(2,3) by (simp_all add: hands_over_def)
  from run n kept show ?thesis
    by (auto simp: tls_close_def tls_close_tcp_def Let_def intro: shut split: if_splits prod.splits)
qed

lemma tls_pump_keeps:
  assumes "tls_handle_os net api opens" and "tls_pump net api s w = (s', w')"
  shows "opens w' = opens w \<and> tls_handle s' = tls_handle s"
proof -
  obtain n tmp ssl tcp w1 where one:
    "ssl_read api (tls_bio net api) 1536 (tls_ssl s) (tls_tcp s) w = (n, tmp, ssl, tcp, w1)"
    by (cases "ssl_read api (tls_bio net api) 1536 (tls_ssl s) (tls_tcp s) w")
  with assms(2) tls_calls_keep(4) [of net api opens, OF assms(1) one] show ?thesis
    by (auto simp: tls_pump_def Let_def split: if_splits)
qed

lemma tls_reads_keep:
  assumes os: "tls_handle_os net api opens"
  shows "tls_available net api s w = (v, s', w') \<Longrightarrow> opens w' = opens w \<and> tls_handle s' = tls_handle s"
    and "tls_read net api len s w = (r, buf, s', w') \<Longrightarrow> opens w' = opens w \<and> tls_handle s' = tls_handle s"
    and "tls_peek_byte net api s w = (v, s', w') \<Longrightarrow> opens w' = opens w \<and> tls_handle s' = tls_handle s"
  using tls_pump_keeps [OF os, of s w]
  by (auto simp: tls_available_def tls_read_def tls_peek_byte_def Let_def split: if_splits prod.splits)

section \<open>The virtual methods\<close>

datatype client_method =
    Connect c_string u16 | ConnectIp ip_address u16 | Connected | AvailableBytes | ReadByte | ReadBuf nat
  | Peek | WriteBuf bytes | WriteByte u8 | Flush | SetNoDelay bool | Stop

text \<open>The effect of a call through a \<open>WiFiClient\<close> pointer; \<open>None\<close> when it does not return.\<close>

definition vt_call ::
  "'w net_api \<Rightarrow> ('s, 'w) tls_api \<Rightarrow> client_method \<Rightarrow> 's transport \<Rightarrow> 'w \<Rightarrow> ('s transport \<times> 'w) option" where
  "vt_call net api m tr w =
     (case m of
        Connect host port \<Rightarrow> map_option snd (vt_connect net api host port tr w)
      | ConnectIp ip port \<Rightarrow> map_option snd (vt_connect_ip net api ip port tr w)
      | Connected \<Rightarrow> Some (tr, snd (vt_connected net tr w))
      | AvailableBytes \<Rightarrow> Some (snd (vt_available net api tr w))
      | ReadByte \<Rightarrow> Some (snd (vt_read net api tr w))
      | ReadBuf len \<Rightarrow> Some (snd (snd (vt_read_buf net api len tr w)))
      | Peek \<Rightarrow> Some (snd (vt_peek net api tr w))
      | WriteBuf bs \<Rightarrow> map_option snd (vt_write net api bs tr w)
      | WriteByte b \<Rightarrow> map_option snd (vt_write_byte net api b tr w)
      | Flush \<Rightarrow> Some (vt_flush tr, w)
      | SetNoDelay b \<Rightarrow> Some (tr, vt_setNoDelay net b tr w)
      | Stop \<Rightarrow> Some (vt_stop net api tr w))"

primrec tr_handle :: "'s transport \<Rightarrow> int" where
  "tr_handle (Plain s) = tcp_handle s"
| "tr_handle (Secure s) = tls_handle s"

definition moves :: "('w \<Rightarrow> int set) \<Rightarrow> 's transport \<Rightarrow> 'w \<Rightarrow> 's transport \<times> 'w \<Rightarrow> bool" where
  "moves opens tr w res \<longleftrightarrow>
     same_kind tr (fst res) \<and> hands_over opens (tr_handle tr) w (tr_handle (fst res)) (snd res)"

lemma moves_same:
  "same_kind tr tr' \<Longrightarrow> tr_handle tr' = tr_handle tr \<Longrightarrow> owned (tr_handle tr) \<subseteq> opens w \<Longrightarrow> opens w' = opens w
     \<Longrightarrow> moves opens tr w (tr', w')"
  by (simp add: moves_def hands_over_def)

lemma same_kind_refl [simp]: "same_kind tr tr"
  by (cases tr) simp_all

lemma tls_write_keeps:
  assumes "tls_handle_os net api opens" and "tls_write net api bs s w = Some (n, s', w')"
  shows "opens w' = opens w \<and> tls_handle s' = tls_handle s"
  using assms tls_write_loop_keeps [of net api _ bs 0 s w "(n, s', w')" opens]
  by (auto simp: tls_write_def split: if_splits)

lemma tls_connected_opens:
  "handle_os net opens \<Longrightarrow> opens (snd (tls_connected net s w)) = opens w"
  by (simp add: tls_connected_def tcp_connected_opens)

lemmas vt_methods = vt_call_def vt_connect_ip_def vt_connect_def vt_connected_def vt_unfolded vt_read_def
  vt_write_def vt_write_byte_def vt_flush_def vt_setNoDelay_def vt_stop_def

lemma vt_call_moves_plain:
  assumes net: "handle_os net opens" and own: "owned (tcp_handle s) \<subseteq> opens w"
    and run: "vt_call net api m (Plain s) w = Some res"
  shows "moves opens (Plain s) w res"
proof -
  have conn: "moves opens (Plain s) w (Plain s', w')" if "tcp_connect net host port s w = (b, s', w')" for host port b s' w'
    using tcp_connect_hands_over [OF net own that] by (simp add: moves_def)
  have stays: "moves opens (Plain s) w (Plain s, w')" if "opens w' = opens w" for w'
    using that own by (simp add: moves_same)
  have reads: "tcp_read net len s w = (n, buf, s', w') \<Longrightarrow> moves opens (Plain s) w (Plain s', w')"
    "tcp_peek_byte net s w = (n, s', w') \<Longrightarrow> moves opens (Plain s) w (Plain s', w')" for len n buf s' w'
    using tcp_read_opens [OF net] tcp_peek_opens [OF net] own by (auto intro!: moves_same)
  have closes: "moves opens (Plain s) w (Plain s', w')" if "tcp_close net s w = (s', w')" for s' w'
    using tcp_close_hands_over [OF net own that] by (simp add: moves_def)
  have writes: "moves opens (Plain s) w (Plain s, w')" if "tcp_write net bs s w = (n, w')" for bs n w'
    using stays tcp_write_opens [OF net, of bs s w] that by simp
  have asks: "moves opens (Plain s) w (Plain s, w')" if "tcp_connected net s w = (b, w')" for b w'
    using stays tcp_connected_opens [OF net, of s w] that by simp
  show ?thesis
    using run stays
    by (cases m)
      (auto simp: vt_methods client_connect_def client_connected_def client_read_def client_read_buf_def
        client_write_def client_write_byte_def client_flush_def tcp_flush_def client_setNoDelay_def
        tcp_set_no_delay_opens [OF net] client_stop_def split: prod.splits
        intro: conn reads closes writes asks)
qed

lemma vt_call_moves_secure:
  assumes os: "handles_os net api opens" and own: "owned (tls_handle s) \<subseteq> opens w"
    and run: "vt_call net api m (Secure s) w = Some res"
  shows "moves opens (Secure s) w res"
proof -
  have net: "handle_os net opens" and tls: "tls_handle_os net api opens"
    using os by (simp_all add: handles_os_def)
  have conn: "moves opens (Secure s) w (Secure s', w')" if "tls_connect net api host port s w = Some (b, s', w')" for host port b s' w'
    using tls_connect_hands_over [OF os own that] by (simp add: moves_def)
  have stays: "moves opens (Secure s) w (Secure s', w')" if "opens w' = opens w \<and> tls_handle s' = tls_handle s" for s' w'
    using that own by (simp add: moves_same)
  have closes: "moves opens (Secure s) w (Secure s', w')" if "tls_close net api s w = (s', w')" for s' w'
    using tls_close_hands_over [OF os own that] by (auto simp: moves_def)
  have asks: "moves opens (Secure s) w (Secure s, w')" if "tls_connected net s w = (b, w')" for b w'
    using stays tls_connected_opens [OF net, of s w] that by simp
  have reads: "tls_available net api s w = (v, s', w') \<Longrightarrow> moves opens (Secure s) w (Secure s', w')"
    "tls_read net api len s w = (v, buf, s', w') \<Longrightarrow> moves opens (Secure s) w (Secure s', w')"
    "tls_peek_byte net api s w = (v, s', w') \<Longrightarrow> moves opens (Secure s) w (Secure s', w')" for v len buf s' w'
    using tls_reads_keep [OF tls] by (auto intro!: stays)
  have writes: "moves opens (Secure s) w (Secure s', w')" if "tls_write net api bs s w = Some (n, s', w')" for bs n s' w'
    using tls_write_keeps [OF tls that] by (rule stays)
  show ?thesis
    using run stays
    by (cases m)
      (auto simp: vt_methods secure_connect_def secure_connected_def secure_available_def secure_read_def
        secure_read_buf_def secure_peek_def secure_write_def secure_write_byte_def secure_flush_def tls_flush_def
        secure_setNoDelay_def tls_set_no_delay_def tcp_set_no_delay_opens [OF net] secure_stop_def
        split: prod.splits option.splits intro: conn reads writes closes asks)
qed

lemma vt_call_moves:
  "handles_os net api opens \<Longrightarrow> owned (tr_handle tr) \<subseteq> opens w \<Longrightarrow> vt_call net api m tr w = Some res
     \<Longrightarrow> moves opens tr w res"
  by (cases tr) (auto simp: handles_os_def vt_call_moves_plain intro!: vt_call_moves_secure)

section \<open>A program with many objects\<close>

record 's net_program =
  pg_wifi :: "'s wifi"
  pg_servers :: "nat \<rightharpoonup> wifi_server"
  pg_udps :: "nat \<rightharpoonup> udp_socket"

definition program_start :: "'s net_program" where
  "program_start = \<lparr>pg_wifi = wifi_init, pg_servers = Map.empty, pg_udps = Map.empty\<rparr>"

datatype udp_call = UBegin u16 | UBeginPacket ip_address u16 | UWrite bytes | UEndPacket | UParsePacket | URead nat

definition wifi_udp_call :: "'w net_api \<Rightarrow> udp_call \<Rightarrow> udp_socket \<Rightarrow> 'w \<Rightarrow> udp_socket \<times> 'w" where
  "wifi_udp_call net c u w =
     (case c of
        UBegin port \<Rightarrow> snd (wifi_udp_begin net port u w)
      | UBeginPacket ip port \<Rightarrow> (snd (wifi_udp_beginPacket ip port u), w)
      | UWrite bs \<Rightarrow> (snd (wifi_udp_write bs u), w)
      | UEndPacket \<Rightarrow> snd (wifi_udp_endPacket net u w)
      | UParsePacket \<Rightarrow> snd (wifi_udp_parsePacket net u w)
      | URead len \<Rightarrow> (snd (snd (wifi_udp_read len u)), w))"

text \<open>
  What the program may do next. New objects get places that are free; a server and a datagram
  socket end with their destructors.
\<close>

inductive program_step ::
  "'w net_api \<Rightarrow> ('s, 'w) tls_api \<Rightarrow> 's net_program \<times> 'w \<Rightarrow> 's net_program \<times> 'w \<Rightarrow> bool" for net api where
  new_client: "clients (pg_wifi p) i = None \<Longrightarrow> tcp_store (pg_wifi p) q = None \<Longrightarrow>
     program_step net api (p, w) (p\<lparr>pg_wifi := client_new i q (pg_wifi p)\<rparr>, w)"
| new_secure: "clients (pg_wifi p) i = None \<Longrightarrow> tcp_store (pg_wifi p) q = None \<Longrightarrow> tls_store (pg_wifi p) r = None \<Longrightarrow>
     program_step net api (p, w) (p\<lparr>pg_wifi := secure_new api i q r (pg_wifi p)\<rparr>, w)"
| accepted: "clients (pg_wifi p) i = None \<Longrightarrow> tcp_store (pg_wifi p) q = None \<Longrightarrow> pg_servers p k = Some srv \<Longrightarrow>
     server_available net srv i q (pg_wifi p) w = (f, w') \<Longrightarrow> program_step net api (p, w) (p\<lparr>pg_wifi := f\<rparr>, w')"
| assigned: "client_assign net dst src (pg_wifi p) w = Some (f, w') \<Longrightarrow>
     program_step net api (p, w) (p\<lparr>pg_wifi := f\<rparr>, w')"
| assigned_secure: "secure_assign net api dst src (pg_wifi p) w = Some (f, w') \<Longrightarrow>
     program_step net api (p, w) (p\<lparr>pg_wifi := f\<rparr>, w')"
| copied: "clients (pg_wifi p) i = None \<Longrightarrow> client_copy i src (pg_wifi p) = Some f \<Longrightarrow>
     program_step net api (p, w) (p\<lparr>pg_wifi := f\<rparr>, w)"
| copied_secure: "clients (pg_wifi p) i = None \<Longrightarrow> secure_copy i src (pg_wifi p) = Some f \<Longrightarrow>
     program_step net api (p, w) (p\<lparr>pg_wifi := f\<rparr>, w)"
| destroyed: "client_destroy net api i (pg_wifi p) w = Some (f, w') \<Longrightarrow>
     program_step net api (p, w) (p\<lparr>pg_wifi := f\<rparr>, w')"
| insecure: "program_step net api (p, w) (p\<lparr>pg_wifi := set_insecure i (pg_wifi p)\<rparr>, w)"
| called: "transport_of i (pg_wifi p) = Some tr \<Longrightarrow> vt_call net api m tr w = Some (tr', w') \<Longrightarrow>
     program_step net api (p, w) (p\<lparr>pg_wifi := put_transport i tr' (pg_wifi p)\<rparr>, w')"
| new_server: "pg_servers p k = None \<Longrightarrow>
     program_step net api (p, w) (p\<lparr>pg_servers := (pg_servers p)(k \<mapsto> server_new port)\<rparr>, w)"
| begun: "pg_servers p k = Some srv \<Longrightarrow> server_begin net srv w = (srv', w') \<Longrightarrow>
     program_step net api (p, w) (p\<lparr>pg_servers := (pg_servers p)(k \<mapsto> srv')\<rparr>, w')"
| stopped: "pg_servers p k = Some srv \<Longrightarrow> server_stop net srv w = (srv', w') \<Longrightarrow>
     program_step net api (p, w) (p\<lparr>pg_servers := (pg_servers p)(k \<mapsto> srv')\<rparr>, w')"
| server_gone: "pg_servers p k = Some srv \<Longrightarrow> w' = lst_destroy net (srv_listener srv) w \<Longrightarrow>
     program_step net api (p, w) (p\<lparr>pg_servers := (pg_servers p)(k := None)\<rparr>, w')"
| new_udp: "pg_udps p k = None \<Longrightarrow>
     program_step net api (p, w) (p\<lparr>pg_udps := (pg_udps p)(k \<mapsto> udp_new)\<rparr>, w)"
| udp_called: "pg_udps p k = Some u \<Longrightarrow> wifi_udp_call net c u w = (u', w') \<Longrightarrow>
     program_step net api (p, w) (p\<lparr>pg_udps := (pg_udps p)(k \<mapsto> u')\<rparr>, w')"
| udp_gone: "pg_udps p k = Some u \<Longrightarrow> w' = udp_destroy net u w \<Longrightarrow>
     program_step net api (p, w) (p\<lparr>pg_udps := (pg_udps p)(k := None)\<rparr>, w')"

inductive program_reaches ::
  "'w net_api \<Rightarrow> ('s, 'w) tls_api \<Rightarrow> 'w \<Rightarrow> 's net_program \<times> 'w \<Rightarrow> bool" for net api w0 where
  start: "program_reaches net api w0 (program_start, w0)"
| step: "program_reaches net api w0 pw \<Longrightarrow> program_step net api pw pw' \<Longrightarrow> program_reaches net api w0 pw'"

section \<open>Who owns which descriptor\<close>

datatype owner = TcpObj nat | TlsObj nat | SrvObj nat | UdpObj nat

definition entry :: "('x \<Rightarrow> int) \<Rightarrow> 'x option \<Rightarrow> int set" where
  "entry h e = (case e of None \<Rightarrow> {} | Some x \<Rightarrow> owned (h x))"

lemma entry_simps [simp]: "entry h None = {}" "entry h (Some x) = owned (h x)"
  by (simp_all add: entry_def)

definition obj_handles :: "'s net_program \<Rightarrow> owner \<Rightarrow> int set" where
  "obj_handles p x =
     (case x of
        TcpObj q \<Rightarrow> entry (tcp_handle \<circ> snd) (tcp_store (pg_wifi p) q)
      | TlsObj q \<Rightarrow> entry (tls_handle \<circ> snd) (tls_store (pg_wifi p) q)
      | SrvObj k \<Rightarrow> entry (lst_handle \<circ> srv_listener) (pg_servers p k)
      | UdpObj k \<Rightarrow> entry udp_handle (pg_udps p k))"

text \<open>The open descriptors are \<open>rest\<close> and those of the objects, each owned once.\<close>

definition holds :: "('w \<Rightarrow> int set) \<Rightarrow> int set \<Rightarrow> (owner \<Rightarrow> int set) \<Rightarrow> 'w \<Rightarrow> bool" where
  "holds opens rest H w \<longleftrightarrow>
     opens w = rest \<union> (\<Union>x. H x) \<and> (\<forall>x. H x \<inter> rest = {}) \<and> (\<forall>x y. x \<noteq> y \<longrightarrow> H x \<inter> H y = {})"

definition passes :: "('w \<Rightarrow> int set) \<Rightarrow> int set \<Rightarrow> 'w \<Rightarrow> int set \<Rightarrow> 'w \<Rightarrow> bool" where
  "passes opens A w B w' \<longleftrightarrow> opens w' - B = opens w - A \<and> B \<subseteq> opens w'"

lemma passes_owned: "passes opens (owned h) w (owned h') w' \<longleftrightarrow> hands_over opens h w h' w'"
  by (simp add: passes_def hands_over_def)

lemma passes_closed: "hands_over opens h w kInvalid w' \<Longrightarrow> passes opens (owned h) w {} w'"
  by (simp add: passes_def hands_over_def)

lemma passes_nothing: "opens w' = opens w \<Longrightarrow> A \<subseteq> opens w \<Longrightarrow> passes opens A w A w'"
  by (simp add: passes_def)

lemma holds_sub: "holds opens rest H w \<Longrightarrow> H x \<subseteq> opens w"
  by (auto simp: holds_def)

lemma holds_moves:
  assumes "holds opens rest H w" and "passes opens (H x) w B w'"
  shows "holds opens rest (H(x := B)) w'"
proof -
  have new: "B \<inter> (opens w - H x) = {}" "opens w' = (opens w - H x) \<union> B"
    using assms(2) by (auto simp: passes_def)
  have apart: "\<And>y. H y \<inter> rest = {}" "\<And>y z. y \<noteq> z \<Longrightarrow> H y \<inter> H z = {}"
    and all: "opens w = rest \<union> (\<Union>y. H y)"
    using assms(1) by (simp_all add: holds_def)
  have others: "opens w - H x = rest \<union> (\<Union>y \<in> - {x}. H y)"
    unfolding all using apart(1) [of x] apart(2) [of _ x] by (auto simp: disjoint_iff)
  show ?thesis
    unfolding holds_def
  proof (intro conjI allI impI)
    show "opens w' = rest \<union> (\<Union>y. (H(x := B)) y)"
      using new(2) others by (auto split: if_splits)
    show "(H(x := B)) y \<inter> rest = {}" for y
      using new(1) others apart(1) [of y] by auto
    show "(H(x := B)) y \<inter> (H(x := B)) z = {}" if "y \<noteq> z" for y z
      using that new(1) others apart(2) [OF that] by auto
  qed
qed

text \<open>The same when one object of one kind is replaced, made or ended.\<close>

lemma holds_tcp:
  assumes "holds opens rest (obj_handles p) w"
    and "tcp_store f = (tcp_store (pg_wifi p))(q := e)" "tls_store f = tls_store (pg_wifi p)"
    and "passes opens (entry (tcp_handle \<circ> snd) (tcp_store (pg_wifi p) q)) w (entry (tcp_handle \<circ> snd) e) w'"
  shows "holds opens rest (obj_handles (p\<lparr>pg_wifi := f\<rparr>)) w'"
proof -
  have "obj_handles (p\<lparr>pg_wifi := f\<rparr>) = (obj_handles p)(TcpObj q := entry (tcp_handle \<circ> snd) e)"
    using assms(2,3) by (auto simp: fun_eq_iff obj_handles_def split: owner.split)
  with holds_moves [OF assms(1), of "TcpObj q"] assms(4) show ?thesis
    by (simp add: obj_handles_def)
qed

lemma holds_tls:
  assumes "holds opens rest (obj_handles p) w"
    and "tls_store f = (tls_store (pg_wifi p))(q := e)" "tcp_store f = tcp_store (pg_wifi p)"
    and "passes opens (entry (tls_handle \<circ> snd) (tls_store (pg_wifi p) q)) w (entry (tls_handle \<circ> snd) e) w'"
  shows "holds opens rest (obj_handles (p\<lparr>pg_wifi := f\<rparr>)) w'"
proof -
  have "obj_handles (p\<lparr>pg_wifi := f\<rparr>) = (obj_handles p)(TlsObj q := entry (tls_handle \<circ> snd) e)"
    using assms(2,3) by (auto simp: fun_eq_iff obj_handles_def split: owner.split)
  with holds_moves [OF assms(1), of "TlsObj q"] assms(4) show ?thesis
    by (simp add: obj_handles_def)
qed

lemma holds_srv:
  assumes "holds opens rest (obj_handles p) w"
    and "passes opens (entry (lst_handle \<circ> srv_listener) (pg_servers p k)) w (entry (lst_handle \<circ> srv_listener) e) w'"
  shows "holds opens rest (obj_handles (p\<lparr>pg_servers := (pg_servers p)(k := e)\<rparr>)) w'"
proof -
  have "obj_handles (p\<lparr>pg_servers := (pg_servers p)(k := e)\<rparr>)
      = (obj_handles p)(SrvObj k := entry (lst_handle \<circ> srv_listener) e)"
    by (auto simp: fun_eq_iff obj_handles_def split: owner.split)
  with holds_moves [OF assms(1), of "SrvObj k"] assms(2) show ?thesis
    by (simp add: obj_handles_def)
qed

lemma holds_udp:
  assumes "holds opens rest (obj_handles p) w"
    and "passes opens (entry udp_handle (pg_udps p k)) w (entry udp_handle e) w'"
  shows "holds opens rest (obj_handles (p\<lparr>pg_udps := (pg_udps p)(k := e)\<rparr>)) w'"
proof -
  have "obj_handles (p\<lparr>pg_udps := (pg_udps p)(k := e)\<rparr>) = (obj_handles p)(UdpObj k := entry udp_handle e)"
    by (auto simp: fun_eq_iff obj_handles_def split: owner.split)
  with holds_moves [OF assms(1), of "UdpObj k"] assms(2) show ?thesis
    by (simp add: obj_handles_def)
qed

lemma holds_subs:
  assumes "holds opens rest (obj_handles p) w"
  shows "entry (tcp_handle \<circ> snd) (tcp_store (pg_wifi p) q) \<subseteq> opens w"
    and "entry (tls_handle \<circ> snd) (tls_store (pg_wifi p) q) \<subseteq> opens w"
    and "entry (lst_handle \<circ> srv_listener) (pg_servers p k) \<subseteq> opens w"
    and "entry udp_handle (pg_udps p k) \<subseteq> opens w"
  using holds_sub [OF assms, of "TcpObj q"] holds_sub [OF assms, of "TlsObj q"]
    holds_sub [OF assms, of "SrvObj k"] holds_sub [OF assms, of "UdpObj k"]
  by (simp_all add: obj_handles_def)

text \<open>Releasing a pointer ends the object's descriptor exactly with the last owner.\<close>

lemma release_passes:
  assumes "\<And>x w. owned (h x) \<subseteq> opens w \<Longrightarrow> hands_over opens (h x) w kInvalid (destroy x w)"
    and "entry (h \<circ> snd) (st q) \<subseteq> opens w" and "release destroy q st w = (st', w')"
  shows "st' = st(q := st' q) \<and> passes opens (entry (h \<circ> snd) (st q)) w (entry (h \<circ> snd) (st' q)) w'"
proof (cases "st q")
  case None
  with assms(3) show ?thesis
    by (auto simp: release_def passes_def)
next
  case (Some nx)
  then obtain n x where nx: "st q = Some (n, x)"
    by (cases nx) auto
  with assms(1) [of x w] assms(2,3) show ?thesis
    by (auto simp: release_def passes_nothing passes_owned hands_over_def passes_def split: if_splits)
qed

lemma acquire_entries:
  "entry (h \<circ> snd) (acquire q st r) = entry (h \<circ> snd) (st r)"
  by (auto simp: acquire_def split: option.splits)

section \<open>Every step keeps the books\<close>

lemma tcp_destroy_hands_over:
  "handle_os net opens \<Longrightarrow> owned (tcp_handle s) \<subseteq> opens w \<Longrightarrow> hands_over opens (tcp_handle s) w kInvalid (tcp_destroy net s w)"
  using tcp_close_hands_over [of net opens s w, OF _ _ prod.collapse [symmetric]] by (simp add: tcp_destroy_def)

lemma tls_destroy_hands_over:
  "handles_os net api opens \<Longrightarrow> owned (tls_handle s) \<subseteq> opens w \<Longrightarrow> hands_over opens (tls_handle s) w kInvalid (tls_destroy net api s w)"
  using tls_close_hands_over [of net api opens s w, OF _ _ prod.collapse [symmetric]]
  by (metis tls_destroy_def)

lemma accepted_passes:
  assumes "handle_os net opens" and "server_available net srv i q f0 w = (f, w')"
  shows "\<exists>s. tcp_store f = (tcp_store f0)(q \<mapsto> (1, s)) \<and> tls_store f = tls_store f0
    \<and> passes opens {} w (owned (tcp_handle s)) w'"
proof -
  obtain tmp w1 where acc: "lst_accept net (srv_listener srv) w = (tmp, w1)"
    by (cases "lst_accept net (srv_listener srv) w")
  have "fresh_handle opens w (tcp_handle tmp, w1)"
    using lst_accept_fresh [OF assms(1) acc] by simp
  then have "passes opens {} w (owned (tcp_handle tmp)) w1"
    by (auto simp: fresh_handle_def passes_def)
  with acc assms(2) show ?thesis
    by (auto simp: server_available_def tcp_move_ctor_def client_from_socket_def make_shared_def tcp_destroy_def
        tcp_close_def tcp_is_open_def)
qed

lemma assigned_holds:
  assumes os: "handle_os net opens" and inv: "holds opens rest (obj_handles p) w"
    and run: "client_assign net dst src (pg_wifi p) w = Some (f, w')"
  shows "holds opens rest (obj_handles (p\<lparr>pg_wifi := f\<rparr>)) w'"
proof -
  obtain d s where ds: "clients (pg_wifi p) dst = Some d" "clients (pg_wifi p) src = Some s"
    using run by (auto simp: client_assign_def split: option.splits)
  let ?ts = "acquire (wc_socket s) (tcp_store (pg_wifi p))"
  obtain ts w1 where rel: "release (tcp_destroy net) (wc_socket d) ?ts w = (ts, w1)"
    by (cases "release (tcp_destroy net) (wc_socket d) ?ts w")
  define p1 where "p1 = p\<lparr>pg_wifi := (pg_wifi p)\<lparr>tcp_store := ?ts\<rparr>\<rparr>"
  have "obj_handles p1 = obj_handles p"
    by (auto simp: p1_def fun_eq_iff obj_handles_def acquire_entries split: owner.split)
  with inv have inv1: "holds opens rest (obj_handles p1) w"
    by simp
  have f: "tcp_store f = ts" "tls_store f = tls_store (pg_wifi p)" "w' = w1"
    using run ds rel by (auto simp: client_assign_def)
  have "ts = ?ts(wc_socket d := ts (wc_socket d))
      \<and> passes opens (entry (tcp_handle \<circ> snd) (?ts (wc_socket d))) w (entry (tcp_handle \<circ> snd) (ts (wc_socket d))) w1"
    using release_passes [OF _ _ rel, of tcp_handle opens] tcp_destroy_hands_over [OF os]
      holds_subs(1) [OF inv1, of "wc_socket d"] by (simp add: p1_def)
  then have "holds opens rest (obj_handles (p1\<lparr>pg_wifi := f\<rparr>)) w'"
    using holds_tcp [OF inv1, of f "wc_socket d" "ts (wc_socket d)" w'] f by (simp add: p1_def)
  then show ?thesis
    by (simp add: p1_def)
qed

lemma tls_assigned_holds:
  assumes os: "handles_os net api opens" and inv: "holds opens rest (obj_handles p) w"
    and run: "tls_assign net api dst q insecure (pg_wifi p) w = Some (f, w')"
  shows "holds opens rest (obj_handles (p\<lparr>pg_wifi := f\<rparr>)) w'"
proof -
  obtain d old ls where "clients (pg_wifi p) dst = Some d" "wc_tls d = Some old"
    and rel: "release (tls_destroy net api) old (acquire q (tls_store (pg_wifi p))) w = (ls, w')"
    and f: "f = (pg_wifi p)\<lparr>tls_store := ls, clients := (clients (pg_wifi p))(dst \<mapsto> d\<lparr>wc_tls := Some q, wc_insecure := insecure\<rparr>)\<rparr>"
    using run by (rule tls_assign_shape)
  let ?ls = "acquire q (tls_store (pg_wifi p))"
  define p1 where "p1 = p\<lparr>pg_wifi := (pg_wifi p)\<lparr>tls_store := ?ls\<rparr>\<rparr>"
  have "obj_handles p1 = obj_handles p"
    by (auto simp: p1_def fun_eq_iff obj_handles_def acquire_entries split: owner.split)
  with inv have inv1: "holds opens rest (obj_handles p1) w"
    by simp
  have "ls = ?ls(old := ls old)
      \<and> passes opens (entry (tls_handle \<circ> snd) (?ls old)) w (entry (tls_handle \<circ> snd) (ls old)) w'"
    using release_passes [OF _ _ rel, of tls_handle opens] tls_destroy_hands_over [OF os]
      holds_subs(2) [OF inv1, of old] by (simp add: p1_def)
  then have "holds opens rest (obj_handles (p1\<lparr>pg_wifi := f\<rparr>)) w'"
    using holds_tls [OF inv1, of f old "ls old" w'] f by (simp add: p1_def)
  then show ?thesis
    by (simp add: p1_def)
qed

lemma secure_assigned_holds:
  assumes os: "handles_os net api opens" and inv: "holds opens rest (obj_handles p) w"
    and run: "secure_assign net api dst src (pg_wifi p) w = Some (f, w')"
  shows "holds opens rest (obj_handles (p\<lparr>pg_wifi := f\<rparr>)) w'"
proof -
  obtain s :: wifi_client and q f1 w1 where one: "client_assign net dst src (pg_wifi p) w = Some (f1, w1)"
    and two: "tls_assign net api dst q (wc_insecure s) f1 w1 = Some (f, w')"
    using run by (rule secure_assign_shape)
  have "handle_os net opens"
    using os by (simp add: handles_os_def)
  from tls_assigned_holds [OF os assigned_holds [OF this inv one], of dst q "wc_insecure s" f w'] two show ?thesis
    by simp
qed

lemma copied_holds:
  assumes "holds opens rest (obj_handles p) w"
  shows "client_copy i src (pg_wifi p) = Some f \<Longrightarrow> holds opens rest (obj_handles (p\<lparr>pg_wifi := f\<rparr>)) w"
    and "secure_copy i src (pg_wifi p) = Some f \<Longrightarrow> holds opens rest (obj_handles (p\<lparr>pg_wifi := f\<rparr>)) w"
proof -
  have "obj_handles (p\<lparr>pg_wifi := f\<rparr>) = obj_handles p"
    if "client_copy i src (pg_wifi p) = Some f \<or> secure_copy i src (pg_wifi p) = Some f"
    using that by (auto simp: client_copy_def secure_copy_def fun_eq_iff obj_handles_def acquire_entries
        split: option.splits owner.split)
  then show "client_copy i src (pg_wifi p) = Some f \<Longrightarrow> holds opens rest (obj_handles (p\<lparr>pg_wifi := f\<rparr>)) w"
    and "secure_copy i src (pg_wifi p) = Some f \<Longrightarrow> holds opens rest (obj_handles (p\<lparr>pg_wifi := f\<rparr>)) w"
    using assms by simp_all
qed

lemma destroyed_holds:
  assumes os: "handles_os net api opens" and inv: "holds opens rest (obj_handles p) w"
    and run: "client_destroy net api i (pg_wifi p) w = Some (f, w')"
  shows "holds opens rest (obj_handles (p\<lparr>pg_wifi := f\<rparr>)) w'"
proof -
  have net: "handle_os net opens"
    using os by (simp add: handles_os_def)
  obtain c where c: "clients (pg_wifi p) i = Some c"
    using run by (auto simp: client_destroy_def split: option.splits)
  obtain ls w1 where first: "(case wc_tls c of None \<Rightarrow> (tls_store (pg_wifi p), w)
      | Some q \<Rightarrow> release (tls_destroy net api) q (tls_store (pg_wifi p)) w) = (ls, w1)"
    by (metis surj_pair)
  define p1 where "p1 = p\<lparr>pg_wifi := (pg_wifi p)\<lparr>tls_store := ls\<rparr>\<rparr>"
  have inv1: "holds opens rest (obj_handles p1) w1"
  proof (cases "wc_tls c")
    case None
    with first inv show ?thesis
      by (auto simp: p1_def)
  next
    case (Some q)
    then have rel: "release (tls_destroy net api) q (tls_store (pg_wifi p)) w = (ls, w1)"
      using first by simp
    have "ls = (tls_store (pg_wifi p))(q := ls q)
        \<and> passes opens (entry (tls_handle \<circ> snd) (tls_store (pg_wifi p) q)) w (entry (tls_handle \<circ> snd) (ls q)) w1"
      using release_passes [OF _ _ rel, of tls_handle opens] tls_destroy_hands_over [OF os]
        holds_subs(2) [OF inv, of q] by simp
    then show ?thesis
      using holds_tls [OF inv, of "(pg_wifi p)\<lparr>tls_store := ls\<rparr>" q "ls q" w1] by (simp add: p1_def)
  qed
  obtain ts w2 where rel: "release (tcp_destroy net) (wc_socket c) (tcp_store (pg_wifi p)) w1 = (ts, w2)"
    by (cases "release (tcp_destroy net) (wc_socket c) (tcp_store (pg_wifi p)) w1")
  have f: "tcp_store f = ts" "tls_store f = ls" "w' = w2"
    using run c first rel by (auto simp: client_destroy_def)
  have "ts = (tcp_store (pg_wifi p))(wc_socket c := ts (wc_socket c))
      \<and> passes opens (entry (tcp_handle \<circ> snd) (tcp_store (pg_wifi p) (wc_socket c))) w1
          (entry (tcp_handle \<circ> snd) (ts (wc_socket c))) w2"
    using release_passes [OF _ _ rel, of tcp_handle opens] tcp_destroy_hands_over [OF net]
      holds_subs(1) [OF inv1, of "wc_socket c"] by (simp add: p1_def)
  then have "holds opens rest (obj_handles (p1\<lparr>pg_wifi := f\<rparr>)) w'"
    using holds_tcp [OF inv1, of f "wc_socket c" "ts (wc_socket c)" w'] f by (simp add: p1_def)
  then show ?thesis
    by (simp add: p1_def)
qed

lemma called_holds:
  assumes os: "handles_os net api opens" and inv: "holds opens rest (obj_handles p) w"
    and tr: "transport_of i (pg_wifi p) = Some tr" and run: "vt_call net api m tr w = Some (tr', w')"
  shows "holds opens rest (obj_handles (p\<lparr>pg_wifi := put_transport i tr' (pg_wifi p)\<rparr>)) w'"
proof -
  obtain c where c: "clients (pg_wifi p) i = Some c"
    using tr by (auto simp: transport_of_def split: option.splits)
  show ?thesis
  proof (cases "wc_tls c")
    case None
    with tr c obtain n s where s: "tcp_store (pg_wifi p) (wc_socket c) = Some (n, s)" "tr = Plain s"
      by (auto simp: transport_of_def)
    have "moves opens tr w (tr', w')"
      using vt_call_moves [OF os _ run] holds_subs(1) [OF inv, of "wc_socket c"] s by simp
    with s obtain s' where s': "tr' = Plain s'" "hands_over opens (tcp_handle s) w (tcp_handle s') w'"
      by (cases tr') (auto simp: moves_def)
    show ?thesis
      by (rule holds_tcp [OF inv, of _ "wc_socket c" "Some (n, s')"])
        (use c None s s' in \<open>simp_all add: put_transport_def update_shared_def passes_owned\<close>)
  next
    case (Some q)
    with tr c obtain n s where s: "tls_store (pg_wifi p) q = Some (n, s)" "tr = Secure s"
      by (auto simp: transport_of_def)
    have "moves opens tr w (tr', w')"
      using vt_call_moves [OF os _ run] holds_subs(2) [OF inv, of q] s by simp
    with s obtain s' where s': "tr' = Secure s'" "hands_over opens (tls_handle s) w (tls_handle s') w'"
      by (cases tr') (auto simp: moves_def)
    show ?thesis
      by (rule holds_tls [OF inv, of _ q "Some (n, s')"])
        (use c Some s s' in \<open>simp_all add: put_transport_def update_shared_def passes_owned\<close>)
  qed
qed

lemma wifi_udp_call_hands_over:
  assumes net: "handle_os net opens" and own: "owned (udp_handle u) \<subseteq> opens w"
    and run: "wifi_udp_call net c u w = (u', w')"
  shows "hands_over opens (udp_handle u) w (udp_handle u') w'"
proof -
  have begins: "hands_over opens (udp_handle u) w (udp_handle u') w'" if "udp_begin net port u w = (b, u', w')" for port b
    using udp_begin_hands_over [OF net own that] by simp
  have stays: "hands_over opens (udp_handle u) w (udp_handle u') w'" if "opens w' = opens w \<and> udp_handle u' = udp_handle u"
    using that own by (simp add: hands_over_def)
  have sends: "hands_over opens (udp_handle u) w (udp_handle u') w'" if "udp_end_packet net u w = (b, u', w')" for b
    using udp_end_packet_opens [OF net that] by (rule stays)
  have parses: "hands_over opens (udp_handle u) w (udp_handle u') w'" if "udp_parse_packet net u w = (n, u', w')" for n
    using udp_parse_packet_opens [OF net that] by (rule stays)
  show ?thesis
  proof (cases c)
    case (UBegin port)
    with run show ?thesis
      by (cases "udp_begin net port u w") (auto simp: wifi_udp_call_def wifi_udp_begin_def intro: begins)
  next
    case UEndPacket
    with run show ?thesis
      by (cases "udp_end_packet net u w") (auto simp: wifi_udp_call_def wifi_udp_endPacket_def intro: sends)
  next
    case UParsePacket
    with run show ?thesis
      by (cases "udp_parse_packet net u w") (auto simp: wifi_udp_call_def wifi_udp_parsePacket_def intro: parses)
  qed (use run stays in \<open>auto simp: wifi_udp_call_def wifi_udp_beginPacket_def udp_begin_packet_def wifi_udp_write_def
      udp_write_def wifi_udp_read_def udp_read_def Let_def\<close>)
qed

lemma program_step_holds:
  assumes os: "handles_os net api opens" and "program_step net api (p, w) (p', w')"
    and inv: "holds opens rest (obj_handles p) w"
  shows "holds opens rest (obj_handles p') w'"
proof -
  have net: "handle_os net opens"
    using os by (simp add: handles_os_def)
  note subs = holds_subs [OF inv]
  from assms(2) show ?thesis
  proof cases
    case (new_client i q)
    then show ?thesis
      using holds_tcp [OF inv, of "client_new i q (pg_wifi p)" q "Some (1, tcp_new)" w']
      by (simp add: client_new_def client_from_socket_def make_shared_def tcp_new_def passes_def kInvalid_def)
  next
    case (new_secure i q r)
    define p1 where "p1 = p\<lparr>pg_wifi := client_new i q (pg_wifi p)\<rparr>"
    have "holds opens rest (obj_handles p1) w"
      using new_secure holds_tcp [OF inv, of "client_new i q (pg_wifi p)" q "Some (1, tcp_new)" w]
      by (simp add: p1_def client_new_def client_from_socket_def make_shared_def tcp_new_def passes_def kInvalid_def)
    from holds_tls [OF this, of "secure_new api i q r (pg_wifi p)" r "Some (1, tls_new api)" w'] new_secure show ?thesis
      by (simp add: p1_def secure_new_def client_new_def client_from_socket_def make_shared_def tls_new_def tcp_new_def
          passes_def kInvalid_def)
  next
    case (accepted i q k srv f)
    then obtain s where "tcp_store f = (tcp_store (pg_wifi p))(q \<mapsto> (1, s))" "tls_store f = tls_store (pg_wifi p)"
      "passes opens {} w (owned (tcp_handle s)) w'"
      using accepted_passes [OF net accepted(5)] by blast
    with accepted holds_tcp [OF inv, of f q "Some (1, s)" w'] show ?thesis
      by simp
  next
    case (insecure i)
    then have "obj_handles p' = obj_handles p"
      by (auto simp: fun_eq_iff obj_handles_def set_insecure_def split: owner.split option.split)
    with inv insecure show ?thesis
      by simp
  next
    case (new_server k port)
    then show ?thesis
      using holds_srv [OF inv, of k "Some (server_new port)" w'] by (simp add: server_new_def lst_new_def passes_def)
  next
    case (begun k srv srv')
    then obtain b l where "lst_listen net (srv_port srv) (srv_listener srv) w = (b, l, w')" "srv' = srv\<lparr>srv_listener := l\<rparr>"
      by (auto simp: server_begin_def split: prod.splits)
    with begun lst_listen_hands_over [OF net _ this(1)] subs(3) [of k] holds_srv [OF inv, of k "Some srv'" w'] show ?thesis
      by (simp add: passes_owned)
  next
    case (stopped k srv srv')
    then obtain l where "lst_close net (srv_listener srv) w = (l, w')" "srv' = srv\<lparr>srv_listener := l\<rparr>"
      by (auto simp: server_stop_def split: prod.splits)
    with stopped lst_close_hands_over [OF net _ this(1)] subs(3) [of k] holds_srv [OF inv, of k "Some srv'" w'] show ?thesis
      by (auto intro: passes_closed)
  next
    case (server_gone k srv)
    then have "hands_over opens (lst_handle (srv_listener srv)) w kInvalid w'"
      using lst_close_hands_over [OF net _ prod.collapse [symmetric], of "srv_listener srv" w] subs(3) [of k]
      by (simp add: lst_destroy_def)
    with server_gone holds_srv [OF inv, of k None w'] show ?thesis
      by (simp add: passes_closed)
  next
    case (new_udp k)
    then show ?thesis
      using holds_udp [OF inv, of k "Some udp_new" w'] by (simp add: udp_new_def passes_def)
  next
    case (udp_called k u c u')
    with wifi_udp_call_hands_over [OF net _ udp_called(3)] subs(4) [of k] holds_udp [OF inv, of k "Some u'" w'] show ?thesis
      by (simp add: passes_owned)
  next
    case (udp_gone k u)
    then have "hands_over opens (udp_handle u) w kInvalid w'"
      using udp_close_hands_over [OF net _ prod.collapse [symmetric], of u w] subs(4) [of k]
      by (simp add: udp_destroy_def)
    with udp_gone holds_udp [OF inv, of k None w'] show ?thesis
      by (simp add: passes_closed)
  qed (use assigned_holds [OF net inv] secure_assigned_holds [OF os inv] copied_holds [OF inv] destroyed_holds [OF os inv] called_holds [OF os inv] in auto)
qed

lemma program_step_wifi:
  assumes "handles_os net api opens" and "program_step net api (p, w) (p', w')"
    and "wifi_inv (pg_wifi p)" and "holds opens rest (obj_handles p) w"
  shows "wifi_inv (pg_wifi p')"
  using assms(2)
proof cases
  case (called i tr m tr')
  then obtain c where c: "clients (pg_wifi p) i = Some c"
    by (auto simp: transport_of_def split: option.splits)
  have "owned (tr_handle tr) \<subseteq> opens w"
    using called(2) c holds_subs(1) [OF assms(4), of "wc_socket c"] holds_subs(2) [OF assms(4), of "the (wc_tls c)"]
    by (auto simp: transport_of_def split: option.splits)
  then have "same_kind tr tr'"
    using vt_call_moves [OF assms(1) _ called(3)] by (simp add: moves_def)
  from wifi_step_inv [OF wifi_step.call [OF called(2) this] assms(3)] called(1) show ?thesis
    by simp
next
  case (new_client i q)
  from wifi_step_inv [OF wifi_step.construct [OF new_client(3,4)] assms(3)] new_client(1) show ?thesis
    by simp
next
  case (new_secure i q r)
  from wifi_step_inv [OF wifi_step.construct_secure [OF new_secure(3-5)] assms(3)] new_secure(1) show ?thesis
    by simp
next
  case (accepted i q k srv f)
  from wifi_step_inv [OF wifi_step.accept [OF accepted(2,3,5)] assms(3)] accepted(1) show ?thesis
    by simp
next
  case (assigned dst src f)
  from wifi_step_inv [OF wifi_step.assign [OF assigned(2)] assms(3)] assigned(1) show ?thesis
    by simp
next
  case (assigned_secure dst src f)
  from wifi_step_inv [OF wifi_step.assign_secure [OF assigned_secure(2)] assms(3)] assigned_secure(1) show ?thesis
    by simp
next
  case (copied i src f)
  from wifi_step_inv [OF wifi_step.copy [OF copied(3,4)] assms(3)] copied(1) show ?thesis
    by simp
next
  case (copied_secure i src f)
  from wifi_step_inv [OF wifi_step.copy_secure [OF copied_secure(3,4)] assms(3)] copied_secure(1) show ?thesis
    by simp
next
  case (destroyed i f)
  from wifi_step_inv [OF wifi_step.destroy [OF destroyed(2)] assms(3)] destroyed(1) show ?thesis
    by simp
qed (use assms(3) set_insecure_inv in simp_all)

lemma program_reaches_ok:
  assumes "handles_os net api opens" and "program_reaches net api w0 pw"
  shows "wifi_inv (pg_wifi (fst pw)) \<and> holds opens (opens w0) (obj_handles (fst pw)) (snd pw)"
  using assms(2)
proof induction
  case start
  show ?case
    by (auto simp: program_start_def wifi_inv_def wifi_init_def exact_def socket_owners_def tls_owners_def
        holds_def obj_handles_def split: owner.splits)
next
  case (step pw pw')
  then show ?case
    using program_step_wifi [OF assms(1)] program_step_holds [OF assms(1)] by (cases pw; cases pw') auto
qed

section \<open>Property\<close>

text \<open>What keeps an object alive.\<close>

definition in_use :: "'s net_program \<Rightarrow> owner \<Rightarrow> bool" where
  "in_use p x =
     (case x of
        TcpObj q \<Rightarrow> \<exists>i c. clients (pg_wifi p) i = Some c \<and> wc_socket c = q
      | TlsObj q \<Rightarrow> \<exists>i c. clients (pg_wifi p) i = Some c \<and> wc_tls c = Some q
      | SrvObj k \<Rightarrow> pg_servers p k \<noteq> None
      | UdpObj k \<Rightarrow> pg_udps p k \<noteq> None)"

lemma handles_in_use:
  assumes "wifi_inv (pg_wifi p)" and "obj_handles p x \<noteq> {}"
  shows "in_use p x"
proof (cases x)
  case (TcpObj q)
  then have "socket_owners (clients (pg_wifi p)) q \<noteq> {}"
    using assms exact_none by (fastforce simp: wifi_inv_def obj_handles_def entry_def exact_def exact_entry_def split: option.splits)
  with TcpObj show ?thesis
    by (auto simp: in_use_def socket_owners_def)
next
  case (TlsObj q)
  then have "tls_owners (clients (pg_wifi p)) q \<noteq> {}"
    using assms exact_none by (fastforce simp: wifi_inv_def obj_handles_def entry_def exact_def exact_entry_def split: option.splits)
  with TlsObj show ?thesis
    by (auto simp: in_use_def tls_owners_def)
qed (use assms(2) in \<open>auto simp: in_use_def obj_handles_def\<close>)

text \<open>
  C18: a program with any number of plain and secure clients that share sockets, servers and datagram
  sockets leaks no descriptor. Whatever it constructs, connects, accepts, copies, stops and
  destroys, failures included, the descriptors open beyond those of the rest of the process belong
  each to exactly one object, and to one that a live client, server or datagram socket still uses;
  none of the rest is closed. With the last object gone none is left.
\<close>

theorem network_objects_own_their_descriptors:
  assumes "handles_os net api opens" and "program_reaches net api w0 (p, w)"
  shows "opens w0 \<subseteq> opens w
    \<and> (\<forall>fd \<in> opens w - opens w0. \<exists>!x. fd \<in> obj_handles p x)
    \<and> (\<forall>x. obj_handles p x \<subseteq> opens w - opens w0 \<and> (obj_handles p x \<noteq> {} \<longrightarrow> in_use p x))
    \<and> (clients (pg_wifi p) = Map.empty \<and> pg_servers p = Map.empty \<and> pg_udps p = Map.empty \<longrightarrow> opens w = opens w0)"
proof -
  have inv: "wifi_inv (pg_wifi p)" and "holds opens (opens w0) (obj_handles p) w"
    using program_reaches_ok [OF assms] by simp_all
  then have all: "opens w = opens w0 \<union> (\<Union>x. obj_handles p x)"
    and apart: "\<And>x. obj_handles p x \<inter> opens w0 = {}" "\<And>x y. x \<noteq> y \<Longrightarrow> obj_handles p x \<inter> obj_handles p y = {}"
    by (simp_all add: holds_def)
  have "\<exists>!x. fd \<in> obj_handles p x" if fd: "fd \<in> opens w - opens w0" for fd
  proof -
    obtain x where "fd \<in> obj_handles p x"
      using fd all by auto
    with apart(2) show ?thesis
      by (metis disjoint_iff)
  qed
  moreover have "obj_handles p x \<subseteq> opens w - opens w0" for x
    using all apart(1) [of x] by auto
  moreover have "opens w = opens w0"
    if "clients (pg_wifi p) = Map.empty" "pg_servers p = Map.empty" "pg_udps p = Map.empty"
  proof -
    have "\<not> in_use p x" for x
      using that by (simp add: in_use_def split: owner.split)
    with handles_in_use [OF inv] all show ?thesis
      by auto
  qed
  ultimately show ?thesis
    using all handles_in_use [OF inv] by auto
qed

lemma loop_tls_handles: "handles_os loop_os loop_tls lw_fds"
  by (simp add: handles_os_def loop_handles tls_handle_os_def) (simp add: loop_tls_def split: if_splits)

text \<open>
  Client 0 connects, client 1 is assigned from it, client 0 is destroyed: the connection stays open,
  and it is client 1 that keeps it.
\<close>

definition dialled :: "bytes wifi \<times> loop_world" where
  "dialled =
     (let f = client_new 0 0 wifi_init;
          (tr, w) = the (vt_call loop_os loop_tls (Connect (Some ''127.0.0.1'') 23) (Plain tcp_new) loop_start)
      in (client_new 1 1 (put_transport 0 tr f), w))"

definition handed_on :: "bytes wifi \<times> loop_world" where
  "handed_on =
     (let (f, w) = dialled; (f1, w1) = the (client_assign loop_os 1 0 f w)
      in the (client_destroy loop_os loop_tls 0 f1 w1))"

lemmas loop_call = vt_call_def vt_connect_def client_connect_def tcp_connect_def tcp_close_def tcp_new_def
  tcp_is_open_def resolve_ipv4_def kInvalid_def loop_os_def loop_start_def loop_fresh_def cstr_or_empty_def c_view_def

lemmas loop_clients = client_new_def client_from_socket_def make_shared_def wifi_init_def put_transport_def update_shared_def
  transport_of_def client_assign_def client_destroy_def acquire_def release_def tcp_destroy_def

lemma handed_on_reached:
  "program_reaches loop_os loop_tls loop_start (program_start\<lparr>pg_wifi := fst handed_on\<rparr>, snd handed_on)
     \<and> clients (fst handed_on) 0 = None \<and> lw_fds (snd handed_on) = {0, 1, 2, 3}"
proof -
  let ?p = "\<lambda>f. program_start\<lparr>pg_wifi := f\<rparr>"
  let ?conn = "\<lparr>tcp_handle = 3, tcp_peeked = - 1\<rparr>"
  obtain w where call: "vt_call loop_os loop_tls (Connect (Some ''127.0.0.1'') 23) (Plain tcp_new) loop_start
      = Some (Plain ?conn, w)" and w: "lw_fds w = {0, 1, 2, 3}"
    by (auto simp: loop_call)
  let ?f1 = "client_new 0 0 wifi_init :: bytes wifi" and ?f2 = "client_new 1 1 (put_transport 0 (Plain ?conn) (client_new 0 0 wifi_init)) :: bytes wifi"
  obtain f3 where f3: "client_assign loop_os 1 0 ?f2 w = Some (f3, w)"
    "clients f3 0 \<noteq> None" "tcp_store f3 0 = Some (2, ?conn)" "\<forall>c. clients f3 0 = Some c \<longrightarrow> wc_socket c = 0 \<and> wc_tls c = None"
    by (auto simp: loop_clients tcp_close_def tcp_new_def tcp_is_open_def kInvalid_def)
  obtain f4 where f4: "client_destroy loop_os loop_tls 0 f3 w = Some (f4, w)" "clients f4 0 = None"
    using f3(2-4) by (auto simp: client_destroy_def release_def)
  have f0: "pg_wifi program_start = wifi_init" "?p wifi_init = program_start"
    by (simp_all add: program_start_def)
  have "program_reaches loop_os loop_tls loop_start (?p ?f1, loop_start)"
    using program_reaches.step [OF program_reaches.start program_step.new_client, of 0 0] by (simp add: f0 wifi_init_def)
  then have "program_reaches loop_os loop_tls loop_start (?p (put_transport 0 (Plain ?conn) ?f1), w)"
    using program_reaches.step [OF _ program_step.called [of 0 "?p ?f1" "Plain tcp_new", OF _ call]]
    by (simp add: transport_of_def client_new_def client_from_socket_def make_shared_def)
  then have "program_reaches loop_os loop_tls loop_start (?p ?f2, w)"
    using program_reaches.step [OF _ program_step.new_client [of "?p (put_transport 0 (Plain ?conn) ?f1)" 1 1]]
    by (simp add: loop_clients)
  then have "program_reaches loop_os loop_tls loop_start (?p f3, w)"
    using program_reaches.step [OF _ program_step.assigned [of loop_os 1 0 "?p ?f2" w f3 w]] f3(1) by simp
  then have "program_reaches loop_os loop_tls loop_start (?p f4, w)"
    using program_reaches.step [OF _ program_step.destroyed [of loop_os loop_tls 0 "?p f3" w f4 w]] f4(1) by simp
  moreover have "handed_on = (f4, w)"
    using f3(1) f4(1) by (simp add: handed_on_def dialled_def call)
  ultimately show ?thesis
    using f4(2) w by (metis fst_conv snd_conv)
qed

theorem network_objects_own_their_descriptors_witness:
  "\<exists>x. 3 \<in> obj_handles (program_start\<lparr>pg_wifi := fst handed_on\<rparr>) x
     \<and> in_use (program_start\<lparr>pg_wifi := fst handed_on\<rparr>) x \<and> clients (fst handed_on) 0 = None"
proof -
  have run: "program_reaches loop_os loop_tls loop_start (program_start\<lparr>pg_wifi := fst handed_on\<rparr>, snd handed_on)"
    and "3 \<in> lw_fds (snd handed_on) - lw_fds loop_start" and gone: "clients (fst handed_on) 0 = None"
    using handed_on_reached by (simp_all add: loop_start_def)
  with network_objects_own_their_descriptors [OF loop_tls_handles run] show ?thesis
    by blast
qed

end
