(* ===== verification/WiFiServe.thy ===== *)
theory WiFiServe
  imports WiFi "HOL-Library.Sublist"
begin

text \<open>
  A \<open>WiFiServer\<close> that listens, and the peers that connect to it: which peer a client object that
  \<open>available()\<close> returned talks to. Peers wait in the listen queue of the system, the \<open>backlog\<close>.
\<close>

section \<open>What the system promises\<close>

text \<open>
  \<open>peer w d\<close> is the connection that the descriptor \<open>d\<close> stands for. \<open>select\<close> says whether a
  connection waits; \<open>accept\<close> takes the first and gives it a descriptor that stood for none, or
  fails, when the connection may be lost (\<open>ECONNABORTED\<close>) or stay (\<open>EMFILE\<close>).
\<close>

definition accept_os ::
  "'w net_api \<Rightarrow> int \<Rightarrow> ('w \<Rightarrow> 'c list) \<Rightarrow> ('w \<Rightarrow> int \<rightharpoonup> 'c) \<Rightarrow> ('c \<Rightarrow> 'w \<Rightarrow> 'w) \<Rightarrow> bool" where
  "accept_os net fd backlog peer arrive \<longleftrightarrow>
     (\<forall>w. 0 < os_select net fd w \<longleftrightarrow> backlog w \<noteq> []) \<and>
     (\<forall>w d w1. backlog w \<noteq> [] \<and> os_accept net fd w = (d, w1) \<longrightarrow>
        (if d = kInvalid then (backlog w1 = backlog w \<or> backlog w1 = tl (backlog w)) \<and> peer w1 = peer w
         else peer w d = None \<and> backlog w1 = tl (backlog w) \<and> peer w1 = (peer w)(d \<mapsto> hd (backlog w)))) \<and>
     (\<forall>d w. backlog (os_set_non_blocking net d w) = backlog w \<and> peer (os_set_non_blocking net d w) = peer w) \<and>
     (\<forall>c w. backlog (arrive c w) = backlog w @ [c] \<and> peer (arrive c w) = peer w)"

lemma accept_laws:
  assumes "accept_os net fd backlog peer arrive"
  shows "0 < os_select net fd w \<longleftrightarrow> backlog w \<noteq> []"
    and "backlog w \<noteq> [] \<Longrightarrow> os_accept net fd w = (d, w1) \<Longrightarrow>
        (if d = kInvalid then (backlog w1 = backlog w \<or> backlog w1 = tl (backlog w)) \<and> peer w1 = peer w
         else peer w d = None \<and> backlog w1 = tl (backlog w) \<and> peer w1 = (peer w)(d \<mapsto> hd (backlog w)))"
    and "backlog (os_set_non_blocking net d w) = backlog w" and "peer (os_set_non_blocking net d w) = peer w"
    and "backlog (arrive c w) = backlog w @ [c]" and "peer (arrive c w) = peer w"
  using assms unfolding accept_os_def by metis+

section \<open>Serving\<close>

text \<open>
  A peer connects, or the program calls \<open>available()\<close> and keeps the client in the places given.
  The last component counts the calls at which a connection waited and \<open>accept\<close> failed.
\<close>

datatype 'c serve_op = Arrive 'c | TakeClient nat nat

definition client_open :: "nat \<Rightarrow> 's wifi \<Rightarrow> bool" where
  "client_open i f = (case transport_of i f of Some (Plain s) \<Rightarrow> tcp_is_open s | _ \<Rightarrow> False)"

definition serve_step ::
  "'w net_api \<Rightarrow> ('c \<Rightarrow> 'w \<Rightarrow> 'w) \<Rightarrow> wifi_server \<Rightarrow> 'c serve_op \<Rightarrow> 's wifi \<times> 'w \<Rightarrow> ('s wifi \<times> 'w) \<times> nat" where
  "serve_step net arrive srv opr st =
     (let (f, w) = st in
      case opr of
        Arrive c \<Rightarrow> ((f, arrive c w), 0)
      | TakeClient i q \<Rightarrow>
          let st1 = server_available net srv i q f w
          in (st1, if server_hasClient net srv w \<and> \<not> client_open i (fst st1) then 1 else 0))"

primrec serve_run ::
  "'w net_api \<Rightarrow> ('c \<Rightarrow> 'w \<Rightarrow> 'w) \<Rightarrow> wifi_server \<Rightarrow> 'c serve_op list \<Rightarrow> 's wifi \<times> 'w \<Rightarrow> ('s wifi \<times> 'w) \<times> nat" where
  "serve_run net arrive srv [] st = (st, 0)"
| "serve_run net arrive srv (opr # oprs) st =
     (let (st1, n) = serve_step net arrive srv opr st; (st2, m) = serve_run net arrive srv oprs st1
      in (st2, n + m))"

definition arrived :: "'c serve_op list \<Rightarrow> 'c list" where
  "arrived oprs = List.map_filter (\<lambda>opr. case opr of Arrive c \<Rightarrow> Some c | TakeClient i q \<Rightarrow> None) oprs"

definition taken :: "'c serve_op list \<Rightarrow> (nat \<times> nat) list" where
  "taken oprs = List.map_filter (\<lambda>opr. case opr of Arrive c \<Rightarrow> None | TakeClient i q \<Rightarrow> Some (i, q)) oprs"

text \<open>The peer that a client object talks to.\<close>

definition talks_to :: "('w \<Rightarrow> int \<rightharpoonup> 'c) \<Rightarrow> 's wifi \<times> 'w \<Rightarrow> nat \<Rightarrow> 'c option" where
  "talks_to peer st i =
     (case transport_of i (fst st) of
        Some (Plain s) \<Rightarrow> if tcp_is_open s then peer (snd st) (tcp_handle s) else None
      | _ \<Rightarrow> None)"

definition served :: "('w \<Rightarrow> int \<rightharpoonup> 'c) \<Rightarrow> 's wifi \<times> 'w \<Rightarrow> (nat \<times> nat) list \<Rightarrow> 'c list" where
  "served peer st ps = List.map_filter (\<lambda>(i, q). talks_to peer st i) ps"

lemma serving_simps [simp]:
  "arrived [] = []" "arrived (Arrive c # oprs) = c # arrived oprs" "arrived (TakeClient i q # oprs) = arrived oprs"
  "taken [] = []" "taken (Arrive c # oprs) = taken oprs" "taken (TakeClient i q # oprs) = (i, q) # taken oprs"
  "served peer st [] = []" "served peer st (ps @ ps') = served peer st ps @ served peer st ps'"
  by (simp_all add: arrived_def taken_def served_def List.map_filter_def)

section \<open>What is kept\<close>

text \<open>The clients in places \<open>ps\<close>: each has its own socket object, closed or connected.\<close>

definition settled :: "('w \<Rightarrow> int \<rightharpoonup> 'c) \<Rightarrow> 's wifi \<times> 'w \<Rightarrow> (nat \<times> nat) list \<Rightarrow> bool" where
  "settled peer st ps \<longleftrightarrow>
     (\<forall>(i, q) \<in> set ps. \<exists>c n s. clients (fst st) i = Some c \<and> wc_socket c = q \<and> wc_tls c = None
        \<and> tcp_store (fst st) q = Some (n, s) \<and> (tcp_is_open s \<longrightarrow> peer (snd st) (tcp_handle s) \<noteq> None))"

lemma talks_to_same_peer: "peer w' = peer w \<Longrightarrow> talks_to peer (f, w') i = talks_to peer (f, w) i"
  by (simp add: talks_to_def split: option.split transport.split)

lemma map_filter_same: "(\<And>x. x \<in> set xs \<Longrightarrow> g x = h x) \<Longrightarrow> List.map_filter g xs = List.map_filter h xs"
  by (induction xs) (simp_all add: List.map_filter_def)

text \<open>A new client in places of its own changes nothing for the others.\<close>

lemma others_kept:
  assumes "settled peer (f, w) ps" and "i \<notin> fst ` set ps" and "q \<notin> snd ` set ps" and "peer w \<subseteq>\<^sub>m peer w'"
  shows "settled peer (client_from_socket i q s f, w') ps"
    and "served peer (client_from_socket i q s f, w') ps = served peer (f, w) ps"
proof -
  let ?f = "client_from_socket i q s f"
  have same: "clients ?f j = clients f j \<and> tcp_store ?f r = tcp_store f r" if "(j, r) \<in> set ps" for j r
    using that assms(2,3) by (force simp: client_from_socket_def make_shared_def)
  have peers: "peer w' d = peer w d" if "peer w d \<noteq> None" for d
    using assms(4) that by (metis domIff map_le_def)
  show "settled peer (?f, w') ps"
    using assms(1) same peers by (fastforce simp: settled_def)
  have "talks_to peer (?f, w') j = talks_to peer (f, w) j" if "(j, r) \<in> set ps" for j r
    using assms(1) same [OF that] peers that
    by (fastforce simp: settled_def talks_to_def transport_of_def)
  then show "served peer (?f, w') ps = served peer (f, w) ps"
    by (auto simp: served_def intro!: map_filter_same)
qed

text \<open>What \<open>available()\<close> does.\<close>

lemma server_available_takes:
  assumes os: "accept_os net (lst_handle (srv_listener srv)) backlog peer arrive"
    and lst: "lst_handle (srv_listener srv) \<noteq> kInvalid"
    and run: "server_available net srv i q f w = (f', w')"
  shows "\<exists>s. f' = client_from_socket i q s f \<and> peer w \<subseteq>\<^sub>m peer w'
    \<and> (if tcp_is_open s
       then backlog w \<noteq> [] \<and> backlog w' = tl (backlog w) \<and> peer w' (tcp_handle s) = Some (hd (backlog w))
       else backlog w' = backlog w \<or> backlog w \<noteq> [] \<and> backlog w' = tl (backlog w))"
proof -
  obtain d w1 where acc: "os_accept net (lst_handle (srv_listener srv)) w = (d, w1)"
    by (cases "os_accept net (lst_handle (srv_listener srv)) w")
  note select = accept_laws(1) [OF os, of w] and taken = accept_laws(2) [OF os _ acc]
    and unblocked = accept_laws(3,4) [OF os, of d w1]
  have closed: "tcp_destroy net \<lparr>tcp_handle = kInvalid, tcp_peeked = - 1\<rparr> v = v" for v
    by (simp add: tcp_destroy_def tcp_close_def tcp_is_open_def)
  let ?l = "srv_listener srv"
  show ?thesis
  proof (cases "backlog w = []")
    case True
    then have "lst_accept net ?l w = (tcp_adopt kInvalid, w)"
      using select by (simp add: lst_accept_def lst_has_pending_client_def)
    with run have "f' = client_from_socket i q (tcp_adopt kInvalid) f" "w' = w"
      by (auto simp: server_available_def tcp_move_ctor_def closed tcp_adopt_def)
    with True show ?thesis
      by (intro exI [of _ "tcp_adopt kInvalid"]) (simp add: tcp_adopt_def tcp_is_open_def)
  next
    case False
    then have "lst_accept net ?l w = (tcp_adopt d, if d = kInvalid then w1 else os_set_non_blocking net d w1)"
      using select lst acc by (simp add: lst_accept_def lst_has_pending_client_def)
    with run have step: "f' = client_from_socket i q (tcp_adopt d) f" "w' = (if d = kInvalid then w1 else os_set_non_blocking net d w1)"
      by (auto simp: server_available_def tcp_move_ctor_def closed tcp_adopt_def)
    show ?thesis
    proof (cases "d = kInvalid")
      case True
      with False taken step show ?thesis
        by (intro exI [of _ "tcp_adopt d"]) (auto simp: tcp_adopt_def tcp_is_open_def)
    next
      case d: False
      with False taken have "peer w d = None" "backlog w1 = tl (backlog w)" "peer w1 = (peer w)(d \<mapsto> hd (backlog w))"
        by simp_all
      with False d step unblocked show ?thesis
        by (intro exI [of _ "tcp_adopt d"]) (auto simp: tcp_adopt_def tcp_is_open_def map_le_def)
    qed
  qed
qed

lemma taken_client:
  "talks_to peer (client_from_socket i q s f, w) i = (if tcp_is_open s then peer w (tcp_handle s) else None)"
  "client_open i (client_from_socket i q s f) \<longleftrightarrow> tcp_is_open s"
  by (simp_all add: talks_to_def client_open_def transport_of_def client_from_socket_def make_shared_def)

lemma serve_step_keeps:
  assumes os: "accept_os net (lst_handle (srv_listener srv)) backlog peer arrive"
    and lst: "lst_handle (srv_listener srv) \<noteq> kInvalid"
    and settled: "settled peer (f, w) ps"
    and places: "\<forall>i q. opr = TakeClient i q \<longrightarrow> i \<notin> fst ` set ps \<and> q \<notin> snd ` set ps"
    and run: "serve_step net arrive srv opr (f, w) = ((f', w'), failed)"
  shows "settled peer (f', w') (ps @ taken [opr])
    \<and> subseq (served peer (f', w') (ps @ taken [opr]) @ backlog w') (served peer (f, w) ps @ backlog w @ arrived [opr])
    \<and> length (served peer (f, w) ps @ backlog w @ arrived [opr]) \<le> length (served peer (f', w') (ps @ taken [opr]) @ backlog w') + failed"
proof (cases opr)
  case (Arrive c)
  then have "f' = f" "backlog w' = backlog w @ [c]" "peer w' = peer w"
    using run accept_laws(5,6) [OF os] by (auto simp: serve_step_def)
  moreover from this have "served peer (f, w') ps = served peer (f, w) ps" "settled peer (f, w') ps"
    using settled by (simp_all add: settled_def served_def talks_to_same_peer [of peer w' w])
  ultimately show ?thesis
    using Arrive by simp
next
  case (TakeClient i q)
  then have take: "server_available net srv i q f w = (f', w')"
    and failed: "failed = (if 0 < os_select net (lst_handle (srv_listener srv)) w \<and> \<not> client_open i f' then 1 else 0)"
    using run lst by (auto simp: serve_step_def server_hasClient_def lst_has_pending_client_def Let_def)
  obtain s where f': "f' = client_from_socket i q s f" and peers: "peer w \<subseteq>\<^sub>m peer w'"
    and got: "if tcp_is_open s
       then backlog w \<noteq> [] \<and> backlog w' = tl (backlog w) \<and> peer w' (tcp_handle s) = Some (hd (backlog w))
       else backlog w' = backlog w \<or> backlog w \<noteq> [] \<and> backlog w' = tl (backlog w)"
    using server_available_takes [OF os lst take] by blast
  note places = places [rule_format, OF TakeClient]
  note kept = others_kept [OF settled conjunct1 [OF places] conjunct2 [OF places] peers, of s, folded f']
  have own: "served peer (f', w') [(i, q)] = (if tcp_is_open s then [hd (backlog w)] else [])"
    using got by (simp add: served_def map_filter_def taken_client f')
  have "settled peer (f', w') [(i, q)]"
    using got by (auto simp: settled_def f' client_from_socket_def make_shared_def)
  with kept have "settled peer (f', w') (ps @ taken [opr])"
    by (auto simp: TakeClient settled_def)
  moreover have "subseq ((if tcp_is_open s then [hd (backlog w)] else []) @ backlog w') (backlog w)"
    using got by (cases "backlog w") (auto split: if_splits)
  moreover have "length (backlog w) \<le> length ((if tcp_is_open s then [hd (backlog w)] else []) @ backlog w') + failed"
    using got accept_laws(1) [OF os, of w] by (cases "backlog w") (auto simp: failed f' taken_client(2) split: if_splits)
  ultimately show ?thesis
    using kept own by (simp add: TakeClient subseq_append' split: if_splits)
qed

lemma serve_run_keeps:
  assumes os: "accept_os net (lst_handle (srv_listener srv)) backlog peer arrive"
    and lst: "lst_handle (srv_listener srv) \<noteq> kInvalid"
    and "settled peer st ps"
    and "distinct (map fst (ps @ taken oprs))" and "distinct (map snd (ps @ taken oprs))"
    and "serve_run net arrive srv oprs st = (st', failed)"
  shows "settled peer st' (ps @ taken oprs)
    \<and> subseq (served peer st' (ps @ taken oprs) @ backlog (snd st')) (served peer st ps @ backlog (snd st) @ arrived oprs)
    \<and> length (served peer st ps @ backlog (snd st) @ arrived oprs)
        \<le> length (served peer st' (ps @ taken oprs) @ backlog (snd st')) + failed"
  using assms(3-)
proof (induction oprs arbitrary: st ps failed)
  case Nil
  then show ?case
    by simp
next
  case (Cons opr oprs)
  obtain f1 w1 n where one: "serve_step net arrive srv opr (fst st, snd st) = ((f1, w1), n)"
    by (cases "serve_step net arrive srv opr (fst st, snd st)") auto
  obtain m where rest: "serve_run net arrive srv oprs (f1, w1) = (st', m)" and failed: "failed = n + m"
    using Cons.prems(4) one by (auto split: prod.splits)
  have cons: "taken (opr # oprs) = taken [opr] @ taken oprs" "arrived (opr # oprs) = arrived [opr] @ arrived oprs"
    by (cases opr; simp)+
  have places: "\<forall>i q. opr = TakeClient i q \<longrightarrow> i \<notin> fst ` set ps \<and> q \<notin> snd ` set ps"
    using Cons.prems(2,3) by auto
  have "settled peer (fst st, snd st) ps"
    using Cons.prems(1) by simp
  note first = serve_step_keeps [OF os lst this places one, unfolded prod.collapse snd_conv]
  note later = Cons.IH [OF conjunct1 [OF first] _ _ rest, unfolded append_assoc cons(1) [symmetric] snd_conv,
      OF Cons.prems(2,3)]
  have "subseq ((served peer (f1, w1) (ps @ taken [opr]) @ backlog w1) @ arrived oprs)
      ((served peer st ps @ backlog (snd st) @ arrived [opr]) @ arrived oprs)"
    by (rule list_emb_append_mono [OF conjunct1 [OF conjunct2 [OF first]] subseq_order.order_refl])
  then have "subseq (served peer (f1, w1) (ps @ taken [opr]) @ backlog w1 @ arrived oprs)
      (served peer st ps @ backlog (snd st) @ arrived (opr # oprs))"
    unfolding cons(2) append_assoc .
  then have "subseq (served peer st' (ps @ taken (opr # oprs)) @ backlog (snd st'))
      (served peer st ps @ backlog (snd st) @ arrived (opr # oprs))"
    by (rule subseq_order.order_trans [OF conjunct1 [OF conjunct2 [OF later]]])
  moreover have "length (served peer st ps @ backlog (snd st) @ arrived (opr # oprs))
      \<le> length (served peer st' (ps @ taken (opr # oprs)) @ backlog (snd st')) + failed"
    using conjunct2 [OF conjunct2 [OF first]] conjunct2 [OF conjunct2 [OF later]]
    unfolding cons(2) length_append failed by linarith
  ultimately show ?case
    using later by blast
qed

text \<open>An open client talks to a peer.\<close>

lemma settled_open:
  assumes "settled peer st ps" and "(i, q) \<in> set ps"
  shows "client_open i (fst st) \<longleftrightarrow> talks_to peer st i \<noteq> None"
proof -
  obtain c n s where "clients (fst st) i = Some c" "wc_socket c = q" "wc_tls c = None" "tcp_store (fst st) q = Some (n, s)"
    "tcp_is_open s \<longrightarrow> peer (snd st) (tcp_handle s) \<noteq> None"
    using assms by (force simp: settled_def)
  then show ?thesis
    by (auto simp: client_open_def talks_to_def transport_of_def)
qed

section \<open>Property\<close>


text \<open>
  A system whose descriptors are the connections it has accepted, in order; peer 0 is gone before
  it is accepted.
\<close>

record door =
  door_inside :: "nat list"
  door_waiting :: "nat list"

definition door_accept :: "int \<Rightarrow> door \<Rightarrow> int \<times> door" where
  "door_accept fd w =
     (case door_waiting w of
        [] \<Rightarrow> (- 1, w)
      | c # cs \<Rightarrow>
          if c = 0 then (- 1, w\<lparr>door_waiting := cs\<rparr>)
          else (int (length (door_inside w)), \<lparr>door_inside = door_inside w @ [c], door_waiting = cs\<rparr>))"

definition door_os :: "door net_api" where
  "door_os =
     \<lparr>inet_pton = (\<lambda>host. None), getaddrinfo = (\<lambda>host w. (None, w)), os_socket = (\<lambda>k w. (- 1, w)),
      os_setsockopt = (\<lambda>fd opt w. w), os_bind = (\<lambda>fd port w. (- 1, w)), os_listen = (\<lambda>fd n w. (- 1, w)),
      os_connect = (\<lambda>fd a p w. (- 1, w)), os_accept = door_accept, os_close = (\<lambda>fd w. w),
      os_set_non_blocking = (\<lambda>fd w. w), os_fionread = (\<lambda>fd w. None), os_recv = (\<lambda>fd n peek w. (RecvFailed, w)),
      os_send = (\<lambda>fd bs w. (- 1, w)), os_select = (\<lambda>fd w. if door_waiting w = [] then 0 else 1),
      os_getsockname = (\<lambda>fd w. None), os_getpeername = (\<lambda>fd w. None),
      os_sendto = (\<lambda>fd bs a p w. (- 1, w)), os_recvfrom = (\<lambda>fd n w. (RecvFailed, w))\<rparr>"

definition door_peer :: "door \<Rightarrow> int \<rightharpoonup> nat" where
  "door_peer w d = (if 0 \<le> d \<and> nat d < length (door_inside w) then Some (door_inside w ! nat d) else None)"

definition door_knock :: "nat \<Rightarrow> door \<Rightarrow> door" where
  "door_knock c w = w\<lparr>door_waiting := door_waiting w @ [c]\<rparr>"

lemma door_laws: "accept_os door_os fd door_waiting door_peer door_knock"
  by (auto simp: accept_os_def door_os_def door_accept_def door_peer_def door_knock_def kInvalid_def fun_eq_iff
      nth_append less_Suc_eq split: list.splits)


end
