(* ===== verification/WiFiPackets.thy ===== *)
theory WiFiPackets
  imports WiFi
begin

text \<open>
  Programs with any number of \<open>WiFiUDP\<close> objects that compose, send, receive and read datagrams in
  any order, and a log of what such a program asked for and was told, from which alone one can say
  which datagrams it sent and what it read. \<open>packets_stay_whole\<close> compares the log with the wire.
\<close>

section \<open>What the system promises\<close>

text \<open>
  \<open>wire w\<close> are the datagrams that this process has sent so far and those that others send at any
  time. \<open>recvfrom\<close> may give any of them, any number of times, or none; one that is longer than the
  buffer it cuts or, as Winsock does, refuses.
\<close>

definition datagram_os :: "'w net_api \<Rightarrow> ('w \<Rightarrow> bytes set) \<Rightarrow> bool" where
  "datagram_os net wire \<longleftrightarrow>
     (\<forall>fd bs a p w n w'. os_sendto net fd bs a p w = (n, w') \<longrightarrow> wire w' = (if 0 \<le> n then insert bs (wire w) else wire w)) \<and>
     (\<forall>fd n w r w'. os_recvfrom net fd n w = (r, w') \<longrightarrow>
        wire w' = wire w \<and> (\<forall>d. r = Received d \<longrightarrow> (\<exists>x \<in> wire w. d = take n x))) \<and>
     (\<forall>k w. wire (snd (os_socket net k w)) = wire w) \<and>
     (\<forall>fd p w. wire (snd (os_bind net fd p w)) = wire w) \<and>
     (\<forall>fd w. wire (os_close net fd w) = wire w) \<and>
     (\<forall>fd w. wire (os_set_non_blocking net fd w) = wire w) \<and>
     (\<forall>h w. wire (snd (getaddrinfo net h w)) = wire w)"

lemma datagram_laws:
  assumes "datagram_os net wire"
  shows "os_sendto net fd bs a p w = (n, w') \<Longrightarrow> wire w' = (if 0 \<le> n then insert bs (wire w) else wire w)"
    and "os_recvfrom net fd m w = (r, w') \<Longrightarrow> wire w' = wire w"
    and "os_recvfrom net fd m w = (Received d, w') \<Longrightarrow> \<exists>x \<in> wire w. d = take m x"
    and "wire (snd (os_socket net k w)) = wire w" and "wire (snd (os_bind net fd port w)) = wire w"
    and "wire (os_close net fd w) = wire w" and "wire (os_set_non_blocking net fd w) = wire w"
    and "wire (snd (resolve_ipv4 net h w)) = wire w"
  using assms unfolding datagram_os_def resolve_ipv4_def by (blast | auto split: option.split)+

section \<open>Programs\<close>

datatype packet_op =
    PkBegin u16 | PkBeginPacket ip_address u16 | PkWrite bytes | PkEnd | PkParse | PkRead nat

datatype packet_out = PkBool bool | PkCount nat | PkInt int bytes

definition packet_step :: "'w net_api \<Rightarrow> packet_op \<Rightarrow> udp_socket \<times> 'w \<Rightarrow> packet_out \<times> udp_socket \<times> 'w" where
  "packet_step net opr st =
     (let (u, w) = st in
      case opr of
        PkBegin port \<Rightarrow> let (b, u1, w1) = wifi_udp_begin net port u w in (PkBool b, u1, w1)
      | PkBeginPacket ip port \<Rightarrow> let (b, u1) = wifi_udp_beginPacket ip port u in (PkBool b, u1, w)
      | PkWrite bs \<Rightarrow> let (n, u1) = wifi_udp_write bs u in (PkCount n, u1, w)
      | PkEnd \<Rightarrow> let (b, u1, w1) = wifi_udp_endPacket net u w in (PkBool b, u1, w1)
      | PkParse \<Rightarrow> let (n, u1, w1) = wifi_udp_parsePacket net u w in (PkInt n [], u1, w1)
      | PkRead len \<Rightarrow> let (n, buf, u1) = wifi_udp_read len u in (PkInt n buf, u1, w))"

text \<open>Which object makes the call is part of the program; the run keeps what was answered.\<close>

type_synonym packet_event = "nat \<times> packet_op \<times> packet_out"

primrec packet_run ::
  "'w net_api \<Rightarrow> (nat \<times> packet_op) list \<Rightarrow> (nat \<Rightarrow> udp_socket) \<times> 'w
     \<Rightarrow> packet_event list \<times> (nat \<Rightarrow> udp_socket) \<times> 'w" where
  "packet_run net [] st = ([], st)"
| "packet_run net (c # cs) st =
     (let (k, opr) = c; (objs, w) = st; (out, u, w1) = packet_step net opr (objs k, w);
          (evs, st2) = packet_run net cs (objs(k := u), w1)
      in ((k, opr, out) # evs, st2))"

text \<open>Datagrams are composed the documented way: \<open>beginPacket\<close>, any writes, \<open>endPacket\<close>.\<close>

fun well_composed :: "nat set \<Rightarrow> (nat \<times> packet_op) list \<Rightarrow> bool" where
  "well_composed composing [] \<longleftrightarrow> True"
| "well_composed composing ((k, PkBeginPacket ip port) # cs) \<longleftrightarrow> well_composed (insert k composing) cs"
| "well_composed composing ((k, PkWrite bs) # cs) \<longleftrightarrow> k \<in> composing \<and> well_composed composing cs"
| "well_composed composing ((k, PkEnd) # cs) \<longleftrightarrow> k \<in> composing \<and> well_composed (composing - {k}) cs"
| "well_composed composing (c # cs) \<longleftrightarrow> well_composed composing cs"

section \<open>The log\<close>

text \<open>
  From calls and answers alone: the datagrams in the making, those sent, for each object the length
  of the datagram that \<open>parsePacket\<close> announced last, and what was read of it.
\<close>

record packet_log =
  making :: "nat \<rightharpoonup> bytes"
  sent :: "bytes list"
  announced :: "nat \<Rightarrow> nat"
  got :: "nat \<Rightarrow> bytes"

definition log_start :: packet_log where
  "log_start = \<lparr>making = Map.empty, sent = [], announced = (\<lambda>k. 0), got = (\<lambda>k. [])\<rparr>"

fun log_event :: "packet_event \<Rightarrow> packet_log \<Rightarrow> packet_log" where
  "log_event (k, PkBegin port, out) l = l\<lparr>announced := (announced l)(k := 0), got := (got l)(k := [])\<rparr>"
| "log_event (k, PkBeginPacket ip port, out) l = l\<lparr>making := (making l)(k \<mapsto> [])\<rparr>"
| "log_event (k, PkWrite bs, out) l = l\<lparr>making := (making l)(k := map_option (\<lambda>m. m @ bs) (making l k))\<rparr>"
| "log_event (k, PkEnd, out) l =
     l\<lparr>making := (making l)(k := None),
       sent := (if out = PkBool True then sent l @ [the (making l k)] else sent l)\<rparr>"
| "log_event (k, PkParse, PkInt n buf) l = l\<lparr>announced := (announced l)(k := nat n), got := (got l)(k := [])\<rparr>"
| "log_event (k, PkRead len, PkInt n buf) l = l\<lparr>got := (got l)(k := got l k @ buf)\<rparr>"
| "log_event ev l = l"

section \<open>One object\<close>

definition whole :: "bytes set \<Rightarrow> bytes \<Rightarrow> bool" where
  "whole W p \<longleftrightarrow> p = [] \<or> (\<exists>d \<in> W. p = take 2048 d)"

definition in_step :: "packet_log \<Rightarrow> bytes set \<Rightarrow> nat \<Rightarrow> udp_socket \<Rightarrow> bool" where
  "in_step l W k u \<longleftrightarrow>
     (\<forall>m. making l k = Some m \<longrightarrow> send_buffer u = m) \<and>
     (udp_handle u = kInvalid \<longrightarrow> recv_buffer u = []) \<and>
     recv_pos u \<le> length (recv_buffer u) \<and> got l k = take (recv_pos u) (recv_buffer u) \<and>
     announced l k = length (recv_buffer u) \<and> whole W (recv_buffer u)"

lemma in_step_other:
  "in_step l W k u \<Longrightarrow> W \<subseteq> W' \<Longrightarrow> j \<noteq> k \<Longrightarrow> in_step (log_event (j, opr, out) l) W' k u"
  by (cases opr; cases out) (auto simp: in_step_def whole_def)

lemma whole_Nil [simp]: "whole W []"
  by (simp add: whole_def)

lemma close_keeps_wire:
  "datagram_os net wire \<Longrightarrow> udp_close net u w = (u', w') \<Longrightarrow>
     wire w' = wire w \<and> u' = u\<lparr>udp_handle := kInvalid, recv_buffer := [], recv_pos := 0\<rparr>"
  by (auto simp: udp_close_def datagram_laws kInvalid_def split: if_splits)

lemma begin_in_step:
  assumes os: "datagram_os net wire" and inv: "in_step l (wire w) k u" and run: "udp_begin net port u w = (b, u', w')"
  shows "in_step (log_event (k, PkBegin port, out) l) (wire w') k u' \<and> wire w' = wire w"
proof -
  obtain u1 w1 where shut: "udp_close net u w = (u1, w1)"
    by (cases "udp_close net u w")
  obtain fd w2 where made: "os_socket net SOCK_DGRAM w1 = (fd, w2)"
    by (cases "os_socket net SOCK_DGRAM w1")
  obtain rc w3 where bound: "os_bind net fd port w2 = (rc, w3)"
    by (cases "os_bind net fd port w2")
  have "wire w1 = wire w" "u1 = u\<lparr>udp_handle := kInvalid, recv_buffer := [], recv_pos := 0\<rparr>"
    using close_keeps_wire [OF os shut] by simp_all
  moreover have "wire w2 = wire w1" "wire w3 = wire w2"
    using datagram_laws(4) [OF os, of SOCK_DGRAM w1] datagram_laws(5) [OF os, of fd port w2] made bound by simp_all
  ultimately show ?thesis
    using inv run shut made bound
    by (auto simp: udp_begin_def in_step_def datagram_laws [OF os] split: if_splits)
qed

lemma end_in_step:
  assumes os: "datagram_os net wire" and inv: "in_step l (wire w) k u" and "making l k = Some m"
    and run: "udp_end_packet net u w = (b, u', w')"
  shows "in_step (log_event (k, PkEnd, PkBool b) l) (wire w') k u'
    \<and> wire w' = (if b then insert m (wire w) else wire w)"
proof (cases "udp_handle u = kInvalid \<or> fst (resolve_ipv4 net (pending_host u) w) = None")
  case True
  with run datagram_laws(8) [OF os, of "pending_host u" w] have "\<not> b" "u' = u" "wire w' = wire w"
    by (auto simp: udp_end_packet_def split: if_splits option.splits prod.splits)
  with inv show ?thesis
    by (simp add: in_step_def)
next
  case False
  then obtain addr w1 where res: "resolve_ipv4 net (pending_host u) w = (Some addr, w1)"
    by (cases "resolve_ipv4 net (pending_host u) w") auto
  obtain n where send: "os_sendto net (udp_handle u) (send_buffer u) addr (pending_port u) w1 = (n, w')"
    and b: "b \<longleftrightarrow> 0 \<le> n" and u': "u' = u\<lparr>send_buffer := []\<rparr>"
    using run False res by (auto simp: udp_end_packet_def split: prod.splits)
  have "send_buffer u = m" "wire w1 = wire w"
    using inv assms(3) datagram_laws(8) [OF os, of "pending_host u" w] res by (simp_all add: in_step_def)
  then have "wire w' = (if b then insert m (wire w) else wire w)"
    using datagram_laws(1) [OF os send] b by simp
  with inv u' show ?thesis
    by (auto simp: in_step_def whole_def)
qed

lemma parse_in_step:
  assumes os: "datagram_os net wire" and inv: "in_step l (wire w) k u" and run: "udp_parse_packet net u w = (n, u', w')"
  shows "in_step (log_event (k, PkParse, PkInt n []) l) (wire w') k u' \<and> wire w' = wire w"
proof (cases "udp_handle u = kInvalid")
  case True
  with inv run show ?thesis
    by (auto simp: udp_parse_packet_def in_step_def)
next
  case False
  obtain r where recv: "os_recvfrom net (udp_handle u) 2048 w = (r, w')"
    using run False by (auto simp: udp_parse_packet_def Let_def split: prod.splits if_splits)
  have same: "wire w' = wire w"
    by (rule datagram_laws(2) [OF os recv])
  show ?thesis
  proof (cases "\<exists>d. r = Received d \<and> d \<noteq> []")
    case True
    then obtain d where d: "r = Received d" "d \<noteq> []"
      by blast
    then obtain x where "x \<in> wire w" "d = take 2048 x"
      using datagram_laws(3) [OF os] recv by blast
    then have "whole (wire w') d" and "int_of_size (length d) = int (length d)"
      using same by (auto simp: whole_def intro: int_of_size_small)
    moreover from this(2) have "n = int (length d)" "u' = u\<lparr>recv_buffer := d, recv_pos := 0\<rparr>"
      using run False recv d by (auto simp: udp_parse_packet_def)
    ultimately show ?thesis
      using inv False same by (simp add: in_step_def)
  next
    case none: False
    then have "recv_int r \<le> 0"
      by (cases r) (auto simp: int_of_size_def)
    then have "n = 0" "u' = u\<lparr>recv_buffer := [], recv_pos := 0\<rparr>"
      using run False recv by (simp_all add: udp_parse_packet_def)
    with inv show ?thesis
      by (simp add: in_step_def same)
  qed
qed

lemma read_in_step:
  assumes inv: "in_step l W k u" and run: "udp_read len u = (n, buf, u')"
  shows "in_step (log_event (k, PkRead len, PkInt n buf) l) W k u'"
  using assms by (auto simp: udp_read_def in_step_def Let_def take_add min_def split: if_splits)

lemma packet_step_in_step:
  assumes os: "datagram_os net wire" and inv: "in_step l (wire w) k u" and sent: "wire w = W \<union> set (sent l)"
    and making: "opr = PkEnd \<Longrightarrow> making l k \<noteq> None"
    and run: "packet_step net opr (u, w) = (out, u', w')"
  shows "in_step (log_event (k, opr, out) l) (wire w') k u' \<and> wire w' = W \<union> set (sent (log_event (k, opr, out) l))"
proof (cases opr)
  case (PkBegin port)
  then obtain b where one: "udp_begin net port u w = (b, u', w')"
    using run by (auto simp: packet_step_def wifi_udp_begin_def split: prod.splits)
  from begin_in_step [OF os inv one, of out] PkBegin sent show ?thesis
    by auto
next
  case PkEnd
  then obtain b where out: "out = PkBool b" and one: "udp_end_packet net u w = (b, u', w')"
    using run by (auto simp: packet_step_def wifi_udp_endPacket_def split: prod.splits)
  obtain m where "making l k = Some m"
    using making PkEnd by blast
  with end_in_step [OF os inv _ one] PkEnd out sent show ?thesis
    by auto
next
  case PkParse
  then obtain n where out: "out = PkInt n []" and one: "udp_parse_packet net u w = (n, u', w')"
    using run by (auto simp: packet_step_def wifi_udp_parsePacket_def split: prod.splits)
  from parse_in_step [OF os inv one] PkParse out sent show ?thesis
    by auto
next
  case (PkRead len)
  then obtain n buf where out: "out = PkInt n buf" and one: "udp_read len u = (n, buf, u')" and "w' = w"
    using run by (auto simp: packet_step_def wifi_udp_read_def split: prod.splits)
  with read_in_step [OF inv one] PkRead sent show ?thesis
    by simp
qed (use run inv sent in \<open>auto simp: packet_step_def wifi_udp_beginPacket_def udp_begin_packet_def wifi_udp_write_def
    udp_write_def in_step_def\<close>)

section \<open>Many objects\<close>

lemma well_composed_step:
  assumes "well_composed (dom (making l)) ((k, opr) # cs)"
  shows "opr = PkEnd \<Longrightarrow> making l k \<noteq> None" and "well_composed (dom (making (log_event (k, opr, out) l))) cs"
proof -
  have "dom (m(k := map_option g (m k))) = dom m" for m :: "nat \<rightharpoonup> bytes" and g
    by (auto simp: dom_def)
  with assms show "well_composed (dom (making (log_event (k, opr, out) l))) cs"
    by (cases opr; cases out) simp_all
qed (use assms in auto)

lemma packet_run_in_step:
  assumes os: "datagram_os net wire" and "\<And>k. in_step l (wire w) k (objs k)" and "wire w = W \<union> set (sent l)"
    and "well_composed (dom (making l)) cs" and "packet_run net cs (objs, w) = (evs, objs', w')"
  shows "(\<forall>k. in_step (fold log_event evs l) (wire w') k (objs' k)) \<and> wire w' = W \<union> set (sent (fold log_event evs l))"
  using assms(2-)
proof (induction cs arbitrary: l w objs evs)
  case Nil
  then show ?case
    by simp
next
  case (Cons c cs)
  obtain k opr out u w1 evs1 where c: "c = (k, opr)" and one: "packet_step net opr (objs k, w) = (out, u, w1)"
    and rest: "packet_run net cs (objs(k := u), w1) = (evs1, objs', w')" and evs: "evs = (k, opr, out) # evs1"
    using Cons.prems(4) by (cases c) (auto split: prod.splits)
  let ?l = "log_event (k, opr, out) l"
  note composed = well_composed_step [OF Cons.prems(3) [unfolded c]]
  have own: "in_step ?l (wire w1) k u" and wire: "wire w1 = W \<union> set (sent ?l)"
    using packet_step_in_step [OF os Cons.prems(1,2) composed(1) one] by blast+
  have "set (sent l) \<subseteq> set (sent ?l)"
    by (cases opr; cases out) auto
  then have grows: "wire w \<subseteq> wire w1"
    using wire Cons.prems(2) by auto
  have "in_step ?l (wire w1) j ((objs(k := u)) j)" for j
    using own in_step_other [OF Cons.prems(1) grows, of k j] by simp
  from Cons.IH [OF this wire composed(2) rest] show ?case
    unfolding evs fold_simps .
qed

section \<open>Property\<close>

text \<open>
  C20: datagrams stay whole and apart. Let a program use any number of \<open>WiFiUDP\<close> objects in any
  order, composing its datagrams the documented way. What it sent are exactly the concatenations of
  the writes between a \<open>beginPacket\<close> and an \<open>endPacket\<close> that reported success. And for each object,
  what was read since the last \<open>parsePacket\<close>, followed by what is left to read, is as long as
  \<open>parsePacket\<close> announced and is one datagram that somebody sent, cut after 2048 bytes: no read
  mixes two datagrams, repeats or skips bytes, and none reads what another object received.
\<close>

theorem packets_stay_whole:
  assumes "datagram_os net wire" and "well_composed {} cs"
    and "packet_run net cs (\<lambda>k. udp_new, w) = (evs, objs, w')"
  shows "wire w' = wire w \<union> set (sent (fold log_event evs log_start))
    \<and> (\<exists>p rest. got (fold log_event evs log_start) k @ rest = p
        \<and> rest = drop (recv_pos (objs k)) (recv_buffer (objs k))
        \<and> length p = announced (fold log_event evs log_start) k
        \<and> (p = [] \<or> (\<exists>d \<in> wire w'. p = take 2048 d)))"
proof -
  have start: "in_step log_start (wire w) j udp_new" for j
    by (simp add: in_step_def log_start_def udp_new_def)
  have "wire w = wire w \<union> set (sent log_start)" "well_composed (dom (making log_start)) cs"
    using assms(2) by (simp_all add: log_start_def)
  from packet_run_in_step [OF assms(1) start this assms(3)]
  have "in_step (fold log_event evs log_start) (wire w') k (objs k)"
    and "wire w' = wire w \<union> set (sent (fold log_event evs log_start))"
    by blast+
  then show ?thesis
    by (simp add: in_step_def whole_def)
qed

text \<open>A system whose datagrams, once sent, can be received again and again.\<close>

record echo =
  echo_wire :: "bytes list"

definition echo_os :: "echo net_api" where
  "echo_os =
     \<lparr>inet_pton = (\<lambda>host. Some 1), getaddrinfo = (\<lambda>host w. (None, w)), os_socket = (\<lambda>k w. (3, w)),
      os_setsockopt = (\<lambda>fd opt w. w), os_bind = (\<lambda>fd port w. (0, w)), os_listen = (\<lambda>fd n w. (- 1, w)),
      os_connect = (\<lambda>fd a p w. (- 1, w)), os_accept = (\<lambda>fd w. (- 1, w)), os_close = (\<lambda>fd w. w),
      os_set_non_blocking = (\<lambda>fd w. w), os_fionread = (\<lambda>fd w. None), os_recv = (\<lambda>fd n peek w. (RecvFailed, w)),
      os_send = (\<lambda>fd bs w. (- 1, w)), os_select = (\<lambda>fd w. 0), os_getsockname = (\<lambda>fd w. None),
      os_getpeername = (\<lambda>fd w. None),
      os_sendto = (\<lambda>fd bs a p w. (int_of_size (length bs), if 0 \<le> int_of_size (length bs) then w\<lparr>echo_wire := bs # echo_wire w\<rparr> else w)),
      os_recvfrom = (\<lambda>fd n w. (case echo_wire w of [] \<Rightarrow> RecvWouldBlock | d # ds \<Rightarrow> Received (take n d), w))\<rparr>"

lemma echo_laws: "datagram_os echo_os (\<lambda>w. set (echo_wire w))"
  by (auto simp: datagram_os_def echo_os_def split: list.splits)

theorem packets_stay_whole_witness:
  "let (evs, objs, w) = packet_run echo_os
      [(0, PkBegin 0), (1, PkBegin 123), (0, PkBeginPacket (IPAddress 127 0 0 1) 123), (0, PkWrite [1]), (0, PkWrite [2, 3]),
       (0, PkEnd), (1, PkParse), (1, PkRead 2)] (\<lambda>k. udp_new, \<lparr>echo_wire = []\<rparr>)
   in got (fold log_event evs log_start) 1 = [1, 2] \<and> announced (fold log_event evs log_start) 1 = 3
     \<and> set (echo_wire w) = set (sent (fold log_event evs log_start))"
proof -
  let ?cs = "[(0, PkBegin 0), (1, PkBegin 123), (0, PkBeginPacket (IPAddress 127 0 0 1) 123), (0, PkWrite [1]), (0, PkWrite [2, 3]),
       (0, PkEnd), (1, PkParse), (1, PkRead 2)]"
  obtain evs objs w where run: "packet_run echo_os ?cs (\<lambda>k. udp_new, \<lparr>echo_wire = []\<rparr>) = (evs, objs, w)"
    by (cases "packet_run echo_os ?cs (\<lambda>k. udp_new, \<lparr>echo_wire = []\<rparr>)")
  have "evs = [(0, PkBegin 0, PkBool True), (1, PkBegin 123, PkBool True),
      (0, PkBeginPacket (IPAddress 127 0 0 1) 123, PkBool True), (0, PkWrite [1], PkCount 1), (0, PkWrite [2, 3], PkCount 2),
      (0, PkEnd, PkBool True), (1, PkParse, PkInt 3 []), (1, PkRead 2, PkInt 2 [1, 2])]"
    using run by (auto simp: packet_step_def wifi_udp_begin_def udp_begin_def udp_close_def udp_new_def wifi_udp_beginPacket_def
        udp_begin_packet_def wifi_udp_write_def udp_write_def wifi_udp_endPacket_def udp_end_packet_def resolve_ipv4_def
        wifi_udp_parsePacket_def udp_parse_packet_def wifi_udp_read_def udp_read_def echo_os_def kInvalid_def
        int_of_size_small numeral_2_eq_2)
  then have "got (fold log_event evs log_start) 1 = [1, 2] \<and> announced (fold log_event evs log_start) 1 = 3"
    by (simp add: log_start_def)
  with packets_stay_whole [OF echo_laws _ run] run show ?thesis
    by simp
qed

end
