(* ===== verification/NetPlatform.thy ===== *)
theory NetPlatform
  imports Net
begin

unbundle bit_operations_syntax

text \<open>
  The part of \<open>net.cpp\<close> that the preprocessor chooses: the Winsock and the POSIX definitions of
  \<open>native_t\<close>, \<open>kInvalid\<close> and the functions above them, and the calls that differ in their casts. \<open>Net\<close> keeps a handle as the number
  that \<open>std::intptr_t\<close> holds and takes the rest as calls of the system; the locale
  \<open>native_handles\<close> and its two interpretations say that this is sound on both platforms. Pointers
  have 64 bits.
\<close>

section \<open>Handles\<close>

type_synonym intptr = "64 word"

text \<open>POSIX: \<open>native_t\<close> is \<open>int\<close>; the cast from \<open>intptr_t\<close> keeps the low 32 bits.\<close>

definition posix_kInvalid :: "32 word" where
  "posix_kInvalid = - 1"

definition posix_to_native :: "intptr \<Rightarrow> 32 word" where
  "posix_to_native h = ucast h"

definition posix_from_native :: "32 word \<Rightarrow> intptr" where
  "posix_from_native s = scast s"

text \<open>Windows: \<open>native_t\<close> is \<open>SOCKET\<close>, an unsigned integer as wide as a pointer.\<close>

definition win_kInvalid :: "64 word" where
  "win_kInvalid = NOT 0"

definition win_to_native :: "intptr \<Rightarrow> 64 word" where
  "win_to_native h = ucast h"

definition win_from_native :: "64 word \<Rightarrow> intptr" where
  "win_from_native s = ucast s"

locale native_handles =
  fixes to_native :: "intptr \<Rightarrow> 'n" and from_native :: "'n \<Rightarrow> intptr" and invalid :: 'n
  assumes to_from: "to_native (from_native s) = s"
    and invalid_stored: "sint (from_native invalid) = kInvalid"
begin

lemma stored_back: "to_native (word_of_int (sint (from_native s))) = s"
  by (simp add: to_from)

lemma stored_inj: "sint (from_native s) = sint (from_native t) \<longleftrightarrow> s = t"
  by (metis stored_back)

lemma stored_invalid: "sint (from_native s) = kInvalid \<longleftrightarrow> s = invalid"
  by (metis invalid_stored stored_inj)

text \<open>A socket adopted from a native handle is open unless the handle is the invalid one.\<close>

lemma adopted_is_open: "tcp_is_open (tcp_adopt (sint (from_native s))) \<longleftrightarrow> s \<noteq> invalid"
  by (simp add: tcp_is_open_def tcp_adopt_def stored_invalid)

end

interpretation posix: native_handles posix_to_native posix_from_native posix_kInvalid
proof
  show "posix_to_native (posix_from_native s) = s" for s
    unfolding posix_to_native_def posix_from_native_def
    by (rule bit_word_eqI) (simp add: bit_simps)
qed (simp add: posix_from_native_def posix_kInvalid_def kInvalid_def)

interpretation windows: native_handles win_to_native win_from_native win_kInvalid
  by standard (simp_all add: win_to_native_def win_from_native_def win_kInvalid_def kInvalid_def)

section \<open>Calls on a native handle\<close>

datatype errno = EAGAIN | EWOULDBLOCK | OtherErrno nat

text \<open>\<open>ioctl\<close> and \<open>ioctlsocket\<close> with \<open>FIONREAD\<close> return a code and, at the address given, a count.\<close>

record 'w posix_calls =
  px_close :: "32 word \<Rightarrow> 'w \<Rightarrow> int \<times> 'w"
  px_getfl :: "32 word \<Rightarrow> 'w \<Rightarrow> 32 word"
  px_setfl :: "32 word \<Rightarrow> 32 word \<Rightarrow> 'w \<Rightarrow> 'w"
  px_fionread :: "32 word \<Rightarrow> 'w \<Rightarrow> int \<times> 32 word"
  px_errno :: "'w \<Rightarrow> errno"
  px_O_NONBLOCK :: "32 word"
  px_send :: "32 word \<Rightarrow> bytes \<Rightarrow> 'w \<Rightarrow> int \<times> 'w"
  px_sendto :: "32 word \<Rightarrow> bytes \<Rightarrow> u32 \<Rightarrow> u16 \<Rightarrow> 'w \<Rightarrow> int \<times> 'w"
  px_recv :: "32 word \<Rightarrow> nat \<Rightarrow> bool \<Rightarrow> 'w \<Rightarrow> bytes option \<times> 'w"
  px_recvfrom :: "32 word \<Rightarrow> nat \<Rightarrow> 'w \<Rightarrow> bytes option \<times> 'w"
  px_select :: "32 word \<Rightarrow> 32 word \<Rightarrow> 'w \<Rightarrow> int"

definition posix_close_native :: "'w posix_calls \<Rightarrow> 32 word \<Rightarrow> 'w \<Rightarrow> int \<times> 'w" where
  "posix_close_native c s w = px_close c s w"

definition posix_set_non_blocking :: "'w posix_calls \<Rightarrow> 32 word \<Rightarrow> 'w \<Rightarrow> 'w" where
  "posix_set_non_blocking c s w = px_setfl c s (px_getfl c s w OR px_O_NONBLOCK c) w"

definition posix_would_block :: "'w posix_calls \<Rightarrow> 'w \<Rightarrow> bool" where
  "posix_would_block c w \<longleftrightarrow> px_errno c w = EWOULDBLOCK \<or> px_errno c w = EAGAIN"

definition posix_bytes_available :: "'w posix_calls \<Rightarrow> 32 word \<Rightarrow> 'w \<Rightarrow> int" where
  "posix_bytes_available c s w = (let (rc, n) = px_fionread c s w in if rc = 0 then sint n else 0)"

text \<open>\<open>send\<close> returns an \<open>ssize_t\<close>, of which the code keeps an \<open>int\<close>.\<close>

definition posix_send :: "'w posix_calls \<Rightarrow> 32 word \<Rightarrow> bytes \<Rightarrow> 'w \<Rightarrow> int \<times> 'w" where
  "posix_send c s bs w = (let (n, w1) = px_send c s bs w in (sint (word_of_int n :: 32 word), w1))"

definition posix_sendto ::
  "'w posix_calls \<Rightarrow> 32 word \<Rightarrow> bytes \<Rightarrow> u32 \<Rightarrow> u16 \<Rightarrow> 'w \<Rightarrow> int \<times> 'w" where
  "posix_sendto c s bs a p w = (let (n, w1) = px_sendto c s bs a p w in (sint (word_of_int n :: 32 word), w1))"

text \<open>\<open>None\<close>: the call returns \<open>-1\<close>, and \<open>errno\<close> says why. The count is cast in \<open>recv_int\<close>.\<close>

definition posix_received :: "'w posix_calls \<Rightarrow> bytes option \<times> 'w \<Rightarrow> recv_result \<times> 'w" where
  "posix_received c res =
     (case res of
        (Some bs, w) \<Rightarrow> (Received bs, w)
      | (None, w) \<Rightarrow> (if posix_would_block c w then RecvWouldBlock else RecvFailed, w))"

definition posix_recv :: "'w posix_calls \<Rightarrow> 32 word \<Rightarrow> nat \<Rightarrow> bool \<Rightarrow> 'w \<Rightarrow> recv_result \<times> 'w" where
  "posix_recv c s len peek w = posix_received c (px_recv c s len peek w)"

definition posix_recvfrom :: "'w posix_calls \<Rightarrow> 32 word \<Rightarrow> nat \<Rightarrow> 'w \<Rightarrow> recv_result \<times> 'w" where
  "posix_recvfrom c s len w = posix_received c (px_recvfrom c s len w)"

text \<open>The first argument of \<open>select\<close> is the descriptor plus one; Winsock ignores it.\<close>

definition posix_select :: "'w posix_calls \<Rightarrow> 32 word \<Rightarrow> 'w \<Rightarrow> int" where
  "posix_select c s w = px_select c (s + 1) s w"

text \<open>\<open>u_long\<close> has 32 bits on Windows, and lengths go into the calls as an \<open>int\<close>.\<close>

record 'w winsock_calls =
  ws_closesocket :: "64 word \<Rightarrow> 'w \<Rightarrow> int \<times> 'w"
  ws_fionbio :: "64 word \<Rightarrow> 32 word \<Rightarrow> 'w \<Rightarrow> 'w"
  ws_fionread :: "64 word \<Rightarrow> 'w \<Rightarrow> int \<times> 32 word"
  ws_WSAGetLastError :: "'w \<Rightarrow> int"
  ws_WSAStartup :: "16 word \<Rightarrow> 'w \<Rightarrow> 'w"
  ws_WSACleanup :: "'w \<Rightarrow> 'w"
  ws_send :: "64 word \<Rightarrow> bytes \<Rightarrow> int \<Rightarrow> 'w \<Rightarrow> int \<times> 'w"
  ws_sendto :: "64 word \<Rightarrow> bytes \<Rightarrow> int \<Rightarrow> u32 \<Rightarrow> u16 \<Rightarrow> 'w \<Rightarrow> int \<times> 'w"
  ws_recv :: "64 word \<Rightarrow> int \<Rightarrow> bool \<Rightarrow> 'w \<Rightarrow> bytes option \<times> 'w"
  ws_recvfrom :: "64 word \<Rightarrow> int \<Rightarrow> 'w \<Rightarrow> bytes option \<times> 'w"
  ws_select :: "int \<Rightarrow> 64 word \<Rightarrow> 'w \<Rightarrow> int"

definition WSAEWOULDBLOCK :: int where
  "WSAEWOULDBLOCK = 10035"

definition win_close_native :: "'w winsock_calls \<Rightarrow> 64 word \<Rightarrow> 'w \<Rightarrow> int \<times> 'w" where
  "win_close_native c s w = ws_closesocket c s w"

definition win_set_non_blocking :: "'w winsock_calls \<Rightarrow> 64 word \<Rightarrow> 'w \<Rightarrow> 'w" where
  "win_set_non_blocking c s w = (let mode = 1 in ws_fionbio c s mode w)"

definition win_would_block :: "'w winsock_calls \<Rightarrow> 'w \<Rightarrow> bool" where
  "win_would_block c w \<longleftrightarrow> ws_WSAGetLastError c w = WSAEWOULDBLOCK"

definition win_bytes_available :: "'w winsock_calls \<Rightarrow> 64 word \<Rightarrow> 'w \<Rightarrow> int" where
  "win_bytes_available c s w = (let (rc, n) = ws_fionread c s w in if rc = 0 then sint n else 0)"

definition win_send :: "'w winsock_calls \<Rightarrow> 64 word \<Rightarrow> bytes \<Rightarrow> 'w \<Rightarrow> int \<times> 'w" where
  "win_send c s bs w = ws_send c s bs (int_of_size (length bs)) w"

definition win_sendto ::
  "'w winsock_calls \<Rightarrow> 64 word \<Rightarrow> bytes \<Rightarrow> u32 \<Rightarrow> u16 \<Rightarrow> 'w \<Rightarrow> int \<times> 'w" where
  "win_sendto c s bs a p w = ws_sendto c s bs (int_of_size (length bs)) a p w"

definition win_received :: "'w winsock_calls \<Rightarrow> bytes option \<times> 'w \<Rightarrow> recv_result \<times> 'w" where
  "win_received c res =
     (case res of
        (Some bs, w) \<Rightarrow> (Received bs, w)
      | (None, w) \<Rightarrow> (if win_would_block c w then RecvWouldBlock else RecvFailed, w))"

definition win_recv :: "'w winsock_calls \<Rightarrow> 64 word \<Rightarrow> nat \<Rightarrow> bool \<Rightarrow> 'w \<Rightarrow> recv_result \<times> 'w" where
  "win_recv c s len peek w = win_received c (ws_recv c s (int_of_size len) peek w)"

definition win_recvfrom :: "'w winsock_calls \<Rightarrow> 64 word \<Rightarrow> nat \<Rightarrow> 'w \<Rightarrow> recv_result \<times> 'w" where
  "win_recvfrom c s len w = win_received c (ws_recvfrom c s (int_of_size len) w)"

definition win_select :: "'w winsock_calls \<Rightarrow> 64 word \<Rightarrow> 'w \<Rightarrow> int" where
  "win_select c s w = ws_select c 0 s w"

text \<open>The library itself, on POSIX and on Windows; \<open>0x0202\<close> is \<open>MAKEWORD(2, 2)\<close>.\<close>

datatype 'w platform = Posix "'w posix_calls" | Windows "'w winsock_calls"

primrec global_init :: "'w platform \<Rightarrow> 'w \<Rightarrow> 'w" where
  "global_init (Posix c) w = w"
| "global_init (Windows c) w = ws_WSAStartup c 0x0202 w"

primrec global_shutdown :: "'w platform \<Rightarrow> 'w \<Rightarrow> 'w" where
  "global_shutdown (Posix c) w = w"
| "global_shutdown (Windows c) w = ws_WSACleanup c w"

section \<open>What the calls promise\<close>

text \<open>
  \<open>set_non_blocking\<close> adds \<open>O_NONBLOCK\<close> and keeps every other flag, where \<open>F_GETFL\<close> reads what
  \<open>F_SETFL\<close> stored.
\<close>

lemma set_non_blocking_flags:
  assumes "\<And>s f w. px_getfl c s (px_setfl c s f w) = f"
  shows "bit (px_getfl c s (posix_set_non_blocking c s w)) i
    \<longleftrightarrow> bit (px_getfl c s w) i \<or> bit (px_O_NONBLOCK c) i"
  by (simp add: posix_set_non_blocking_def assms bit_or_iff)

text \<open>
  A failing \<open>F_GETFL\<close> returns \<open>-1\<close>, which goes into \<open>F_SETFL\<close> as it is: every flag is asked for.
\<close>

lemma set_non_blocking_after_failure:
  "px_getfl c s w = - 1 \<Longrightarrow> posix_set_non_blocking c s w = px_setfl c s (- 1) w"
  by (simp add: posix_set_non_blocking_def)

text \<open>
  \<open>bytes_available_native\<close> is a count on both platforms as long as less than 2 GiB wait; on
  Windows, where the system counts in an unsigned \<open>u_long\<close>, the cast makes more a negative number.
\<close>

lemma sint_of_count: "sint (n :: 32 word) = (if uint n < 2 ^ 31 then uint n else uint n - 2 ^ 32)"
proof -
  have "uint n < 2 ^ 32"
    using uint_lt2p [of n] by simp
  then have small: "uint n mod 2 ^ 32 = uint n"
    by simp
  from \<open>uint n < 2 ^ 32\<close> have "uint n div 2 ^ 31 = (if uint n < 2 ^ 31 then 0 else 1)"
    using uint_ge_0 [of n] by simp linarith
  then have "odd (uint n div 2 ^ 31) \<longleftrightarrow> 2 ^ 31 \<le> uint n"
    by simp
  then show ?thesis
    using small by (simp add: sint_uint signed_take_bit_eq_take_bit_minus bit_iff_odd take_bit_eq_mod)
qed

lemma win_bytes_available_count:
  "ws_fionread c s w = (0, n) \<Longrightarrow>
     win_bytes_available c s w = (if uint n < 2 ^ 31 then uint n else uint n - 2 ^ 32)"
  by (simp add: win_bytes_available_def sint_of_count)

text \<open>
  Calls on native handles give the calls of \<open>net_api\<close>, which take the number that \<open>intptr_t\<close>
  holds; what \<open>Net\<close> then computes is what the platform's function returns.
\<close>

definition posix_net :: "'w posix_calls \<Rightarrow> 'w net_api \<Rightarrow> 'w net_api" where
  "posix_net c api = api\<lparr>
     os_close := (\<lambda>h w. snd (posix_close_native c (posix_to_native (word_of_int h)) w)),
     os_set_non_blocking := (\<lambda>h w. posix_set_non_blocking c (posix_to_native (word_of_int h)) w),
     os_fionread := (\<lambda>h w. let (rc, n) = px_fionread c (posix_to_native (word_of_int h)) w
                            in if rc = 0 then Some (sint n) else None),
     os_send := (\<lambda>h bs w. posix_send c (posix_to_native (word_of_int h)) bs w),
     os_sendto := (\<lambda>h bs a p w. posix_sendto c (posix_to_native (word_of_int h)) bs a p w),
     os_recv := (\<lambda>h len peek w. posix_recv c (posix_to_native (word_of_int h)) len peek w),
     os_recvfrom := (\<lambda>h len w. posix_recvfrom c (posix_to_native (word_of_int h)) len w),
     os_select := (\<lambda>h w. posix_select c (posix_to_native (word_of_int h)) w)\<rparr>"

definition win_net :: "'w winsock_calls \<Rightarrow> 'w net_api \<Rightarrow> 'w net_api" where
  "win_net c api = api\<lparr>
     os_close := (\<lambda>h w. snd (win_close_native c (win_to_native (word_of_int h)) w)),
     os_set_non_blocking := (\<lambda>h w. win_set_non_blocking c (win_to_native (word_of_int h)) w),
     os_fionread := (\<lambda>h w. let (rc, n) = ws_fionread c (win_to_native (word_of_int h)) w
                            in if rc = 0 then Some (sint n) else None),
     os_send := (\<lambda>h bs w. win_send c (win_to_native (word_of_int h)) bs w),
     os_sendto := (\<lambda>h bs a p w. win_sendto c (win_to_native (word_of_int h)) bs a p w),
     os_recv := (\<lambda>h len peek w. win_recv c (win_to_native (word_of_int h)) len peek w),
     os_recvfrom := (\<lambda>h len w. win_recvfrom c (win_to_native (word_of_int h)) len w),
     os_select := (\<lambda>h w. win_select c (win_to_native (word_of_int h)) w)\<rparr>"

lemma bytes_available_on_posix:
  "bytes_available_native (posix_net c api) (sint (posix_from_native s)) w = posix_bytes_available c s w"
  by (simp add: bytes_available_native_def posix_net_def posix_bytes_available_def posix.to_from split_def Let_def)

lemma bytes_available_on_windows:
  "bytes_available_native (win_net c api) (sint (win_from_native s)) w = win_bytes_available c s w"
  by (simp add: bytes_available_native_def win_net_def win_bytes_available_def windows.to_from split_def Let_def)

text \<open>Closing a socket closes the native handle it was made from, and nothing if that is the invalid one.\<close>

lemma close_on_posix:
  "snd (tcp_close (posix_net c api) (tcp_adopt (sint (posix_from_native s))) w)
     = (if s = posix_kInvalid then w else snd (px_close c s w))"
  using posix.adopted_is_open [of s]
  by (simp add: tcp_close_def posix_net_def posix_close_native_def tcp_adopt_def posix.to_from Let_def)

lemma close_on_windows:
  "snd (tcp_close (win_net c api) (tcp_adopt (sint (win_from_native s))) w)
     = (if s = win_kInvalid then w else snd (ws_closesocket c s w))"
  using windows.adopted_is_open [of s]
  by (simp add: tcp_close_def win_net_def win_close_native_def tcp_adopt_def windows.to_from Let_def)

text \<open>
  A write reports what the system took as long as that is less than 2 GiB. More, taken in one call,
  becomes a negative \<open>int\<close> on POSIX and is reported as nothing; on Windows it is the length that
  turns negative.
\<close>

lemma int_of_ssize: "0 \<le> n \<Longrightarrow> n < 2 ^ 32 \<Longrightarrow>
    sint (word_of_int n :: 32 word) = (if n < 2 ^ 31 then n else n - 2 ^ 32)"
  using sint_of_count [of "word_of_int n"] by (simp add: unsigned_of_int take_bit_eq_mod)

lemma write_on_posix:
  assumes "s \<noteq> posix_kInvalid" and "bs \<noteq> []" and "px_send c s bs w = (n, w1)" and "0 \<le> n" and "n < 2 ^ 32"
  shows "tcp_write (posix_net c api) bs (tcp_adopt (sint (posix_from_native s))) w
    = (if n < 2 ^ 31 then nat n else 0, w1)"
  using posix.adopted_is_open [of s] assms
  by (simp add: tcp_write_def posix_net_def posix_send_def tcp_adopt_def posix.to_from int_of_ssize)

lemma length_on_windows:
  assumes "length bs < 2 ^ 32"
  shows "win_send c s bs w
    = ws_send c s bs (if length bs < 2 ^ 31 then int (length bs) else int (length bs) - 2 ^ 32) w"
  using assms int_of_ssize [of "int (length bs)"] by (simp add: win_send_def int_of_size_def)

text \<open>
  Reading differs in the length alone. A \<open>read\<close> into less than 2 GiB does on both platforms what
  the system's \<open>recv\<close> with that length does.
\<close>

definition read_result :: "bool \<Rightarrow> bytes option \<Rightarrow> int \<times> bytes" where
  "read_result blocks res =
     (case res of
        Some bs \<Rightarrow> (if bs = [] then - 1 else int (length bs), bs)
      | None \<Rightarrow> (if blocks then 0 else - 1, []))"

lemma read_on_posix:
  assumes "s \<noteq> posix_kInvalid" and "0 < len" and "px_recv c s len False w = (res, w1)"
    and "\<And>bs. res = Some bs \<Longrightarrow> length bs < 2147483648"
  shows "tcp_read (posix_net c api) len (tcp_adopt (sint (posix_from_native s))) w
    = (let (n, bs) = read_result (posix_would_block c w1) res in (n, bs, tcp_adopt (sint (posix_from_native s)), w1))"
  using posix.adopted_is_open [of s] assms
  by (cases res)
    (auto simp: tcp_read_def posix_net_def posix_recv_def posix_received_def tcp_adopt_def posix.to_from
      read_result_def int_of_size_small Let_def)

lemma read_on_windows:
  assumes "s \<noteq> win_kInvalid" and "0 < len" and "len < 2147483648" and "ws_recv c s (int len) False w = (res, w1)"
    and "\<And>bs. res = Some bs \<Longrightarrow> length bs < 2147483648"
  shows "tcp_read (win_net c api) len (tcp_adopt (sint (win_from_native s))) w
    = (let (n, bs) = read_result (win_would_block c w1) res in (n, bs, tcp_adopt (sint (win_from_native s)), w1))"
  using windows.adopted_is_open [of s] assms
  by (cases res)
    (auto simp: tcp_read_def win_net_def win_recv_def win_received_def tcp_adopt_def windows.to_from
      read_result_def int_of_size_small Let_def)

end
