(* ===== verification/Timing.thy ===== *)
theory Timing
  imports Prelude
begin

text \<open>
  The clock of \<open>native/hal/src/timing.cpp\<close> and its Arduino wrappers. The world outside the
  HAL is a type \<open>'w\<close>; the operating system's steady clock and sleep are the parameters
  \<open>real_now_ms\<close> and \<open>real_sleep_ms\<close>, functions on that world. Tests may replace both.
\<close>

record 'w os_clock =
  os_now_ms :: "'w \<Rightarrow> u64 \<times> 'w"
  os_sleep_ms :: "u32 \<Rightarrow> 'w \<Rightarrow> 'w"

record 'w timing =
  g_now_override :: "('w \<Rightarrow> u64 \<times> 'w) option"
  g_sleep_override :: "(u32 \<Rightarrow> 'w \<Rightarrow> 'w) option"

definition timing_init :: "'w timing" where
  "timing_init = \<lparr>g_now_override = None, g_sleep_override = None\<rparr>"

definition now_ms :: "'w os_clock \<Rightarrow> 'w timing \<Rightarrow> 'w \<Rightarrow> u64 \<times> 'w" where
  "now_ms os t w = (case g_now_override t of Some f \<Rightarrow> f w | None \<Rightarrow> os_now_ms os w)"

definition sleep_ms :: "'w os_clock \<Rightarrow> 'w timing \<Rightarrow> u32 \<Rightarrow> 'w \<Rightarrow> 'w" where
  "sleep_ms os t ms w =
     (case g_sleep_override t of Some f \<Rightarrow> f ms w | None \<Rightarrow> os_sleep_ms os ms w)"

definition set_clock_for_testing ::
  "('w \<Rightarrow> u64 \<times> 'w) option \<Rightarrow> (u32 \<Rightarrow> 'w \<Rightarrow> 'w) option \<Rightarrow> 'w timing \<Rightarrow> 'w timing" where
  "set_clock_for_testing now sleep t = t\<lparr>g_now_override := now, g_sleep_override := sleep\<rparr>"

text \<open>
  \<open>millis()\<close> casts to \<open>unsigned long\<close>, which has 64 bits on Linux and 32 on Windows: the
  width is the type parameter \<open>'l\<close>. \<open>delay()\<close> narrows an \<open>unsigned long\<close> to \<open>uint32_t\<close>.
\<close>

definition millis :: "'w os_clock \<Rightarrow> 'w timing \<Rightarrow> 'w \<Rightarrow> 'l::len word \<times> 'w" where
  "millis os t w = (let (n, w') = now_ms os t w in (ucast n, w'))"

definition delay :: "'w os_clock \<Rightarrow> 'w timing \<Rightarrow> 'l::len word \<Rightarrow> 'w \<Rightarrow> 'w" where
  "delay os t ms w = sleep_ms os t (ucast ms) w"

end
