(* ===== verification/RootThreads.thy ===== *)
theory RootThreads
  imports Mutex ArduinoFs Timing
begin

text \<open>
  The other two files with a \<open>g_mutex\<close>, \<open>fs_root.cpp\<close> and \<open>timing.cpp\<close>, access by access, as
  several threads run them. The interpretations of \<open>locked_object\<close> show that the accesses of each
  function add up to its definition in \<open>ArduinoFs\<close> and \<open>Timing\<close>. \<open>root()\<close> chooses a temporary
  directory the first time it is asked; that it does so only once is a consequence. Here nobody but
  these functions changes the host's files.
\<close>

section \<open>The root directory\<close>

text \<open>
  \<open>created\<close> is what the system answers to \<open>create_directories\<close>, \<open>fresh\<close> the name that the random
  device leads to; both may differ from call to call. \<open>resolve\<close> uses the mutex through \<open>root()\<close>.
\<close>

datatype root_op = OpSetRoot bool string | OpRoot string | OpResetRoot string

datatype root_result = RootSet bool | RootIs string

datatype root_local =
    RtAt nat
  | RtMade string \<comment> \<open>the result of \<open>make_fresh_temp_dir\<close>, before the assignment\<close>
  | RtOut root_result

fun root_micro :: "root_op \<Rightarrow> root_local \<Rightarrow> host_fs \<Rightarrow> root_local \<times> host_fs" where
  "root_micro (OpSetRoot created path) (RtAt n) fs =
     (if n = 0 then (RtAt 1, fs\<lparr>g_root := path\<rparr>)
      else let (ok, fs1) = create_dirs created (g_root fs) fs in (RtOut (RootSet ok), fs1))"
| "root_micro opr (RtMade dir) fs = (RtAt 2, fs\<lparr>g_root := dir\<rparr>)"
| "root_micro (OpRoot fresh) (RtAt n) fs =
     (if n = 0 then (if g_root fs = [] then RtAt 1 else RtAt 2, fs)
      else if n = 1 then let (dir, fs1) = make_fresh_temp_dir fresh fs in (RtMade dir, fs1)
      else (RtOut (RootIs (g_root fs)), fs))"
| "root_micro (OpResetRoot fresh) (RtAt n) fs =
     (if n = 0 then let (dir, fs1) = make_fresh_temp_dir fresh fs in (RtMade dir, fs1)
      else (RtOut (RootIs (g_root fs)), fs))"
| "root_micro opr l fs = (l, fs)"

fun root_ready :: "root_local \<Rightarrow> (root_result \<times> unit list) option" where
  "root_ready (RtOut r) = Some (r, [])"
| "root_ready l = None"

fun root_atomic :: "root_op \<Rightarrow> host_fs \<Rightarrow> root_result \<times> unit list \<times> host_fs" where
  "root_atomic (OpSetRoot created path) fs = (let (ok, fs1) = fs_set_root created path fs in (RootSet ok, [], fs1))"
| "root_atomic (OpRoot fresh) fs = (let (dir, fs1) = fs_get_root fresh fs in (RootIs dir, [], fs1))"
| "root_atomic (OpResetRoot fresh) fs = (let (dir, fs1) = fs_reset_for_testing fresh fs in (RootIs dir, [], fs1))"

lemma root_alone: "runs_to root_micro root_ready opr (RtAt 0) fs (root_atomic opr fs)"
  by (cases opr)
    (simp_all add: runs_to_exec fs_set_root_def fs_get_root_def fs_reset_for_testing_def make_fresh_temp_dir_def
      Let_def split_def)

interpretation root_lock: locked_object root_micro root_ready "RtAt 0" root_atomic
  by unfold_locales (rule root_alone)

section \<open>The clock\<close>

text \<open>
  \<open>now_ms\<close> asks the clock, the real one or the replacement, while it holds the mutex; the world
  outside is part of what the mutex protects here. \<open>sleep_ms\<close> copies the replacement and sleeps
  after the release.
\<close>

datatype 'w clock_op =
    OpNow | OpSleep u32 | OpSetClock "('w \<Rightarrow> u64 \<times> 'w) option" "(u32 \<Rightarrow> 'w \<Rightarrow> 'w) option"

datatype 'w sleep_call = SleepCall "(u32 \<Rightarrow> 'w \<Rightarrow> 'w) option" u32

datatype 'w clock_local = CkAt nat | CkOut "u64 option" "'w sleep_call list"

fun clock_micro ::
  "'w os_clock \<Rightarrow> 'w clock_op \<Rightarrow> 'w clock_local \<Rightarrow> 'w timing \<times> 'w \<Rightarrow> 'w clock_local \<times> ('w timing \<times> 'w)" where
  "clock_micro os OpNow l (t, w) =
     (let (n, w1) = (case g_now_override t of Some f \<Rightarrow> f w | None \<Rightarrow> os_now_ms os w) in (CkOut (Some n) [], (t, w1)))"
| "clock_micro os (OpSleep ms) l (t, w) = (CkOut None [SleepCall (g_sleep_override t) ms], (t, w))"
| "clock_micro os (OpSetClock now sleep) (CkAt n) (t, w) =
     (if n = 0 then (CkAt 1, (t\<lparr>g_now_override := now\<rparr>, w))
      else (CkOut None [], (t\<lparr>g_sleep_override := sleep\<rparr>, w)))"
| "clock_micro os opr l st = (l, st)"

fun clock_ready :: "'w clock_local \<Rightarrow> (u64 option \<times> 'w sleep_call list) option" where
  "clock_ready (CkOut r cs) = Some (r, cs)"
| "clock_ready l = None"

fun clock_atomic ::
  "'w os_clock \<Rightarrow> 'w clock_op \<Rightarrow> 'w timing \<times> 'w \<Rightarrow> u64 option \<times> 'w sleep_call list \<times> ('w timing \<times> 'w)" where
  "clock_atomic os OpNow (t, w) = (let (n, w1) = now_ms os t w in (Some n, [], (t, w1)))"
| "clock_atomic os (OpSleep ms) (t, w) = (None, [SleepCall (g_sleep_override t) ms], (t, w))"
| "clock_atomic os (OpSetClock now sleep) (t, w) = (None, [], (set_clock_for_testing now sleep t, w))"

text \<open>The call that \<open>sleep_ms\<close> makes after the release is the sleep of \<open>Timing\<close>.\<close>

primrec sleep_effect :: "'w os_clock \<Rightarrow> 'w sleep_call \<Rightarrow> 'w \<Rightarrow> 'w" where
  "sleep_effect os (SleepCall f ms) w = (case f of Some g \<Rightarrow> g ms w | None \<Rightarrow> os_sleep_ms os ms w)"

lemma sleep_effect_is_sleep_ms: "sleep_effect os (SleepCall (g_sleep_override t) ms) w = sleep_ms os t ms w"
  by (simp add: sleep_ms_def)

lemma clock_alone: "runs_to (clock_micro os) clock_ready opr (CkAt 0) st (clock_atomic os opr st)"
  by (cases opr; cases st)
    (simp_all add: runs_to_exec now_ms_def set_clock_for_testing_def Let_def split_def)

interpretation clock_lock: locked_object "clock_micro os" clock_ready "CkAt 0" "clock_atomic os" for os
  by unfold_locales (rule clock_alone)

section \<open>One root for all\<close>

primrec asks_root :: "root_op \<Rightarrow> bool" where
  "asks_root (OpSetRoot created path) \<longleftrightarrow> False"
| "asks_root (OpRoot fresh) \<longleftrightarrow> fresh \<noteq> []"
| "asks_root (OpResetRoot fresh) \<longleftrightarrow> False"

lemma replay_known_root:
  assumes "list_all asks_root oprs" and "g_root fs \<noteq> []"
  shows "replay root_atomic oprs fs = (map (\<lambda>opr. (opr, RootIs (g_root fs), [])) oprs, fs)"
  using assms(1)
proof (induction oprs)
  case Nil
  show ?case by simp
next
  case (Cons opr oprs)
  with assms(2) show ?case
    by (cases opr) (simp_all add: fs_get_root_def)
qed

lemma replay_first_root:
  assumes "list_all asks_root (OpRoot fresh # oprs)" and "g_root fs = []"
  shows "replay root_atomic (OpRoot fresh # oprs) fs
    = (map (\<lambda>opr. (opr, RootIs fresh, [])) (OpRoot fresh # oprs), (add_dirs (leads_to fresh) fs)\<lparr>g_root := fresh\<rparr>)"
  using assms replay_known_root [of oprs "(add_dirs (leads_to fresh) fs)\<lparr>g_root := fresh\<rparr>"]
  by (simp add: fs_get_root_def make_fresh_temp_dir_def)

lemma same_answers:
  "map snd fin = map (\<lambda>opr. (opr, r)) (map (\<lambda>(t, opr, out). opr) fin) \<Longrightarrow> \<forall>(t, opr, out) \<in> set fin. out = r"
  by (induction fin) auto

text \<open>
  However many threads ask for the root at once before anybody has set it, one temporary directory
  is made and all are told its name.
\<close>

theorem root_is_chosen_once:
  assumes "locked_reachable root_micro root_ready (RtAt 0) fs c" and "owner c = None"
    and "g_root fs = []" and "list_all asks_root (map (\<lambda>(t, opr, out). opr) (finished c))"
  shows "if finished c = [] then globals c = fs
    else \<exists>dir. dir \<noteq> [] \<and> (\<forall>(t, opr, out) \<in> set (finished c). out = (RootIs dir, []))
      \<and> globals c = (add_dirs (leads_to dir) fs)\<lparr>g_root := dir\<rparr>"
proof -
  let ?oprs = "map (\<lambda>(t, opr, out). opr) (finished c)"
  have run: "replay root_atomic ?oprs fs = (map snd (finished c), globals c)"
    by (rule root_lock.calls_linearize [OF assms(1,2)])
  show ?thesis
  proof (cases "finished c = []")
    case True
    with run show ?thesis
      by simp
  next
    case False
    then obtain fresh rest where oprs: "?oprs = OpRoot fresh # rest" and "fresh \<noteq> []"
      using assms(4) by (cases "finished c"; cases "fst (snd (hd (finished c)))") auto
    have all: "list_all asks_root (OpRoot fresh # rest)"
      using assms(4) unfolding oprs .
    have "map snd (finished c) = map (\<lambda>opr. (opr, RootIs fresh, [])) ?oprs"
      and "globals c = (add_dirs (leads_to fresh) fs)\<lparr>g_root := fresh\<rparr>"
      using run replay_first_root [OF all assms(3)] unfolding oprs by simp_all
    with False \<open>fresh \<noteq> []\<close> same_answers show ?thesis
      by metis
  qed
qed

end
