(* ===== verification/HardwareSerial.thy ===== *)
theory HardwareSerial
  imports SerialPort PrintStream Timing
begin

text \<open>
  The class \<open>HardwareSerialCompat\<close> of \<open>arduino/HardwareSerial.h\<close>, the firmware's side of the
  virtual UART: its writes feed the modem-to-host queue, so every \<open>Print\<close> method reaches it, and
  \<open>readBytes\<close> polls the host-to-modem queue with a timeout that each byte restarts. The loop of
  \<open>readBytes\<close> is a partial function, which \<open>readBytes_returns\<close> shows to be total for a 64-bit
  \<open>unsigned long\<close>. (\<open>begin\<close> is in theory \<open>SerialPort\<close>.)
\<close>

section \<open>Writing\<close>

text \<open>The state of a writer: the callbacks made so far, and the port.\<close>

definition hw_write ::
  "bytes \<Rightarrow> 'cb serial_call list \<times> 'cb serial_port \<Rightarrow> nat \<times> 'cb serial_call list \<times> 'cb serial_port" where
  "hw_write bs st =
     (let (calls, sp) = st; (n, new, sp1) = serial_write bs sp in (n, calls @ new, sp1))"

definition hw_write_byte ::
  "u8 \<Rightarrow> 'cb serial_call list \<times> 'cb serial_port \<Rightarrow> nat \<times> 'cb serial_call list \<times> 'cb serial_port" where
  "hw_write_byte b st = hw_write [b] st"

definition hw_available :: "'cb serial_port \<Rightarrow> int" where
  "hw_available sp = serial_available sp"

definition hw_read :: "'cb serial_port \<Rightarrow> int \<times> 'cb serial_port" where
  "hw_read sp = serial_read sp"

declare hw_read_def [simp]

definition hw_peek :: "'cb serial_port \<Rightarrow> int" where
  "hw_peek sp = serial_peek sp"

definition hw_available_for_write :: "'cb serial_port \<Rightarrow> int" where
  "hw_available_for_write sp = available_for_write sp"

definition hw_flush :: "'cb serial_port \<Rightarrow> 'cb serial_port" where
  "hw_flush sp = sp"

definition hw_set_rx_buffer_size :: "nat \<Rightarrow> 'cb serial_port \<Rightarrow> 'cb serial_port" where
  "hw_set_rx_buffer_size n sp = sp"

interpretation serial_sink: byte_sink "\<lambda>st. g_rx_queue (snd st)" hw_write
  by unfold_locales
    (simp_all add: hw_write_def serial_write_def Let_def split_def)

section \<open>\<open>readBytes\<close>\<close>

text \<open>
  The member \<open>timeoutMs_\<close>, initially 1000, is an argument; \<open>'l\<close> is the width of
  \<open>unsigned long\<close>. Other threads may feed the input queue at any time: \<open>arrivals\<close> is what they
  fed since the last poll.
\<close>

definition default_timeout_ms :: "'l::len word" where
  "default_timeout_ms = 1000"

definition set_timeout :: "'l::len word \<Rightarrow> 'l word \<Rightarrow> 'l word" where
  "set_timeout ms old = ms"

definition now_ulong :: "'w os_clock \<Rightarrow> 'w timing \<Rightarrow> 'w \<Rightarrow> 'l::len word \<times> 'w" where
  "now_ulong os t w = (let (n, w1) = now_ms os t w in (ucast n, w1))"

partial_function (option) read_bytes_loop ::
  "'w os_clock \<Rightarrow> 'w timing \<Rightarrow> ('w \<Rightarrow> bytes \<times> 'w) \<Rightarrow> 'l::len word \<Rightarrow> nat \<Rightarrow> 'l word \<Rightarrow> bytes
     \<Rightarrow> 'cb serial_port \<Rightarrow> 'w \<Rightarrow> (nat \<times> bytes \<times> 'cb serial_port \<times> 'w) option"
where
  "read_bytes_loop os t arrivals timeout len deadline buf sp w =
     (if \<not> length buf < len then Some (length buf, buf, sp, w)
      else
        let (fed, w1) = arrivals w; (c, sp1) = hw_read (feed_input fed sp) in
        if 0 \<le> c
        then (let (now, w2) = now_ulong os t w1
              in read_bytes_loop os t arrivals timeout len (now + timeout)
                   (buf @ [word_of_int c]) sp1 w2)
        else
          let (now, w2) = now_ulong os t w1 in
          if deadline \<le> now then Some (length buf, buf, sp1, w2)
          else read_bytes_loop os t arrivals timeout len deadline buf sp1 (sleep_ms os t 1 w2))"

definition readBytes ::
  "'w os_clock \<Rightarrow> 'w timing \<Rightarrow> ('w \<Rightarrow> bytes \<times> 'w) \<Rightarrow> 'l::len word \<Rightarrow> nat
     \<Rightarrow> 'cb serial_port \<Rightarrow> 'w \<Rightarrow> (nat \<times> bytes \<times> 'cb serial_port \<times> 'w) option" where
  "readBytes os t arrivals timeout len sp w =
     (let (now, w1) = now_ulong os t w
      in read_bytes_loop os t arrivals timeout len (now + timeout) [] sp w1)"

section \<open>What the loop relies on\<close>

text \<open>
  The clock, real or overridden, never goes back and a sleep of a millisecond advances it, up to
  the largest 64-bit value, where it stays; what other threads fed so far (\<open>ftotal\<close>) grows by the
  arrivals and by nothing else.
\<close>

definition serial_clock ::
  "'w os_clock \<Rightarrow> 'w timing \<Rightarrow> ('w \<Rightarrow> bytes \<times> 'w) \<Rightarrow> bool" where
  "serial_clock os t arrivals \<longleftrightarrow>
     (\<forall>w. let now = unat (fst (now_ms os t w)) in
        now \<le> unat (fst (now_ms os t (snd (arrivals w))))
        \<and> now \<le> unat (fst (now_ms os t (snd (now_ms os t w))))
        \<and> min (now + 1) (2 ^ 64 - 1) \<le> unat (fst (now_ms os t (sleep_ms os t 1 w))))"

definition counts_arrivals ::
  "'w os_clock \<Rightarrow> 'w timing \<Rightarrow> ('w \<Rightarrow> bytes \<times> 'w) \<Rightarrow> ('w \<Rightarrow> bytes) \<Rightarrow> bool" where
  "counts_arrivals os t arrivals ftotal \<longleftrightarrow>
     (\<forall>w. ftotal (snd (arrivals w)) = ftotal w @ fst (arrivals w)
        \<and> ftotal (snd (now_ms os t w)) = ftotal w
        \<and> ftotal (sleep_ms os t 1 w) = ftotal w)"

definition clock_value :: "'w os_clock \<Rightarrow> 'w timing \<Rightarrow> 'w \<Rightarrow> nat" where
  "clock_value os t w = unat (fst (now_ms os t w))"

lemma unat_u64_bound: "unat (x :: u64) \<le> 2 ^ 64 - 1"
proof -
  have "unat x < 2 ^ LENGTH(64)"
    by (rule unsigned_less)
  then show ?thesis by simp
qed

lemma clock_value_bound: "clock_value os t w \<le> 2 ^ 64 - 1"
  unfolding clock_value_def by (rule unat_u64_bound)

lemma serial_clock_steps:
  assumes "serial_clock os t arrivals"
  shows "clock_value os t w \<le> clock_value os t (snd (arrivals w))"
    "clock_value os t w \<le> clock_value os t (snd (now_ms os t w))"
    "min (clock_value os t w + 1) (2 ^ 64 - 1) \<le> clock_value os t (sleep_ms os t 1 w)"
  using assms unfolding serial_clock_def clock_value_def Let_def by blast+

lemma read_bytes_loop_returns:
  fixes deadline timeout :: u64
  assumes clk: "serial_clock os t arrivals" and "length buf \<le> len"
  shows "\<exists>res. read_bytes_loop os t arrivals timeout len deadline buf sp w = Some res"
proof (induction "(len - length buf, 2 ^ 64 - clock_value os t w)" arbitrary: buf deadline sp w
    rule: wf_induct_rule [OF wf_lex_prod [OF wf_less_than wf_less_than]])
  case 1
  note steps = serial_clock_steps [OF clk]
  obtain fed w1 where fed: "arrivals w = (fed, w1)"
    by (cases "arrivals w")
  obtain c sp1 where read: "serial_read (feed_input fed sp) = (c, sp1)"
    by (cases "serial_read (feed_input fed sp)")
  obtain now w2 where now: "now_ms os t w1 = (now, w2)"
    by (cases "now_ms os t w1")
  have mono: "clock_value os t w \<le> clock_value os t w1" "clock_value os t w1 \<le> clock_value os t w2"
    using steps(1) [of w] steps(2) [of w1] fed now by simp_all
  have now_value: "unat now = clock_value os t w1"
    using now by (simp add: clock_value_def)
  show ?case
  proof (cases "length buf < len")
    case False
    then show ?thesis
      by (subst read_bytes_loop.simps) simp
  next
    case more: True
    show ?thesis
    proof (cases "0 \<le> c")
      case True
      have "((len - length (buf @ [word_of_int c]), 2 ^ 64 - clock_value os t w2),
          len - length buf, 2 ^ 64 - clock_value os t w) \<in> less_than <*lex*> less_than"
        using more by auto
      from "1" [OF this, of "now + timeout" sp1] show ?thesis
        by (subst read_bytes_loop.simps) (simp add: more True fed read now now_ulong_def)
    next
      case no: False
      show ?thesis
      proof (cases "deadline \<le> now")
        case True
        then show ?thesis
          by (subst read_bytes_loop.simps) (simp add: more no fed read now now_ulong_def)
      next
        case False
        then have "unat now < 2 ^ 64 - 1"
          using unat_u64_bound [of deadline] by (simp add: word_le_nat_alt)
        then have "clock_value os t w < clock_value os t (sleep_ms os t 1 w2)"
          using steps(3) [of w2] mono now_value by linarith
        moreover have "clock_value os t (sleep_ms os t 1 w2) \<le> 2 ^ 64 - 1"
          by (rule clock_value_bound)
        ultimately have "((len - length buf, 2 ^ 64 - clock_value os t (sleep_ms os t 1 w2)),
            len - length buf, 2 ^ 64 - clock_value os t w) \<in> less_than <*lex*> less_than"
          by simp
        from "1" [OF this, of deadline sp1] show ?thesis
          by (subst read_bytes_loop.simps) (simp add: more no False fed read now now_ulong_def)
      qed
    qed
  qed
qed

text \<open>What a finished loop has done, relative to the bytes collected before it.\<close>

definition read_bytes_ok ::
  "('w \<Rightarrow> bytes) \<Rightarrow> nat \<Rightarrow> bytes \<Rightarrow> 'cb serial_port \<Rightarrow> 'w
     \<Rightarrow> nat \<times> bytes \<times> 'cb serial_port \<times> 'w \<Rightarrow> bool" where
  "read_bytes_ok ftotal len buf sp w res \<longleftrightarrow>
     (let (n, out, sp', w') = res in
      n = length out \<and> n \<le> len
      \<and> (\<exists>fed got. ftotal w' = ftotal w @ fed \<and> out = buf @ got \<and> g_input sp @ fed = got @ g_input sp')
      \<and> (n < len \<longrightarrow> g_input sp' = []))"

lemma read_bytes_okI:
  "n = length out \<Longrightarrow> n \<le> len \<Longrightarrow> ftotal w' = ftotal w @ fed \<Longrightarrow> out = buf @ got \<Longrightarrow>
     g_input sp @ fed = got @ g_input sp' \<Longrightarrow> (n < len \<Longrightarrow> g_input sp' = []) \<Longrightarrow>
     read_bytes_ok ftotal len buf sp w (n, out, sp', w')"
  by (auto simp: read_bytes_ok_def)

lemma read_bytes_loop_result:
  fixes timeout :: "'l::len word"
  assumes "read_bytes_loop os t arrivals timeout len deadline buf sp w = Some res"
    and "counts_arrivals os t arrivals ftotal" and "length buf \<le> len"
  shows "read_bytes_ok ftotal len buf sp w res"
  using assms
proof (induction os t arrivals timeout len deadline buf sp w res rule: read_bytes_loop.raw_induct [rotated 1, consumes 1, case_names 1])
  case (1 loop os t arrivals timeout len deadline buf sp w res)
  note laws = "1.prems"(1)
  obtain fed w1 where fed: "arrivals w = (fed, w1)"
    by (cases "arrivals w")
  obtain c sp1 where read: "serial_read (feed_input fed sp) = (c, sp1)"
    by (cases "serial_read (feed_input fed sp)")
  obtain now :: "'l word" and w2 where now: "now_ulong os t w1 = (now, w2)"
    by (cases "now_ulong os t w1 :: 'l word \<times> _")
  have c: "c = head_or_neg1 (g_input sp @ fed)" and rest: "g_input sp1 = tl (g_input sp @ fed)"
    using inq.poll_value [of "feed_input fed sp"] inq.poll_rest [of "feed_input fed sp"] read by simp_all
  have t1: "ftotal w1 = ftotal w @ fed"
    using laws fed unfolding counts_arrivals_def by (metis fst_conv snd_conv)
  have t2: "ftotal w2 = ftotal w1"
    using laws now unfolding counts_arrivals_def by (auto simp: now_ulong_def split_def Let_def)
  have t3: "ftotal (sleep_ms os t 1 w2) = ftotal w2"
    using laws unfolding counts_arrivals_def by blast
  show ?case
  proof (cases "length buf < len")
    case False
    then show ?thesis
      using "1.hyps" "1.prems"(2) by (auto intro!: read_bytes_okI [of _ _ _ _ _ _ "[]" _ "[]"])
  next
    case more: True
    show ?thesis
    proof (cases "0 \<le> c")
      case True
      then obtain b bs where split: "g_input sp @ fed = b # bs" "c = uint b"
        using c by (cases "g_input sp @ fed") simp_all
      have "loop os t arrivals timeout len (now + timeout) (buf @ [b]) sp1 w2 = Some res"
        using "1.hyps" more True fed read now split by simp
      from "1.IH" [OF this laws] more
      have "read_bytes_ok ftotal len (buf @ [b]) sp1 w2 res"
        by simp
      then obtain n out sp' w' fed2 got where res: "res = (n, out, sp', w')" "n = length out" "n \<le> len"
          "ftotal w' = ftotal w2 @ fed2" "out = (buf @ [b]) @ got" "g_input sp1 @ fed2 = got @ g_input sp'"
          "n < len \<longrightarrow> g_input sp' = []"
        by (auto simp: read_bytes_ok_def)
      show ?thesis
        unfolding res(1)
        by (rule read_bytes_okI [of _ _ _ _ _ _ "fed @ fed2" _ "b # got"])
          (use res t1 t2 rest split in \<open>simp_all\<close>, metis append_Cons append_assoc)
    next
      case no: False
      then have none: "g_input sp = []" "fed = []"
        using c by (cases "g_input sp @ fed"; simp)+
      show ?thesis
      proof (cases "deadline \<le> now")
        case True
        then have "res = (length buf, buf, sp1, w2)"
          using "1.hyps" more no fed read now by simp
        then show ?thesis
          using "1.prems"(2) rest none t1 t2
          by (auto intro!: read_bytes_okI [of _ _ _ _ _ _ "[]" _ "[]"])
      next
        case False
        have "loop os t arrivals timeout len deadline buf sp1 (sleep_ms os t 1 w2) = Some res"
          using "1.hyps" more no False fed read now by simp
        from "1.IH" [OF this laws "1.prems"(2)] show ?thesis
          using rest none t1 t2 t3 by (simp add: read_bytes_ok_def)
      qed
    qed
  qed
qed
section \<open>A clock and a feeder for concrete instances\<close>

text \<open>The world is the time and the bytes that arrive once it is past 1005.\<close>

type_synonym demo_world = "nat \<times> bytes \<times> bytes"

definition demo_os :: "demo_world os_clock" where
  "demo_os =
     \<lparr>os_now_ms = (\<lambda>w. (word_of_nat (min (fst w) (2 ^ 64 - 1)), w)),
      os_sleep_ms = (\<lambda>ms w. (fst w + unat ms, snd w))\<rparr>"

definition demo_arrivals :: "demo_world \<Rightarrow> bytes \<times> demo_world" where
  "demo_arrivals w =
     (case w of (now, coming, came) \<Rightarrow>
        if now < 1005 then ([], w) else (coming, (now, [], came @ coming)))"

lemma demo_now: "unat (fst (now_ms demo_os timing_init w)) = min (fst w) (2 ^ 64 - 1)"
  by (simp add: now_ms_def timing_init_def demo_os_def unsigned_of_nat take_bit_eq_mod)

lemma demo_clock: "serial_clock demo_os timing_init demo_arrivals"
proof -
  have "snd (now_ms demo_os timing_init w) = w" "fst (snd (demo_arrivals w)) = fst w"
    "fst (sleep_ms demo_os timing_init 1 w) = fst w + 1" for w
    by (auto simp: now_ms_def sleep_ms_def timing_init_def demo_os_def demo_arrivals_def split: prod.split)
  then show ?thesis
    by (simp add: serial_clock_def demo_now Let_def) linarith
qed

lemma demo_counts: "counts_arrivals demo_os timing_init demo_arrivals (\<lambda>w. snd (snd w))"
  by (auto simp: counts_arrivals_def now_ms_def sleep_ms_def timing_init_def demo_os_def
      demo_arrivals_def split: prod.split)

section \<open>Properties\<close>

text \<open>
  C25: \<open>readBytes\<close> returns, with the next bytes of the host. For a 64-bit \<open>unsigned long\<close> and a clock
  that advances, the loop ends, whatever arrives meanwhile; the bytes stored are the next bytes of
  the input, those that were queued first and then those that arrived, none lost and none
  repeated, at most as many as asked for, and fewer only where the queue was found empty.
\<close>

theorem readBytes_returns:
  fixes timeout :: u64
  assumes "serial_clock os t arrivals" and "counts_arrivals os t arrivals ftotal"
  shows "\<exists>n out sp' w' fed. readBytes os t arrivals timeout len sp w = Some (n, out, sp', w')
    \<and> n = length out \<and> n \<le> len \<and> ftotal w' = ftotal w @ fed
    \<and> g_input sp @ fed = out @ g_input sp' \<and> (n < len \<longrightarrow> g_input sp' = [])"
proof -
  obtain now :: u64 and w1 where now: "now_ulong os t w = (now, w1)"
    by (cases "now_ulong os t w :: u64 \<times> _")
  have "w1 = snd (now_ms os t w)"
    using now by (auto simp: now_ulong_def split_def Let_def)
  then have t1: "ftotal w1 = ftotal w"
    using assms(2) unfolding counts_arrivals_def by blast
  obtain res where run: "read_bytes_loop os t arrivals timeout len (now + timeout) [] sp w1 = Some res"
    using read_bytes_loop_returns [OF assms(1), of "[]" len timeout "now + timeout" sp w1] by auto
  have ok: "read_bytes_ok ftotal len [] sp w1 res"
    by (rule read_bytes_loop_result [OF run assms(2)]) simp
  have "readBytes os t arrivals timeout len sp w = Some res"
    using run now by (simp add: readBytes_def)
  with ok t1 show ?thesis
    by (cases res) (auto simp: read_bytes_ok_def)
qed

theorem readBytes_returns_witness:
  "\<exists>n out sp' w' fed. readBytes demo_os timing_init demo_arrivals (1000 :: u64) 3
       (feed_input [1] (serial_init :: nat serial_port)) (1000, [2, 3], []) = Some (n, out, sp', w')
     \<and> n = length out \<and> n \<le> 3 \<and> snd (snd w') = fed \<and> [1] @ fed = out @ g_input sp'
     \<and> (n < 3 \<longrightarrow> g_input sp' = [])"
  using readBytes_returns [OF demo_clock demo_counts, of 1000 3
      "feed_input [1] (serial_init :: nat serial_port)" "(1000, [2, 3], [])"]
  by (simp add: serial_init_def)

text \<open>
  On Windows \<open>readBytes\<close> may give up at once. There \<open>unsigned long\<close> has 32 bits; where the
  low 32 bits of the clock plus the timeout exceed them, the deadline wraps round to a value in
  the past, and a call that finds no byte returns 0 without waiting at all.
\<close>

theorem readBytes_deadline_wraps:
  fixes timeout :: u32
  assumes "now_ms os t w = (m, w1)" and "arrivals w1 = ([], w2)" and "now_ms os t w2 = (m', w3)"
    and "g_input sp = []" and "0 < len"
    and "unat (ucast m :: u32) \<le> unat (ucast m' :: u32)"
    and "2 ^ 32 \<le> unat (ucast m :: u32) + unat timeout"
  shows "readBytes os t arrivals timeout len sp w = Some (0, [], sp, w3)"
proof -
  have "unat ((ucast m :: u32) + timeout) = (unat (ucast m :: u32) + unat timeout) mod 2 ^ 32"
    by (simp add: unat_word_ariths)
  moreover have "unat timeout < 2 ^ LENGTH(32)" "unat (ucast m :: u32) < 2 ^ LENGTH(32)"
    by (rule unsigned_less)+
  ultimately have "unat ((ucast m :: u32) + timeout) \<le> unat (ucast m :: u32)"
    using assms(7) by (simp add: mod_if) linarith
  then have "(ucast m :: u32) + timeout \<le> ucast m'"
    using assms(6) by (simp add: word_le_nat_alt)
  then show ?thesis
    using assms(1-5)
    by (simp add: readBytes_def now_ulong_def read_bytes_loop.simps feed_input_def serial_read_def)
qed

theorem readBytes_deadline_wraps_witness:
  "readBytes demo_os timing_init demo_arrivals (1000 :: u32) 8 (serial_init :: nat serial_port)
     (4294966500, [], []) = Some (0, [], serial_init, (4294966500, [], []))"
proof (rule readBytes_deadline_wraps)
  let ?w = "(4294966500, [], []) :: demo_world"
  show "now_ms demo_os timing_init ?w = (4294966500, ?w)"
    by (simp add: now_ms_def timing_init_def demo_os_def)
  then show "now_ms demo_os timing_init ?w = (4294966500, ?w)" .
  show "demo_arrivals ?w = ([], ?w)"
    by (simp add: demo_arrivals_def)
qed (simp_all add: serial_init_def)

text \<open>
  C26: what the firmware prints reaches the host unchanged. Whatever sequence of \<open>print\<close>,
  \<open>println\<close> and \<open>printf\<close> calls it makes on the serial port, the modem-to-host queue grows by exactly
  the concatenated texts in order, each C string up to its NUL, each \<open>println\<close> followed by CR LF,
  each \<open>printf\<close> cut after 255 characters; the counts returned add up to its length.
\<close>

theorem prints_reach_the_host:
  "fst (print_run hw_write cs st) = length (concat (map printed_text cs))
     \<and> g_rx_queue (snd (snd (print_run hw_write cs st)))
         = g_rx_queue (snd st) @ bytes_of (concat (map printed_text cs))"
  by (rule serial_sink.print_run_takes)

end
