(* ===== verification/ArduinoCore.thy ===== *)
theory ArduinoCore
  imports Prelude
begin

text \<open>
  The free functions of \<open>arduino/Arduino.h\<close> that compute: \<open>itoa\<close> on 32-bit words, the random
  numbers, the format that \<open>dtostrf\<close> builds; and the fixed answers of \<open>arduino/ESP.h\<close>. The C
  library's \<open>rand\<close> and its printing of a double are parameters. (\<open>millis\<close> and \<open>delay\<close> are in
  theory \<open>Timing\<close>, the pin functions in theory \<open>Pins\<close>.)
\<close>

section \<open>\<open>itoa\<close>\<close>

text \<open>\<open>static_cast<char>\<close> of the digit's \<open>int\<close>.\<close>

definition itoa_char :: "u32 \<Rightarrow> char" where
  "itoa_char d =
     (let digit = sint d in
      if digit < 10 then char_of (48 + digit) else char_of (97 + (digit - 10)))"

lemma unat_div_less:
  assumes "\<not> base \<le> (1 :: u32)" and "u div base \<noteq> 0"
  shows "unat (u div base) < unat u"
proof -
  have "1 < unat base"
    using assms(1) by (simp add: word_le_nat_alt not_le)
  moreover have "unat u \<noteq> 0"
    using assms(2) by (auto simp: unat_eq_0)
  ultimately show ?thesis
    by (simp add: unat_div_distrib)
qed

text \<open>
  The \<open>do\<close> loop, least significant digit first. For the bases 0 and 1 it has no meaning
  (a division by zero, an overrun of the buffer): \<open>None\<close>.
\<close>

function itoa_digits :: "u32 \<Rightarrow> u32 \<Rightarrow> string option" where
  "itoa_digits base u =
     (if base \<le> 1 then None
      else
        let c = itoa_char (u mod base); u' = u div base in
        if u' \<noteq> 0 then map_option (\<lambda>s. c # s) (itoa_digits base u') else Some [c])"
  by pat_completeness auto

termination
  by (relation "measure (\<lambda>(base, u). unat u)") (auto simp: unat_div_less)

declare itoa_digits.simps [simp del]

definition itoa :: "int \<Rightarrow> int \<Rightarrow> string option" where
  "itoa val base =
     (let negative = (base = 10 \<and> val < 0);
          uvalue = (if negative then word_of_int (- (val + 1)) + 1 else word_of_int val :: u32)
      in map_option (\<lambda>digits. (if negative then ''-'' else []) @ rev digits)
           (itoa_digits (word_of_int base) uvalue))"

section \<open>Random numbers, \<open>dtostrf\<close>, \<open>ESP\<close>\<close>

text \<open>\<open>srand\<close> and \<open>r\<close>, what \<open>std::rand()\<close> returns, are the C library's.\<close>

definition randomSeed :: "(u32 \<Rightarrow> 'w \<Rightarrow> 'w) \<Rightarrow> u64 \<Rightarrow> 'w \<Rightarrow> 'w" where
  "randomSeed srand seed w = srand (ucast seed) w"


definition random_below :: "int \<Rightarrow> int \<Rightarrow> int" where
  "random_below r bound = (if 0 < bound then r mod bound else 0)"

definition random_between :: "int \<Rightarrow> int \<Rightarrow> int \<Rightarrow> int" where
  "random_between r lo hi = (if lo < hi then lo + r mod (hi - lo) else lo)"

definition dtostrf_format :: "8 word \<Rightarrow> u8 \<Rightarrow> string" where
  "dtostrf_format width prec = ''%'' @ dec_of_int (sint width) @ ''.'' @ dec_of_nat (unat prec) @ ''f''"

text \<open>\<open>print_double\<close> is the C library's rendering of the value in a format.\<close>

definition dtostrf :: "(string \<Rightarrow> 'd \<Rightarrow> string) \<Rightarrow> 'd \<Rightarrow> 8 word \<Rightarrow> u8 \<Rightarrow> string" where
  "dtostrf print_double val width prec =
     print_double (c_view (vsnprintf_buf 32 (Some (dtostrf_format width prec)))) val"

definition getSdkVersion :: string where "getSdkVersion = ''zimodem-host''"
definition getFlashChipId :: u32 where "getFlashChipId = 0"
definition getFlashChipRealSize :: u32 where "getFlashChipRealSize = 4 * 1024 * 1024"
definition getFlashChipSize :: u32 where "getFlashChipSize = 4 * 1024 * 1024"
definition getCpuFreqMHz :: u32 where "getCpuFreqMHz = 240"
definition getFreeHeap :: u32 where "getFreeHeap = 0"
definition getSketchSize :: u32 where "getSketchSize = 0"
definition getChipRevision :: u32 where "getChipRevision = 0"

lemma random_below_bounds: "0 \<le> r \<Longrightarrow> 0 < bound \<Longrightarrow> 0 \<le> random_below r bound \<and> random_below r bound < bound"
  by (simp add: random_below_def)

lemma random_between_bounds:
  "lo < hi \<Longrightarrow> lo \<le> random_between r lo hi \<and> random_between r lo hi < hi"
proof -
  assume "lo < hi"
  then have "0 \<le> r mod (hi - lo)" "r mod (hi - lo) < hi - lo"
    by simp_all
  with \<open>lo < hi\<close> show ?thesis
    unfolding random_between_def by simp
qed

text \<open>The format fits the 32 characters that \<open>dtostrf\<close> reserves for it.\<close>

lemma dtostrf_format_fits: "length (dtostrf_format width prec) \<le> 10"
proof -
  have "unat prec < 2 ^ LENGTH(8)"
    by (rule unsigned_less)
  then have "length (dec_of_nat (unat prec)) \<le> 3"
    by (intro dec_of_nat_length) simp_all
  moreover have "- 128 \<le> sint width" "sint width < 128"
    using sint_greater_eq [of width] sint_less [of width] by simp_all
  then have "nat (- sint width) < 10 ^ 3" "nat (sint width) < 10 ^ 3"
    by simp_all
  then have "length (dec_of_nat (nat (- sint width))) \<le> 3" "length (dec_of_nat (nat (sint width))) \<le> 3"
    by (intro dec_of_nat_length; simp)+
  then have "length (dec_of_int (sint width)) \<le> 4"
    by (simp add: dec_of_int_def)
  ultimately show ?thesis
    by (simp add: dtostrf_format_def)
qed

section \<open>The digits denote the value\<close>

text \<open>Reading a digit as \<open>itoa\<close> writes it, and a number, least significant digit first.\<close>

definition digit_value :: "char \<Rightarrow> nat" where
  "digit_value c = (let n = of_char c in if n \<le> 57 then n - 48 else n - 87)"

primrec digits_value :: "nat \<Rightarrow> string \<Rightarrow> nat" where
  "digits_value base [] = 0"
| "digits_value base (c # s) = digit_value c + base * digits_value base s"

lemma sint_small:
  assumes "unat (d :: u32) < 36"
  shows "sint d = int (unat d)"
proof -
  have "uint d = int (unat d)"
    by (rule uint_nat)
  with assms sint_word_small [of d] show ?thesis
    by linarith
qed

lemma digit_value_char:
  assumes "unat (d :: u32) < 36"
  shows "digit_value (itoa_char d) = unat d"
proof (cases "unat d < 10")
  case True
  have eq: "48 + int (unat d) = int (48 + unat d)" and c: "int (unat d) < 10"
    using True by linarith+
  have "itoa_char d = char_of (48 + unat d)"
    unfolding itoa_char_def Let_def sint_small [OF assms] if_P [OF c] eq by (rule char_of_nat)
  with True show ?thesis
    by (simp add: digit_value_def)
next
  case False
  have eq: "97 + (int (unat d) - 10) = int (87 + unat d)" and c: "\<not> int (unat d) < 10"
    using False by linarith+
  have "itoa_char d = char_of (87 + unat d)"
    unfolding itoa_char_def Let_def sint_small [OF assms] if_not_P [OF c] eq by (rule char_of_nat)
  with False assms show ?thesis
    by (simp add: digit_value_def)
qed

lemma itoa_digits_value:
  "itoa_digits base u = Some ds \<Longrightarrow> unat base \<le> 36 \<Longrightarrow>
     digits_value (unat base) ds = unat u \<and> ds \<noteq> []"
proof (induction base u arbitrary: ds rule: itoa_digits.induct)
  case (1 base u)
  have base: "\<not> base \<le> 1"
    using "1.prems"(1) by (auto simp: itoa_digits.simps [of base u])
  then have "unat (u mod base) < unat base"
    by (simp add: unat_mod_distrib word_le_nat_alt)
  then have digit: "digit_value (itoa_char (u mod base)) = unat u mod unat base"
    using "1.prems"(2) by (simp add: digit_value_char unat_mod_distrib)
  show ?case
  proof (cases "u div base = 0")
    case True
    have "unat u div unat base = 0"
      using True by (metis unat_0 unat_div_distrib)
    then have "unat u mod unat base = unat u"
      using base by (metis mod_div_trivial mult_0_right mult_div_mod_eq add_0)
    moreover have "ds = [itoa_char (u mod base)]"
      using "1.prems"(1) True base by (simp add: itoa_digits.simps [of base u] Let_def)
    ultimately show ?thesis
      using digit by simp
  next
    case False
    then obtain rest where rest: "itoa_digits base (u div base) = Some rest"
      and ds: "ds = itoa_char (u mod base) # rest"
      using "1.prems"(1) base by (auto simp: itoa_digits.simps [of base u] Let_def)
    have "digits_value (unat base) rest = unat u div unat base"
      using "1.IH" [OF base refl refl False rest "1.prems"(2)] by (simp add: unat_div_distrib)
    then show ?thesis
      using digit ds by simp
  qed
qed

lemma itoa_digits_length:
  "itoa_digits base u = Some ds \<Longrightarrow> 0 < k \<Longrightarrow> unat u < 2 ^ k \<Longrightarrow> length ds \<le> k"
proof (induction base u arbitrary: ds k rule: itoa_digits.induct)
  case (1 base u)
  have base: "\<not> base \<le> 1"
    using "1.prems"(1) by (auto simp: itoa_digits.simps [of base u])
  show ?case
  proof (cases "u div base = 0")
    case True
    with "1.prems" base show ?thesis
      by (auto simp: itoa_digits.simps [of base u] Let_def)
  next
    case False
    then obtain rest where rest: "itoa_digits base (u div base) = Some rest"
      and ds: "ds = itoa_char (u mod base) # rest"
      using "1.prems"(1) base by (auto simp: itoa_digits.simps [of base u] Let_def)
    have two: "2 \<le> unat base"
      using base by (simp add: word_le_nat_alt)
    have half: "unat (u div base) \<le> unat u div 2"
      using two by (simp add: unat_div_distrib div_le_mono2)
    have "unat (u div base) \<noteq> 0"
      using False by (simp add: unat_eq_0)
    then obtain j where k: "k = Suc j" "0 < j"
      using half "1.prems"(2,3) by (cases k; cases "k - 1") auto
    have "unat (u div base) < 2 ^ j"
      using half "1.prems"(3) k by simp
    from "1.IH" [OF base refl refl False rest k(2) this] show ?thesis
      using ds k by simp
  qed
qed

lemma itoa_digits_total: "\<not> base \<le> 1 \<Longrightarrow> \<exists>ds. itoa_digits base u = Some ds"
proof (induction base u rule: itoa_digits.induct)
  case (1 base u)
  then show ?case
    by (cases "u div base = 0") (auto simp: itoa_digits.simps [of base u] Let_def)
qed

lemma unat_word_of_int: "int (unat (word_of_int i :: u32)) = i mod 2 ^ 32"
proof -
  have "int (unat (word_of_int i :: u32)) = uint (word_of_int i :: u32)"
    by (rule uint_nat [symmetric])
  also have "\<dots> = i mod 2 ^ 32"
    by (simp add: uint_word_of_int)
  finally show ?thesis .
qed

section \<open>Properties\<close>

text \<open>
  C29: \<open>itoa\<close> prints the value and stays in its buffer. For every 32-bit \<open>int\<close> and every base from 2 to
  36 the loop ends after at most 32 digits, the size of the local buffer; read back in that
  base they are the magnitude of the value in base 10, with a minus sign before a negative one (the
  least \<open>int\<close>, whose negation overflows, included), and its two's complement in any other base.
\<close>

theorem itoa_prints_the_value:
  assumes "2 \<le> base" and "base \<le> 36" and "- 2147483648 \<le> val" and "val < 2147483648"
  shows "\<exists>digits. itoa val base = Some ((if base = 10 \<and> val < 0 then ''-'' else []) @ rev digits)
    \<and> digits \<noteq> [] \<and> length digits \<le> 32
    \<and> int (digits_value (nat base) digits) = (if base = 10 then \<bar>val\<bar> else val mod 2 ^ 32)"
proof -
  let ?b = "word_of_int base :: u32"
  let ?neg = "base = 10 \<and> val < 0"
  let ?u = "if ?neg then word_of_int (- (val + 1)) + 1 else word_of_int val :: u32"
  have "int (unat ?b) = base"
    unfolding unat_word_of_int using assms(1,2) by simp
  then have unat_b: "unat ?b = nat base"
    by linarith
  then have b: "unat ?b = nat base" "unat ?b \<le> 36" "\<not> ?b \<le> 1"
    using assms(1,2) unfolding word_le_nat_alt unat_b by simp_all
  have neg: "word_of_int (- (val + 1)) + 1 = (word_of_int (- val) :: u32)"
    by (metis add.commute add_uminus_conv_diff diff_add_cancel minus_add_distrib of_int_1 of_int_add)
  have u: "int (unat ?u) = (if base = 10 then \<bar>val\<bar> else val mod 2 ^ 32)"
  proof (cases "?neg")
    case True
    have "int (unat ?u) = (- val) mod 2 ^ 32"
      unfolding if_P [OF True] neg by (rule unat_word_of_int)
    also have "\<dots> = - val"
      using True assms(3) by (intro mod_pos_pos_trivial) simp_all
    finally show ?thesis
      using True by simp
  next
    case False
    have "int (unat ?u) = val mod 2 ^ 32"
      unfolding if_not_P [OF False] by (rule unat_word_of_int)
    then show ?thesis
      using False assms(4) by auto
  qed
  obtain ds where ds: "itoa_digits ?b ?u = Some ds"
    using itoa_digits_total [OF b(3)] by blast
  have "unat ?u < 2 ^ LENGTH(32)"
    by (rule unsigned_less)
  then have "length ds \<le> 32"
    using itoa_digits_length [OF ds, of 32] by simp
  moreover have "digits_value (nat base) ds = unat ?u" "ds \<noteq> []"
    using itoa_digits_value [OF ds b(2)] b(1) by simp_all
  moreover have "itoa val base = Some ((if ?neg then ''-'' else []) @ rev ds)"
    using ds by (simp add: itoa_def Let_def)
  ultimately show ?thesis
    using u by (intro exI [of _ ds]) simp
qed

theorem itoa_prints_the_value_witness:
  "\<exists>digits. itoa (- 2147483648) 10 = Some (''-'' @ rev digits)
     \<and> int (digits_value 10 digits) = 2147483648"
  using itoa_prints_the_value [of 10 "- 2147483648"] by auto

end
