(* ===== verification/Globals.thy ===== *)
theory Globals
  imports WiFi HardwareSerial ArduinoCore
begin

text \<open>
  \<open>native/hal/src/arduino_globals.cpp\<close>: the objects that the firmware finds at file scope. \<open>ESP\<close> has
  no members; \<open>WiFi\<close> has an address and a host name, \<open>zimodem_hal_serial\<close> its time limit. What the
  firmware does to them through their classes is a list of calls.
\<close>

record 't arduino_globals =
  the_WiFi :: wifi_adapter
  the_serial_timeout :: 't

definition arduino_globals :: "'l::len word arduino_globals" where
  "arduino_globals = \<lparr>the_WiFi = wifi_adapter_init, the_serial_timeout = default_timeout_ms\<rparr>"

datatype 't global_call =
    CallWifiBegin c_string c_string
  | CallWifiConfig ip_address ip_address ip_address ip_address
  | CallWifiSetHostname c_string
  | CallWifiMode int
  | CallWifiDisconnect
  | CallSetTimeout 't

fun call_global :: "'l::len word global_call \<Rightarrow> 'l word arduino_globals \<Rightarrow> 'l word arduino_globals" where
  "call_global (CallWifiBegin ssid password) g = g\<lparr>the_WiFi := snd (wifi_begin ssid password (the_WiFi g))\<rparr>"
| "call_global (CallWifiConfig ip gateway subnet dns) g =
     g\<lparr>the_WiFi := snd (wifi_config ip gateway subnet dns (the_WiFi g))\<rparr>"
| "call_global (CallWifiSetHostname name) g = g\<lparr>the_WiFi := wifi_setHostname name (the_WiFi g)\<rparr>"
| "call_global (CallWifiMode m) g = g\<lparr>the_WiFi := wifi_mode m (the_WiFi g)\<rparr>"
| "call_global CallWifiDisconnect g = g\<lparr>the_WiFi := wifi_disconnect (the_WiFi g)\<rparr>"
| "call_global (CallSetTimeout ms) g = g\<lparr>the_serial_timeout := set_timeout ms (the_serial_timeout g)\<rparr>"

text \<open>
  The adapter reports the same state after whatever calls: connected, at the address that the
  constructor set, also after \<open>config\<close> with another and after \<open>disconnect\<close>.
\<close>

lemma adapter_never_changes:
  "let a = the_WiFi (fold call_global calls arduino_globals) in
     wifi_status a = 3 \<and> wifi_localIP a = IPAddress 127 0 0 1 \<and> wifi_scanNetworks a = 0"
proof -
  have "local_ip (the_WiFi (fold call_global calls g)) = local_ip (the_WiFi g)" for g :: "'a word arduino_globals"
  proof (induction calls arbitrary: g)
    case (Cons c calls)
    then show ?case
      by (cases c) (simp_all add: wifi_begin_def wifi_config_def wifi_setHostname_def wifi_mode_def wifi_disconnect_def)
  qed simp
  then show ?thesis
    by (simp add: arduino_globals_def wifi_adapter_init_def wifi_status_def wifi_localIP_def wifi_scanNetworks_def)
qed

text \<open>The time limit is the last one that was set, at the start a second.\<close>

lemma timeout_is_last_set:
  "the_serial_timeout (fold call_global calls arduino_globals)
     = last (1000 # List.map_filter (\<lambda>c. case c of CallSetTimeout ms \<Rightarrow> Some ms | _ \<Rightarrow> None) calls)"
proof -
  have "the_serial_timeout (fold call_global calls g)
      = last (the_serial_timeout g # List.map_filter (\<lambda>c. case c of CallSetTimeout ms \<Rightarrow> Some ms | _ \<Rightarrow> None) calls)"
    for g :: "'a word arduino_globals"
  proof (induction calls arbitrary: g)
    case Nil
    show ?case
      by (simp add: List.map_filter_def)
  next
    case (Cons c calls)
    then show ?case
      by (cases c) (simp_all add: List.map_filter_def set_timeout_def)
  qed
  then show ?thesis
    by (simp add: arduino_globals_def default_timeout_ms_def)
qed

end
