(* ===== verification/HalTests.thy ===== *)
theory HalTests
  imports HostAbi FlashSpec HardwareSerial IPAddr
begin

text \<open>
  The repository's own tests, \<open>hal/tests/test_*.cpp\<close> and \<open>wrapper/tests/test_c_abi.cpp\<close>, as
  evaluations of the model: each lemma makes the calls of one or more test cases in their order and
  states what they require. The cases that need real sockets, the real clock, the firmware or a
  \<open>printf\<close> format are left out.
\<close>

abbreviation str_of :: "string \<Rightarrow> arduino_string" where
  "str_of s \<equiv> string_of_cstr (Some s)"

section \<open>\<open>test_serial.cpp\<close>\<close>

lemma test_feed_input:
  "let s = feed_input [65, 84, 13] (serial_init :: nat serial_port);
       (a, s1) = serial_read s; (b, s2) = serial_read s1; (c, s3) = serial_read s2
   in serial_available s = 3 \<and> serial_peek s = 65 \<and> [a, b, c] = [65, 84, 13]
     \<and> serial_available s3 = 0 \<and> fst (serial_read s3) = - 1"
  by code_simp

lemma test_write_fires_data_ready:
  "let s = set_data_ready_callback (Some (1 :: nat)) serial_init;
       (n, calls, s1) = serial_write [79, 75, 13, 10] s;
       (a, s2) = rx_read s1; (b, s3) = rx_read s2; (c, s4) = rx_read s3; (d, s5) = rx_read s4
   in calls = [DataReadyCall 1] \<and> [a, b, c, d] = [79, 75, 13, 10] \<and> \<not> rx_available s5 \<and> fst (rx_read s5) = - 1"
  by code_simp

lemma test_available_for_write: "0 < available_for_write s"
  by (simp add: available_for_write_def kPlentyOfRoom_def)

lemma test_hardware_serial_routes:
  "let s = feed_input [88, 89] (serial_init :: nat serial_port); (a, s1) = hw_read s;
       (n, calls, s2) = hw_write_byte 90 ([], s1)
   in hw_available s = 2 \<and> hw_peek s = 88 \<and> a = 88 \<and> fst (rx_read s2) = 90"
  by code_simp

section \<open>\<open>test_pins.cpp\<close>\<close>

lemma test_pins_read_and_write:
  "let p = (pins_init :: nat pins); (c1, p1) = digital_write 14 1 p; (c2, p2) = digital_write 27 0 p1;
       (c3, p3) = digital_write 14 0 p2
   in digital_read 14 p = 0 \<and> digital_read 14 p2 = 1 \<and> digital_read 27 p2 = 0 \<and> digital_read 14 p3 = 0"
  by code_simp

lemma test_signal_only_on_change:
  "let p = set_signal_callback (Some (1 :: nat)) pins_init; (c1, p1) = digital_write 14 1 p;
       (c2, p2) = digital_write 14 1 p1; (c3, p3) = digital_write 14 0 p2
   in c1 @ c2 @ c3 = [SignalCall 1 14 1, SignalCall 1 14 0]"
  by code_simp

lemma test_reset_clears_pins:
  "let p = set_signal_callback (Some (1 :: nat)) pins_init; (c1, p1) = digital_write 14 1 p;
       p2 = pins_reset_for_testing p1; (c2, p3) = digital_write 14 1 p2
   in length c1 = 1 \<and> digital_read 14 p2 = 0 \<and> c2 = []"
  by code_simp

section \<open>\<open>test_log.cpp\<close>\<close>

lemma test_log:
  "log_write ''hello'' (set_sink None (log_init :: nat log_state)) = []"
  "log_write ''hello'' (set_sink (Some (1 :: nat)) log_init) = [LogCall 1 ''hello'']"
  by code_simp+

lemma test_log_writef:
  "log_writef (Some ''Baud 115200'') (set_sink (Some (1 :: nat)) log_init) = [LogCall 1 ''Baud 115200'']"
  by (simp add: log_writef_def vwritef_def vsnprintf_ret_def vsnprintf_buf_def log_write_def set_sink_def)

section \<open>\<open>test_timing.cpp\<close>\<close>

text \<open>The fake clock is a variable of the test; \<open>sleep_ms\<close> may advance it.\<close>

lemma test_fake_clock:
  "let t = set_clock_for_testing (Some (\<lambda>fake. (fake, fake))) None timing_init
   in fst (now_ms os t (1000 :: u64)) = 1000 \<and> fst (now_ms os t 2000) = 2000"
  by (simp add: set_clock_for_testing_def now_ms_def)

lemma test_fake_sleep:
  "let t = set_clock_for_testing (Some (\<lambda>fake. (fake, fake))) (Some (\<lambda>ms fake. fake + ucast ms)) timing_init
   in fst (now_ms os t (0 :: u64)) = 0 \<and> fst (now_ms os t (sleep_ms os t 900 0)) = 900"
  by (simp add: set_clock_for_testing_def now_ms_def sleep_ms_def)

lemma test_clock_restored:
  "now_ms os (set_clock_for_testing None None t) w = os_now_ms os w"
  by (simp add: set_clock_for_testing_def now_ms_def)

section \<open>\<open>test_string.cpp\<close>\<close>

lemma test_construction:
  "string_length (String []) = 0 \<and> string_length (str_of ''hello'') = 5
     \<and> string_c_str (str_of ''hello'') = ''hello'' \<and> string_c_str (string_of_char CHR ''x'') = ''x''"
  by code_simp

lemma digit_chars:
  "map digit_char [1, 2, 3, 4, 5, 6, 7, 8, 9] = ''123456789''"
  by code_simp

lemma test_numbers:
  "map (\<lambda>n. string_c_str (string_of_number n)) [3, - 42, 42, 123456789] = [''3'', ''-42'', ''42'', ''123456789'']"
  using digit_chars by (simp add: string_of_number_def string_c_str_def c_view_def dec_of_int_def dec_of_nat.simps)

lemma test_append:
  "string_c_str (string_append (string_append_char (string_append_cstr (str_of ''AT'') (Some ''D'')) CHR ''T'') (str_of ''1234''))
     = ''ATDT1234''"
  "string_c_str (string_assign_cstr (Some ''second'') (str_of ''first'')) = ''second''"
  "string_concat_char (str_of ''line'') CHR ''!'' = (True, str_of ''line!'')"
  by code_simp+

lemma test_plus:
  "string_c_str (string_plus_cstr (str_of ''hello'') (Some '' world'')) = ''hello world''"
  "string_c_str (cstr_plus_string (Some ''say '') (str_of ''hello'')) = ''say hello''"
  "string_c_str (string_plus_char (str_of ''hello'') CHR ''!'') = ''hello!''"
  "string_c_str (char_plus_string CHR ''!'' (str_of ''hello'')) = ''!hello''"
  "string_c_str (string_plus_cstr (string_plus_cstr (string_plus_cstr (cstr_plus_string (Some ''CONNECTED TO '')
      (str_of ''myssid'')) (Some '' ('')) (Some (string_c_str (str_of ''192.168.1.50'')))) (Some '')''))
     = ''CONNECTED TO myssid (192.168.1.50)''"
  by code_simp+

lemma test_comparison:
  "string_eq (str_of ''abc'') (str_of ''abc'') \<and> string_eq_cstr (str_of ''abc'') (Some ''abc'')
     \<and> string_ne_cstr (str_of ''abc'') (Some ''abd'') \<and> string_ne (str_of ''abc'') (str_of ''abd'')"
  "string_equals (str_of ''CaT'') (str_of ''CaT'') \<and> string_equals_ignore_case (str_of ''CaT'') (str_of ''cat'')
     \<and> \<not> string_equals_ignore_case (str_of ''CaT'') (str_of ''dog'')"
  "string_starts_with (str_of ''/join #channel'') (str_of ''/join '') \<and> \<not> string_starts_with (str_of ''/join #channel'') (str_of ''/part'')
     \<and> string_ends_with (str_of ''GAME.PRG'') (str_of ''.PRG'') \<and> \<not> string_ends_with (str_of ''GAME.PRG'') (str_of ''.SEQ'')"
  by code_simp+

lemma test_search:
  "string_index_of_char (str_of ''AT+RING 311 '') CHR '' '' 0 = 7"
  "string_index_of (str_of ''AT+RING 311 '') (str_of '' 311 '') 0 = 7"
  "string_index_of_char (str_of ''AT+RING 311 '') CHR '' '' 8 = 11"
  "string_index_of (str_of ''AT+RING 311 '') (str_of ''nope'') 0 = - 1"
  "string_last_index_of_char (str_of ''/some/path/file.str_of'') CHR ''/'' = 10"
  "string_last_index_of (str_of ''/some/path/file.str_of'') (str_of ''/'') = 10"
  by code_simp+

lemma test_slices:
  "string_c_str (string_substring (str_of ''0123456789'') 0 3) = ''012''"
  "string_c_str (string_substring_from (str_of ''0123456789'') 7) = ''789''"
  "string_c_str (string_substring (str_of ''0123456789'') 3 3) = ''''"
  "string_c_str (string_remove (str_of ''GET /path HTTP/1.1'') 0 4) = ''/path HTTP/1.1''"
  "string_c_str (string_remove_from (str_of ''keep this part'') 4) = ''keep''"
  by code_simp+

lemma test_edits:
  "string_c_str (string_replace_char (str_of ''a-b-c'') CHR ''-'' CHR ''_'') = ''a_b_c''"
  "string_c_str (string_trim (str_of ''  spaced out  '')) = ''spaced out''"
  "string_length (string_trim (str_of ''   '')) = 0"
  "string_c_str (string_to_lower (str_of ''MiXeD'')) = ''mixed''"
  "string_c_str (string_to_upper (str_of ''mixed'')) = ''MIXED''"
  "string_at (str_of ''abc'') 0 = CHR ''a'' \<and> string_at (str_of ''abc'') 2 = CHR ''c'' \<and> string_at (str_of ''abc'') 99 = CHR 0x00"
  "string_c_str (string_set_at (str_of ''abc'') 1 CHR ''X'') = ''aXc''"
  "string_c_str (string_set_at (str_of ''abc'') 99 CHR ''Z'') = ''abc''"
  by code_simp+

lemma test_replace:
  "string_c_str (string_replace (str_of ''hello %H world'') (str_of ''%H'') (str_of ''there'')) = ''hello there world''"
  by code_simp

section \<open>\<open>test_ipaddress.cpp\<close>\<close>

lemma test_ip_address:
  "map (ip_at ip_default) [0, 1, 2, 3] = [0, 0, 0, 0] \<and> string_c_str (ip_toString ip_default) = ''0.0.0.0''"
  "map (ip_at (IPAddress 192 168 1 50)) [0, 1, 2, 3] = [192, 168, 1, 50]"
  "string_c_str (ip_toString (IPAddress 192 168 1 50)) = ''192.168.1.50''"
  "string_c_str (ip_toString (ip_set_at (IPAddress 10 0 0 1) 3 2)) = ''10.0.0.2''"
  "ip_eq (IPAddress 1 2 3 4) (IPAddress 1 2 3 4) \<and> ip_ne (IPAddress 1 2 3 4) (IPAddress 1 2 3 5)"
  "string_c_str (ip_toString (IPAddress 255 255 255 0)) = ''255.255.255.0''"
  by code_simp+

section \<open>\<open>test_fs.cpp\<close>\<close>

definition fresh_flash :: host_fs where
  "fresh_flash = snd (fs_reset_for_testing ''/t'' fs_init)"

definition saved :: "string \<Rightarrow> string \<Rightarrow> host_fs \<Rightarrow> host_fs" where
  "saved path text fs = snd (put_file True ''/t'' ''w'' (Some path) (map (\<lambda>c. of_nat (of_char c)) text) fs)"

definition there :: "string \<Rightarrow> host_fs \<Rightarrow> bool" where
  "there path fs = fst (spiffs_exists ''/t'' (Some path) fs)"

lemma test_fs_exists_and_remove:
  "let fs = saved ''/zlisteners.str_of'' [] fresh_flash; fs1 = snd (spiffs_remove True ''/t'' (Some ''/zlisteners.str_of'') fs)
   in \<not> there ''/zlisteners.str_of'' fresh_flash \<and> there ''/zlisteners.str_of'' fs \<and> \<not> there ''/zlisteners.str_of'' fs1"
  by code_simp

lemma test_fs_missing_file:
  "\<not> file_is_open (fst (spiffs_open True ''/t'' (Some ''/nope.str_of'') (Some ''r'') fresh_flash))"
  by code_simp

lemma test_fs_stream:
  "let fs = saved ''/data.bin'' ''AB'' fresh_flash; (f, fs1) = spiffs_open True ''/t'' (Some ''/data.bin'') (Some ''r'') fs;
       (a, f1) = file_read f fs1; (b, f2) = file_read f1 fs1
   in file_available f fs1 = 2 \<and> a = 65 \<and> b = 66 \<and> file_available f2 fs1 = 0 \<and> file_size f fs1 = 2"
  by code_simp

lemma test_fs_format:
  "let fs = saved ''/b.str_of'' [] (saved ''/a.str_of'' [] fresh_flash);
       (ok, fs1) = spiffs_format True (\<lambda>_. False) ''/t'' fs
   in there ''/a.str_of'' fs \<and> ok \<and> \<not> there ''/a.str_of'' fs1 \<and> \<not> there ''/b.str_of'' fs1"
  by code_simp

lemma used_bytes:
  "map_option info_used (fst (spiffs_info True fresh fs))
     = (if is_dir (leads_to (fst (fs_get_root fresh fs))) (snd (fs_get_root fresh fs))
        then Some (sum_list (map (\<lambda>(p, i). length (fs_data (snd (fs_get_root fresh fs)) i))
          (filter (\<lambda>(p, i). strict_suffix (leads_to (fst (fs_get_root fresh fs))) p) (fs_names (snd (fs_get_root fresh fs))))))
        else None)"
  by (simp add: spiffs_info_def split_def Let_def)

lemma test_fs_info:
  "map_option info_used (fst (spiffs_info True ''/t'' (saved ''/x.txt'' ''12345'' (saved ''/x.txt'' [] fresh_flash)))) = Some 5"
  unfolding used_bytes by code_simp

section \<open>\<open>test_c_abi.cpp\<close>\<close>

lemma test_create_requires_data_dir:
  "fst (zimodem_host_create mk a None s) = Inr None"
  "fst (zimodem_host_create mk a (Some None) s) = Inr None"
  "fst (zimodem_host_create mk a (Some (Some '''')) s) = Inr None"
  by (simp_all add: zimodem_host_create_def c_view_def)

lemma test_only_one_handle:
  "let (first, s) = zimodem_host_create True (Some 1) (Some (Some ''/d'')) host_init;
       (second, s1) = zimodem_host_create True (Some 2) (Some (Some ''/d'')) s
   in first = Inr (Some 1) \<and> second = Inr None"
  by (simp add: zimodem_host_create_def c_view_def host_init_def new_instance_def Let_def)

lemma test_starting_twice_is_rejected:
  "let (h, s) = zimodem_host_create True (Some 1) (Some (Some ''/d'')) host_init;
       (r, s1) = zimodem_host_start True (Some 1) s; (again, s2) = zimodem_host_start True (Some 1) s1
   in r = Inr 0 \<and> again = Inr (- 1)"
  by (simp add: zimodem_host_create_def zimodem_host_start_def c_view_def host_init_def new_instance_def Let_def)

end
