(* ===== verification/Spec2Isabelle.thy ===== *)
theory Spec2Isabelle
  imports HostThreads HalThreads HostEvents CallbackEnd HostSingleton HostLives WiFiHandles WiFiServe WiFiPackets NetPlatform RootThreads Globals HalTests
begin

text \<open>
  BitMagic.ZiModem runs the Zimodem firmware, written for an ESP32, as a library of a host
  program. The firmware is a git submodule; what the repository itself adds is the layer the
  firmware runs on (\<open>native/hal\<close>, a hardware abstraction layer with the Arduino classes the
  firmware was written against) and the C interface the host program runs it by
  (\<open>native/wrapper\<close>). This development models that layer and that interface.

  How the parts interact. The host program calls the exported functions of
  \<open>wrapper/src/zimodem_host.cpp\<close>. \<open>zimodem_host_start\<close> spawns a thread that runs the
  firmware's \<open>setup()\<close> once and \<open>loop()\<close> for ever. The firmware and the host meet in
  process-wide state of the HAL: two byte queues and the line settings
  (\<open>hal/src/serial_port.cpp\<close>), the pin table (\<open>pins.cpp\<close>), the debug sink (\<open>log.cpp\<close>). A
  change of that state calls back into the instance through four lambdas that
  \<open>zimodem_host_create\<close> registers, and from there into functions of the host, three of them
  under the instance's \<open>callback_mutex\<close>. The firmware reaches the outside through \<open>net.cpp\<close>,
  \<open>tls.cpp\<close> and \<open>arduino_fs.cpp\<close>, and all of it through the classes of \<open>include/zimodem_hal/arduino\<close>.

  \<^bold>\<open>The theories\<close>, in the order of the layers.

  \<^item> \<open>Prelude\<close>: the integer types and casts of the sources, C strings, \<open>vsnprintf\<close>, decimal
    numerals, and lemmas on lists, words and maps. \<open>Interfaces\<close>: the contracts as locales,
    \<open>byte_queue\<close> and \<open>peek_queue\<close>, \<open>change_notifier\<close>, \<open>byte_source\<close>, \<open>byte_sink\<close>.
    \<open>Mutex\<close>: threads that interleave access by access around one mutex, with the locale
    \<open>locked_object\<close>: what a function does alone it then does under every interleaving.
  \<^item> \<open>SerialPort\<close>, \<open>Pins\<close>, \<open>LogSink\<close>, \<open>Timing\<close>: the files of the same names under \<open>hal/src\<close>. The
    globals of a file are the fields of one record; a function that calls back returns the
    calls it makes, in order, beside its result. \<open>HalThreads\<close>: the same functions access by
    access, as several threads run them; it interprets \<open>locked_object\<close>, so that the other
    theories may take each function as one step. \<open>RootThreads\<close> does the same for \<open>fs_root.cpp\<close> and
    \<open>timing.cpp\<close>, and shows that the root directory is chosen once.
  \<^item> \<open>SerialConfig\<close>: the decoder of the firmware's \<open>SerialConfig\<close> bitmap, on 32-bit words.
  \<^item> \<open>HostAbi\<close>: the instance record, the heap of instances, the lambdas with their mutex and the
    exported functions, over the record \<open>host\<close> of the whole process. A host function is the
    list of exported calls it makes, so that calls from inside a callback are covered.
    \<open>HostCallbacks\<close>: which of them are safe. \<open>HostLifecycle\<close>: the states that sequences of
    calls and firmware actions reach. \<open>HostThreads\<close>: the background thread, the owner and a third
    thread interleaved, one access of the instance at a time. \<open>CallbackThreads\<close>: any number of
    threads of the host and the firmware's in the exported functions and the lambdas, with
    \<open>callback_mutex\<close> as a mutex that threads wait for; \<open>CallbackAlone\<close> shows that a thread
    alone does there what \<open>HostAbi\<close> says, \<open>HostEvents\<close> states which functions of the host the
    firmware's operations call, under any interleaving, and \<open>CallbackEnd\<close> that threads end. \<open>HostSingleton\<close>:
    \<open>create\<close> and \<open>destroy\<close> on several threads, statement by statement, around
    \<open>g_singleton_mutex\<close>.
  \<^item> \<open>Net\<close>: \<open>resolve_ipv4\<close>, \<open>TcpSocket\<close>, \<open>TcpListener\<close>, \<open>UdpSocket\<close> of \<open>net.cpp\<close>.
    \<open>NetPlatform\<close>: what its preprocessor branches define for POSIX and for Windows, and why one
    model of the classes serves both. \<open>Tls\<close>: \<open>TlsSocket\<close> of \<open>tls.cpp\<close>, on top of \<open>TcpSocket\<close>.
  \<^item> \<open>WString\<close>, \<open>PrintStream\<close>, \<open>HardwareSerial\<close>, \<open>IPAddr\<close>, \<open>ArduinoCore\<close>: the Arduino classes and
    helpers of \<open>WString.h\<close>, \<open>Print.h\<close> and \<open>Stream.h\<close>, \<open>HardwareSerial.h\<close>, \<open>IPAddress.h\<close>,
    \<open>Arduino.h\<close> and \<open>ESP.h\<close>. \<open>WiFi\<close>: the five network classes; the \<open>shared_ptr\<close> members of
    copied clients are references into a store of use-counted sockets.
    \<open>WiFiHandles\<close>: a program with any number of these objects, and who owns which descriptor.
    \<open>WiFiServe\<close>: a listening server and the order in which it serves its peers. \<open>WiFiPackets\<close>:
    exchanges of datagrams, against a log of calls and answers. \<open>Globals\<close>: the objects of
    \<open>arduino_globals.cpp\<close>.
  \<^item> \<open>HostFs\<close>: what the emulated flash uses of the host, paths that are walked through
    directories, names for inodes, C streams. \<open>ArduinoFs\<close>: \<open>fs_root.cpp\<close>, \<open>arduino_fs.cpp\<close> and
    \<open>FS.h\<close> on top of it. \<open>FlashSpec\<close>: what the flash promises, an abstract store and the locale
    \<open>file_store\<close> with its interpretation by the calls the firmware makes. \<open>HostLives\<close>: one modem
    after the other: the \<open>host\<close> record holds the file system, \<open>zimodem_host_create\<close> points the flash at
    its data directory, and the firmware works on it between \<open>start\<close> and \<open>destroy\<close>.
  \<^item> \<open>HalTests\<close>: the repository's unit tests that need no real socket, clock or firmware, evaluated
    on the model.

  \<^bold>\<open>What is proved.\<close> For the interface: at most one instance is alive and no
  callback slot points to a freed one, in every reachable state; host functions that keep to the
  calls the model singles out as safe never deadlock, never use a freed instance and never let an
  exception out, and one that drives a pin from the serial handler does deadlock; the background
  thread touches no freed instance and \<open>join\<close> returns. For the threads: the functions
  of the HAL are atomic and its queues lose no byte under any interleaving; handlers run one at a
  time, only while they are registered, and threads that follow the rules end within a known
  number of turns; with one registration in force the host hears exactly what the firmware's
  operations should make it hear, in order; \<open>create\<close> and \<open>destroy\<close> on several threads leave no
  callback slot that names a freed instance. For the flash: it refines a map from names to
  contents, a call changes no file but its own, and \<open>format\<close>
  removes every file; what the firmware of one modem saved, the next modem with its data directory
  finds. For the streams: both UART queues, TCP and TLS reads and datagrams deliver every byte
  once and in order under any interleaving of the operations, peeks included; a server serves its
  peers in the order they came and loses no more of them than accepts fail; datagrams stay whole and apart; what \<open>Print\<close> prints reaches the host; listeners
  mirror pins and line settings. For the resources: in a program with any number of clients,
  servers and datagram sockets every descriptor belongs to one object that is in use, and none is
  left in the end; clients that were assigned or copied talk over one connection, which closes
  with the last of them; a TLS socket connected again after a close reads nothing. For the loops: \<open>readBytes\<close>, the TLS
  handshake, the TLS write and the substitution of \<open>String::replace\<close> end, which with the
  string itself as the text to find and nothing to put there it does not. For the
  conversions: packing, printing and parsing of addresses, \<open>itoa\<close>, line-settings
  bitmaps and file contents round-trip. And for the defects found: those that a call sequence or
  an interleaving shows are theorems about the code as it is, several of them among the properties
  of kind \<open>error\<close>.

  \<^bold>\<open>Bounds.\<close> Loops are total functions with a measure, except those that end
  only because the clock advances (\<open>read_bytes_loop\<close>,
  \<open>tls_handshake_loop\<close>, \<open>tls_write_loop\<close>): these are partial functions,
  with a theorem that they return where the clock laws \<open>serial_clock\<close> and
  \<open>clock_os\<close> hold, and \<open>replace_here\<close>, the substitution with the string itself as a
  parameter, which need not return. \<open>call_abi\<close> bounds the nesting of callbacks by 2;
  \<open>call_abi_deep_enough\<close> shows that the bound is never what stops a run, because a
  callback nested further has already relocked the mutex. A background thread told to stop ends
  within \<open>rank\<close>, at most four, of its own steps. \<open>static_cast<int>\<close> of a
  size keeps the low 32 bits; theorems that need a queue or a file below \<open>2 ^ 31\<close>
  bytes say so. The models of threads have no bound on the threads, calls or nesting.

  \<^bold>\<open>Parameters\<close>, with what is relied on of them. The firmware:
  \<open>setup\<close> and \<open>loop\<close> return or throw; what they do to the HAL is any
  sequence of \<open>fw_op\<close>. The operating system's sockets (\<open>net_api\<close>, with
  \<open>stream_os\<close>, \<open>handle_os\<close>, \<open>accept_os\<close> and \<open>datagram_os\<close>), mbedTLS
  (\<open>tls_api\<close>, with \<open>tls_read_os\<close>, \<open>tls_write_os\<close> and
  \<open>tls_handle_os\<close>: it reaches the connection through its BIO functions only), the
  clock (\<open>os_clock\<close>), \<open>create_directories\<close>, allocation and the creation
  of a thread, as success or failure; which opens, removals and listings of files it refuses. The
  text that a \<open>printf\<close> format denotes is a parameter where the format is the
  firmware's; the truncation around it is modelled. The C stream functions and
  \<open>std::filesystem\<close> are modelled in \<open>HostFs\<close> as far as the flash calls
  them.

  \<^bold>\<open>Not modelled.\<close> \<open>wrapper/src/zimodem_core.cpp\<close> only includes the firmware's sources, which
  are not in this repository. Stdio buffering and symbolic links are left out. The
  functions of \<open>fs_root.cpp\<close> are atomic (\<open>RootThreads\<close>); what the flash does besides, and the
  sockets, the \<open>File\<close> objects and the \<open>Serial\<close> object, belong to the firmware's thread alone. The
  managed wrapper and the tools in C#, the patches of the submodule and the tests that need a real
  network, clock or firmware are outside the library that is modelled here.
\<close>

end
